(* ===== verification/Naive_Prelude.thy ===== *)
theory Naive_Prelude
  imports Main "HOL-Library.Word"
begin

text \<open>
  Shared vocabulary of the development: the fixed-width integer types of
  \<^verbatim>\<open>src/src/types.h\<close>, the process exit codes of \<^verbatim>\<open>src/src/assertions.h\<close> with the
  result type that carries them, and the generic lemmas on words and lists that the
  component theories use.
\<close>

unbundle bit_operations_syntax

section \<open>Types\<close>

type_synonym u8 = "8 word"
type_synonym u16 = "16 word"
type_synonym u32 = "32 word"
type_synonym u64 = "64 word"

text \<open>
  \<^verbatim>\<open>ExitCode\<close>. Every check of the program that fails ends the process with one of these
  codes: \<^verbatim>\<open>ASSERT\<close>, \<^verbatim>\<open>PRECONDITION\<close> and \<^verbatim>\<open>UNREACHABLE\<close> with the internal compiler
  error, \<^verbatim>\<open>UNIMPLEMENTED\<close> with its own code.
\<close>

datatype exit_code =
    EXIT_CODE_SUCCESS
  | EXIT_CODE_BAD_CLI
  | EXIT_CODE_IO_ERROR
  | EXIT_CODE_INVALID_SOURCE
  | EXIT_CODE_LINKER_ERROR
  | EXIT_CODE_UNIMPLEMENTED
  | EXIT_CODE_INTERNAL_COMPILER_ERROR

type_synonym 'a res = "exit_code + 'a"

abbreviation ice :: "'a res" where
  "ice \<equiv> Inl EXIT_CODE_INTERNAL_COMPILER_ERROR"

abbreviation unimplemented :: "'a res" where
  "unimplemented \<equiv> Inl EXIT_CODE_UNIMPLEMENTED"

abbreviation invalid_source :: "'a res" where
  "invalid_source \<equiv> Inl EXIT_CODE_INVALID_SOURCE"

fun rbind :: "'e + 'a \<Rightarrow> ('a \<Rightarrow> 'e + 'b) \<Rightarrow> 'e + 'b" where
  "rbind (Inl e) f = Inl e"
| "rbind (Inr x) f = f x"

lemma rbind_Inr_iff [simp]: "rbind m f = Inr y \<longleftrightarrow> (\<exists>x. m = Inr x \<and> f x = Inr y)"
  by (cases m) auto

lemma rbind_Inl_iff: "rbind m f = Inl e \<longleftrightarrow> m = Inl e \<or> (\<exists>x. m = Inr x \<and> f x = Inl e)"
  by (cases m) auto

text \<open>
  Where the code may also do something that C leaves undefined (read through a null
  pointer, divide by zero, shift by the width or more), the result distinguishes it from
  the exits. \<open>No_Return\<close> stands for a loop that goes round without changing anything, or that
  has not ended within the fuel it was given.
\<close>

datatype stop = Exit exit_code | Undefined | No_Return

type_synonym 'a run = "stop + 'a"

abbreviation undefined_behaviour :: "'a run" where
  "undefined_behaviour \<equiv> Inl Undefined"

abbreviation exit_ice :: "'a run" where
  "exit_ice \<equiv> Inl (Exit EXIT_CODE_INTERNAL_COMPILER_ERROR)"

abbreviation exit_unimplemented :: "'a run" where
  "exit_unimplemented \<equiv> Inl (Exit EXIT_CODE_UNIMPLEMENTED)"

abbreviation exit_invalid :: "'a run" where
  "exit_invalid \<equiv> Inl (Exit EXIT_CODE_INVALID_SOURCE)"

definition run_of :: "'a res \<Rightarrow> 'a run" where
  "run_of r = map_sum Exit id r"

definition run_opt :: "'a option \<Rightarrow> 'a run" where
  "run_opt x = (case x of None \<Rightarrow> undefined_behaviour | Some y \<Rightarrow> Inr y)"

lemma run_of_simps [simp]: "run_of (Inl e) = Inl (Exit e)" "run_of (Inr x) = Inr x"
  "run_of r = Inr x \<longleftrightarrow> r = Inr x"
  by (simp_all add: run_of_def) (cases r; simp)

lemma run_opt_simps [simp]: "run_opt None = undefined_behaviour" "run_opt (Some x) = Inr x"
  "run_opt v = Inr x \<longleftrightarrow> v = Some x"
  by (simp_all add: run_opt_def split: option.splits)

text \<open>Reading and writing a list by index, outside of it is undefined.\<close>

definition at :: "'a list \<Rightarrow> nat \<Rightarrow> 'a run" where
  "at xs i = (if i < length xs then Inr (xs ! i) else undefined_behaviour)"

lemma at_Inr_iff [simp]: "at xs i = Inr x \<longleftrightarrow> i < length xs \<and> xs ! i = x"
  by (auto simp: at_def)

section \<open>Collections\<close>

named_theorems word_nat \<open>reading word operations through unat\<close>
named_theorems op_defs \<open>definitions of the operations of a component\<close>

section \<open>Words\<close>

lemma unat_add_no_wrap:
  fixes a b :: "'a::len word"
  assumes "unat a + unat b < 2 ^ LENGTH('a)"
  shows "unat (a + b) = unat a + unat b"
  using assms by (simp add: unat_word_ariths)

lemma unat_ucast_up: "LENGTH('a::len) \<le> LENGTH('b::len) \<Longrightarrow> unat (ucast (w :: 'a word) :: 'b word) = unat w"
  by (simp add: unsigned_ucast_eq take_bit_nat_eq_self unsigned_less less_le_trans [OF unsigned_less])

lemma unat_mult_no_wrap:
  fixes a b :: "'a::len word"
  assumes "unat a * unat b < 2 ^ LENGTH('a)"
  shows "unat (a * b) = unat a * unat b"
  using assms by (simp add: unat_word_ariths)

lemma exp2_less_imp_less: "(2::nat) ^ a < 2 ^ b \<Longrightarrow> a < b"
  by simp

lemma unat_Suc_no_wrap:
  fixes a :: "'a::len word"
  assumes "unat a + 1 < 2 ^ LENGTH('a)"
  shows "unat (a + 1) = unat a + 1"
  using assms by (simp add: unat_word_ariths(1))

lemma unat_less_exp: "unat (x :: 'a::len word) < 2 ^ LENGTH('a)"
  by (rule unsigned_less)

lemma unat_mask_le:
  assumes "k \<le> LENGTH('a)"
  shows "unat (mask k :: 'a::len word) = 2 ^ k - 1"
proof -
  have "unat (of_nat (mask k) :: 'a word) = take_bit LENGTH('a) (mask k)"
    by (simp only: unat_of_nat take_bit_eq_mod)
  then have "unat (mask k :: 'a word) = mask k"
    using assms by (simp add: of_nat_mask_eq min_def)
  then show ?thesis by (simp only: mask_eq_exp_minus_1)
qed

lemma unat_inc:
  fixes i n :: "'a::len word"
  assumes "i < n"
  shows "unat (i + 1) = unat i + 1"
proof (rule unat_Suc_no_wrap)
  have "unat i < unat n" using assms by (simp add: word_less_nat_alt)
  then show "unat i + 1 < 2 ^ LENGTH('a)" using unat_less_exp [of n] by linarith
qed

lemma count_up_measure:
  fixes i n :: "'a::len word"
  assumes "i < n"
  shows "unat n - unat (i + 1) < unat n - unat i"
  using assms by (simp add: unat_inc word_less_nat_alt)

lemma inc_le_iff:
  fixes i n k :: "'a::len word"
  assumes "i < n"
  shows "i + 1 \<le> k \<longleftrightarrow> i < k"
  using assms by (auto simp: word_le_nat_alt word_less_nat_alt unat_inc)

lemma word_eq_bitI:
  fixes a b :: "'a::len word"
  assumes "\<And>n. n < LENGTH('a) \<Longrightarrow> bit a n \<longleftrightarrow> bit b n"
  shows "a = b"
  using assms by (rule bit_word_eqI)

lemma word_bits_eq_iff: "(a :: 'a::len word) = b \<longleftrightarrow> (\<forall>n < LENGTH('a). bit a n \<longleftrightarrow> bit b n)"
  by (auto intro: bit_word_eqI)

lemma word_zero_bits: "(x :: 'a::len word) = 0 \<longleftrightarrow> (\<forall>n. \<not> bit x n)"
  by (auto intro: bit_word_eqI)

lemma word_and_one_iff: "(x :: 'a::len word) AND 1 = 1 \<longleftrightarrow> bit x 0"
  by (auto simp: and_one_eq odd_iff_mod_2_eq_one bit_0)

lemma unat_drop_bit: "unat (drop_bit n (x :: 'a::len word)) = unat x div 2 ^ n"
  by (simp only: unat_drop_bit_eq) (simp add: drop_bit_eq_div)

lemma bit_word_nat: "bit (x :: 'a::len word) j \<longleftrightarrow> odd (unat x div 2 ^ j)"
  proof -
  have "bit x j \<longleftrightarrow> bit (unat x) j" by (simp add: bit_unsigned_iff possible_bit_def)
  then show ?thesis by (simp only: bit_iff_odd)
qed

lemma bit_imp_exp_le:
  assumes "bit (x :: 'a::len word) j"
  shows "2 ^ j \<le> unat x"
proof (rule ccontr)
  assume "\<not> 2 ^ j \<le> unat x"
  then have "unat x div 2 ^ j = 0" by simp
  with assms show False by (simp add: bit_word_nat)
qed

lemma drop_bit_eq_0_iff: "drop_bit n (x :: 'a::len word) = 0 \<longleftrightarrow> unat x < 2 ^ n"
proof -
  have "drop_bit n x = 0 \<longleftrightarrow> unat (drop_bit n x) = 0" by (simp add: unat_eq_zero)
  also have "\<dots> \<longleftrightarrow> unat x < 2 ^ n" by (simp only: unat_drop_bit) (simp add: div_eq_0_iff)
  finally show ?thesis .
qed

lemma unat_exp2: "k < LENGTH('a) \<Longrightarrow> unat (2 ^ k :: 'a::len word) = 2 ^ k"
proof -
  assume k: "k < LENGTH('a)"
  have "unat (of_nat (2 ^ k) :: 'a word) = 2 ^ k mod 2 ^ LENGTH('a)" by (rule unat_of_nat)
  then show ?thesis using k by simp
qed

text \<open>Adding the mask of the low bits and clearing them rounds up to a power of two.\<close>

lemma unat_round_up:
  fixes n :: "'a::len word"
  assumes "k < LENGTH('a)" "unat n + 2 ^ k \<le> 2 ^ LENGTH('a)"
  shows "unat ((n + (2 ^ k - 1)) AND NOT (2 ^ k - 1)) = (unat n + (2 ^ k - 1)) div 2 ^ k * 2 ^ k"
proof -
  have x: "(2 ^ k - 1 :: 'a word) = mask k" by (simp add: mask_eq_exp_minus_1)
  have m: "unat (mask k :: 'a word) = 2 ^ k - 1"
    using assms(1) by (intro unat_mask_le) simp
  have "(0::nat) < 2 ^ k" by simp
  then have "unat n + (2 ^ k - 1) < 2 ^ LENGTH('a)" using assms(2) by linarith
  then have "unat (n + mask k) = unat n + (2 ^ k - 1)"
    using m by (subst unat_add_no_wrap) simp_all
  moreover have "(n + mask k) AND NOT (mask k) = push_bit k (drop_bit k (n + mask k))"
    by (rule bit_word_eqI) (auto simp: bit_simps)
  moreover have "unat (push_bit k (drop_bit k y)) = unat y div 2 ^ k * 2 ^ k" for y :: "'a word"
  proof -
    have "unat y div 2 ^ k * 2 ^ k < 2 ^ LENGTH('a)"
      using unat_less_exp [of y] by (intro le_less_trans [OF div_times_less_eq_dividend]) simp
    then show ?thesis
      by (simp only: unsigned_push_bit_eq unat_drop_bit)
         (simp add: push_bit_eq_mult take_bit_nat_eq_self)
  qed
  ultimately show ?thesis unfolding x by simp
qed

lemmas word_nat_simps =
  unat_word_ariths unat_drop_bit word_less_nat_alt word_le_nat_alt

end
