(* ===== verification/Naive_Maths.thy ===== *)
theory Naive_Maths
  imports Naive_Prelude
begin

text \<open>
  \<^verbatim>\<open>src/src/maths.h\<close>: the bit-scanning and rounding helpers used by the bit sets, the
  type layout, the stack frame layout and the ELF writer. Each helper is shown equal to
  its mathematical meaning: the position of the lowest and the highest set bit, the
  number of set bits, rounding up to a multiple of a power of two.
\<close>

section \<open>Definitions\<close>

definition max_u32 :: "u32 \<Rightarrow> u32 \<Rightarrow> u32" where
  "max_u32 a b = (if a < b then b else a)"

text \<open>The scanning loop of \<^verbatim>\<open>lowest_set_bit\<close> never ends on zero: \<open>None\<close>.\<close>

partial_function (option) lowest_set_bit_loop :: "u64 \<Rightarrow> u32 \<Rightarrow> u32 option" where
  "lowest_set_bit_loop x i =
     (if x AND 1 \<noteq> 1 then lowest_set_bit_loop (drop_bit 1 x) (i + 1) else Some i)"

declare lowest_set_bit_loop.simps [code]

definition lowest_set_bit :: "u64 \<Rightarrow> u32 res option" where
  "lowest_set_bit x = (if x = 0 then Some ice else map_option Inr (lowest_set_bit_loop x 0))"

text \<open>
  The portable branch of \<^verbatim>\<open>highest_set_bit\<close>: the tables \<^verbatim>\<open>b\<close> and \<^verbatim>\<open>s\<close>, walked from
  the last entry to the first.
\<close>

definition highest_set_bit_b :: "u64 list" where
  "highest_set_bit_b = [0x2, 0xC, 0xF0, 0xFF00, 0xFFFF0000, 0xFFFFFFFF00000000]"

definition highest_set_bit_s :: "nat list" where
  "highest_set_bit_s = [1, 2, 4, 8, 16, 32]"

fun highest_set_bit_loop :: "(u64 \<times> nat) list \<Rightarrow> u64 \<Rightarrow> u64 \<Rightarrow> u64" where
  "highest_set_bit_loop [] x r = r"
| "highest_set_bit_loop ((b, s) # rest) x r =
     (if x AND b \<noteq> 0 then highest_set_bit_loop rest (drop_bit s x) (r OR of_nat s)
      else highest_set_bit_loop rest x r)"

definition highest_set_bit :: "u64 \<Rightarrow> u32 res" where
  "highest_set_bit x =
     (if x = 0 then ice
      else Inr (ucast (highest_set_bit_loop
                  (rev (zip highest_set_bit_b highest_set_bit_s)) x 0)))"

lemma and_pred_less:
  fixes x :: "'a::len word"
  assumes "x \<noteq> 0"
  shows "unat (x AND (x - 1)) < unat x"
proof -
  have "x AND (x - 1) \<le> x - 1" by (rule word_and_le1)
  moreover have "unat (x - 1) = unat x - 1" using assms by (rule unat_minus_one)
  moreover have "0 < unat x" using assms by (simp add: unat_gt_0)
  ultimately show ?thesis by (simp add: word_le_nat_alt)
qed

function bit_count_loop :: "u32 \<Rightarrow> u32 \<Rightarrow> u32" where
  "bit_count_loop x n = (if x \<noteq> 0 then bit_count_loop (x AND (x - 1)) (n + 1) else n)"
  by pat_completeness auto
termination
  by (relation "measure (\<lambda>(x, n). unat x)") (auto intro: and_pred_less)

declare bit_count_loop.simps [simp del]

definition bit_count :: "u32 \<Rightarrow> u32" where
  "bit_count x = bit_count_loop x 0"

definition align_to :: "u32 \<Rightarrow> u32 \<Rightarrow> u32" where
  "align_to n align = (let x = align - 1 in (n + x) AND NOT x)"

section \<open>Lowest set bit\<close>

lemma lowest_set_bit_loop_bit:
  "\<forall>j<k. \<not> bit x j \<Longrightarrow> bit x k \<Longrightarrow> lowest_set_bit_loop x i = Some (i + of_nat k)"
proof (induction k arbitrary: x i)
  case 0
  then show ?case by (subst lowest_set_bit_loop.simps) (simp add: word_and_one_iff)
next
  case (Suc k)
  have "\<not> bit x 0" using Suc.prems(1) by blast
  moreover have "lowest_set_bit_loop (drop_bit 1 x) (i + 1) = Some (i + 1 + of_nat k)"
  proof (rule Suc.IH)
    show "\<forall>j<k. \<not> bit (drop_bit 1 x) j" "bit (drop_bit 1 x) k"
      using Suc.prems by (auto simp: bit_drop_bit_eq)
  qed
  ultimately show ?case
    by (subst lowest_set_bit_loop.simps) (simp add: word_and_one_iff algebra_simps)
qed

lemma lowest_bit_exists:
  fixes x :: "'a::len word"
  assumes "x \<noteq> 0"
  obtains k where "k < LENGTH('a)" "bit x k" "\<forall>j<k. \<not> bit x j"
proof -
  define k where "k = (LEAST n. bit x n)"
  from assms obtain n where "bit x n" by (auto simp: word_zero_bits)
  then have bit: "bit x k" unfolding k_def by (rule LeastI)
  moreover have "k < LENGTH('a)" using bit by (rule bit_imp_le_length)
  moreover have "\<forall>j<k. \<not> bit x j" unfolding k_def using not_less_Least by blast
  ultimately show thesis using that by blast
qed

section \<open>Highest set bit\<close>

definition level :: "nat \<Rightarrow> u64 \<times> nat" where
  "level k = (push_bit (2 ^ k) (mask (2 ^ k)), 2 ^ k)"

lemma levels_eq: "rev (zip highest_set_bit_b highest_set_bit_s) = map level (rev [0..<6])"
  by (simp add: level_def highest_set_bit_b_def highest_set_bit_s_def upt_rec
      mask_eq_exp_minus_1)

lemma and_upper_half:
  fixes x :: u64
  assumes "unat x < 2 ^ (2 * s)"
  shows "x AND push_bit s (mask s) \<noteq> 0 \<longleftrightarrow> 2 ^ s \<le> unat x"
proof
  assume "x AND push_bit s (mask s) \<noteq> 0"
  then obtain j where j: "bit x j" "s \<le> j"
    by (auto simp: word_zero_bits bit_and_iff bit_push_bit_iff)
  then have "2 ^ j \<le> unat x" by (intro bit_imp_exp_le)
  moreover have "(2::nat) ^ s \<le> 2 ^ j" using j(2) by simp
  ultimately show "2 ^ s \<le> unat x" by (rule order_trans [rotated])
next
  assume "2 ^ s \<le> unat x"
  then have "drop_bit s x \<noteq> 0" by (simp add: drop_bit_eq_0_iff)
  then obtain n where n: "bit x (s + n)"
    by (auto simp: word_zero_bits bit_drop_bit_eq)
  then have "2 ^ (s + n) < (2::nat) ^ (2 * s)"
    using assms bit_imp_exp_le le_less_trans by blast
  then have "n < s" by (simp add: power_strict_increasing_iff)
  moreover have "s + n < 64" using bit_imp_le_length [OF n] by simp
  ultimately have "bit (x AND push_bit s (mask s)) (s + n)"
    using n by (simp add: bit_and_iff bit_push_bit_iff bit_mask_iff)
  then show "x AND push_bit s (mask s) \<noteq> 0" by (auto simp: word_zero_bits)
qed

lemma of_nat_or_low:
  assumes "m < 2 ^ k"
  shows "of_nat (2 ^ k) OR of_nat m = (of_nat (2 ^ k + m) :: 'a::len word)"
proof -
  have "of_nat (2 ^ k) + of_nat m = (of_nat (2 ^ k) OR of_nat m :: 'a word)"
  proof (rule disjunctive_add)
    fix n
    have "\<not> bit m k" using assms by (simp add: bit_iff_odd)
    then show "\<not> bit (of_nat (2 ^ k) :: 'a word) n \<or> \<not> bit (of_nat m :: 'a word) n"
      by (auto simp: bit_of_nat_iff bit_exp_iff simp del: of_nat_power)
  qed
  then show ?thesis by simp
qed

text \<open>The loop adds the position of the highest set bit, one binary digit per level.\<close>

lemma highest_set_bit_loop_levels:
  fixes x :: u64
  assumes "unat x < 2 ^ 2 ^ n" "2 ^ h \<le> unat x" "unat x < 2 ^ Suc h"
  shows "highest_set_bit_loop (map level (rev [0..<n])) x r = r OR of_nat h"
  using assms
proof (induction n arbitrary: x h r)
  case 0
  then have "(2::nat) ^ h < 2" by simp
  then have "h = 0" by (cases h) auto
  then show ?case by simp
next
  case (Suc k)
  let ?s = "(2::nat) ^ k"
  have up: "x AND push_bit ?s (mask ?s) \<noteq> 0 \<longleftrightarrow> 2 ^ ?s \<le> unat x"
    by (rule and_upper_half) (use Suc.prems(1) in simp)
  note level_k = level_def [of k]
  show ?case
  proof (cases "2 ^ ?s \<le> unat x")
    case True
    then have "(2::nat) ^ ?s < 2 ^ Suc h" using Suc.prems(3) by linarith
    then have sh: "?s \<le> h" by (simp only: power_strict_increasing_iff less_Suc_eq_le one_less_numeral_iff semiring_norm)
    have "(2::nat) ^ h < 2 ^ 2 ^ Suc k" using Suc.prems(1,2) by linarith
    then have hs: "h - ?s < ?s" using sh by (simp add: power_strict_increasing_iff)
    have "highest_set_bit_loop (map level (rev [0..<k])) (drop_bit ?s x) (r OR of_nat ?s)
        = (r OR of_nat ?s) OR of_nat (h - ?s)"
    proof (rule Suc.IH)
      show "unat (drop_bit ?s x) < 2 ^ ?s"
        using Suc.prems(1) by (simp add: unat_drop_bit less_mult_imp_div_less power_add mult_2)
      have h: "h = h - ?s + ?s" using sh by simp
      show "2 ^ (h - ?s) \<le> unat (drop_bit ?s x)"
        using Suc.prems(2) sh
        by (simp only: unat_drop_bit) (metis div_le_mono h nonzero_mult_div_cancel_right power_add power_not_zero zero_neq_numeral)
      show "unat (drop_bit ?s x) < 2 ^ Suc (h - ?s)"
        using Suc.prems(3) sh
        by (simp only: unat_drop_bit) (metis Suc_diff_le div_less_iff_less_mult le_add_diff_inverse2 le_SucI power_add zero_less_numeral zero_less_power)
    qed
    moreover have "of_nat ?s OR of_nat (h - ?s) = (of_nat h :: u64)"
      using of_nat_or_low [OF hs] sh by simp
    ultimately show ?thesis
      using True up by (simp add: level_k or.assoc del: of_nat_power)
  next
    case False
    then have "highest_set_bit_loop (map level (rev [0..<k])) x r = r OR of_nat h"
      using Suc.prems(2,3) by (intro Suc.IH) auto
    with False up show ?thesis by (simp add: level_k)
  qed
qed

lemma exp_bracket:
  assumes "0 < (m::nat)" "m < 2 ^ n"
  obtains h where "h < n" "2 ^ h \<le> m" "m < 2 ^ Suc h"
proof -
  obtain h where h: "2 ^ h \<le> m" "m < 2 ^ (h + 1)"
    using assms(1) ex_power_ivl1 [of 2 m] by auto
  have "(2::nat) ^ h < 2 ^ n" using h(1) assms(2) by linarith
  then have "h < n" by simp
  with h that show thesis by simp
qed

lemma bits_of_bracket:
  fixes x :: "'a::len word"
  assumes "2 ^ h \<le> unat x" "unat x < 2 ^ Suc h"
  shows "bit x h" "\<And>j. h < j \<Longrightarrow> \<not> bit x j"
proof -
  have "unat x div 2 ^ h = 1"
    using assms by (intro div_nat_eqI) auto
  then show "bit x h" by (simp add: bit_word_nat)
  fix j assume "h < j"
  then have "(2::nat) ^ Suc h \<le> 2 ^ j" by (intro power_increasing) auto
  with assms(2) have "\<not> 2 ^ j \<le> unat x" by linarith
  then show "\<not> bit x j" using bit_imp_exp_le by blast
qed

lemma highest_set_bit_bracket:
  assumes "2 ^ h \<le> unat x" "unat x < 2 ^ Suc h"
  shows "highest_set_bit x = Inr (of_nat h)"
proof -
  have nz: "x \<noteq> 0" using assms(1) by auto
  have lt: "unat x < 2 ^ 64" using unat_less_exp [of x] by simp
  then have "(2::nat) ^ h < 2 ^ 64" using assms(1) by linarith
  then have h: "h < 64" by (rule exp2_less_imp_less)
  have "highest_set_bit_loop (map level (rev [0..<6])) x 0 = 0 OR of_nat h"
    using lt assms by (intro highest_set_bit_loop_levels) simp_all
  moreover have "ucast (of_nat h :: u64) = (of_nat h :: u32)"
    by (simp add: unsigned_of_nat take_bit_nat_eq_self_iff h take_bit_nat_less_exp)
       (use h in \<open>simp add: take_bit_nat_eq_self\<close>)
  ultimately show ?thesis using nz by (simp add: highest_set_bit_def levels_eq)
qed

section \<open>Counting bits\<close>

lemma pred_div_eq:
  assumes "(n::nat) mod m \<noteq> 0"
  shows "(n - 1) div m = n div m"
proof -
  have eq: "m * (n div m) + n mod m = n" by simp
  show ?thesis
  proof (cases "m = 0")
    case False
    then have "n mod m < m" by simp
    with eq assms have "m * (n div m) \<le> n - 1" "n - 1 < m * Suc (n div m)"
      unfolding mult_Suc_right by linarith+
    then show ?thesis by (intro div_nat_eqI) (simp_all add: mult.commute)
  qed simp
qed

lemma bit_and_pred:
  fixes x :: "'a::len word"
  assumes "bit x k" "\<forall>j<k. \<not> bit x j"
  shows "bit (x AND (x - 1)) j \<longleftrightarrow> bit x j \<and> j \<noteq> k"
proof -
  have "x \<noteq> 0" using assms(1) by auto
  then have pred: "unat (x - 1) = unat x - 1" by (rule unat_minus_one)
  have "take_bit k x = 0"
    using assms(2) by (auto simp: word_zero_bits bit_take_bit_iff)
  then have "take_bit k (unat x) = 0" by (metis unat_0 unsigned_take_bit_eq)
  then have dvd: "unat x mod 2 ^ k = 0" by (simp add: take_bit_eq_mod)
  then obtain q where q: "unat x = 2 ^ k * q" by (metis mod_0_imp_dvd dvd_def)
  have odd: "odd q" using assms(1) q by (simp add: bit_word_nat)
  have "\<not> bit (x - 1) k"
  proof -
    have "unat x - 1 = (q - 1) * 2 ^ k + (2 ^ k - 1)"
      using odd q by (cases q) (auto simp: algebra_simps)
    moreover have "(2::nat) ^ k - 1 < 2 ^ k" by simp
    ultimately have "(unat x - 1) div 2 ^ k = q - 1"
      by (simp only: div_mult_self3 div_less)
    then show ?thesis using odd pred by (simp add: bit_word_nat)
  qed
  moreover have "bit (x - 1) j = bit x j" if "k < j"
  proof -
    have "\<not> 2 ^ j dvd unat x"
    proof
      assume "2 ^ j dvd unat x"
      moreover have "(2::nat) ^ Suc k dvd 2 ^ j" using that by (intro le_imp_power_dvd) simp
      ultimately have "2 ^ Suc k dvd 2 ^ k * q" using q dvd_trans by metis
      then show False using odd by simp
    qed
    then have "(unat x - 1) div 2 ^ j = unat x div 2 ^ j"
      by (intro pred_div_eq) (simp add: dvd_eq_mod_eq_0)
    then show ?thesis using pred by (simp add: bit_word_nat)
  qed
  ultimately show ?thesis
    using assms by (cases j k rule: linorder_cases) (auto simp: bit_and_iff)
qed

lemma bit_count_loop_card:
  "unat n + card {i. bit x i} < 2 ^ 32 \<Longrightarrow>
   unat (bit_count_loop x n) = unat n + card {i. bit x i}"
proof (induction x n rule: bit_count_loop.induct)
  case (1 x n)
  show ?case
  proof (cases "x = 0")
    case True
    then show ?thesis by (simp add: bit_count_loop.simps)
  next
    case False
    then obtain k where k: "bit x k" "\<forall>j<k. \<not> bit x j" by (rule lowest_bit_exists)
    have fin: "finite {i. bit x i}" by (rule finite_subset [of _ "{..<32}"])
      (auto dest: bit_imp_le_length)
    have "{i. bit (x AND (x - 1)) i} = {i. bit x i} - {k}"
      using bit_and_pred [OF k] by auto
    then have card: "card {i. bit x i} = Suc (card {i. bit (x AND (x - 1)) i})"
      using fin k(1) by (metis card.remove mem_Collect_eq)
    then have "unat (n + 1) = unat n + 1"
      using "1.prems" by (intro unat_Suc_no_wrap) simp
    then show ?thesis
      using "1.IH" "1.prems" False card by (simp add: bit_count_loop.simps [of x])
  qed
qed

section \<open>Rounding up\<close>

lemma align_to_unat:
  assumes "k < 32" "unat n + 2 ^ k \<le> 2 ^ 32"
  shows "unat (align_to n (2 ^ k)) = (unat n + (2 ^ k - 1)) div 2 ^ k * 2 ^ k"
  using unat_round_up [of k n] assms by (simp add: align_to_def Let_def)

section \<open>Properties\<close>

text \<open>
  C29. On a non-zero argument both bit scans return (the loop of \<^verbatim>\<open>lowest_set_bit\<close> ends)
  and return the position of the lowest and of the highest set bit; on zero both end the
  process with an internal compiler error.
\<close>

theorem set_bit_scans:
  "lowest_set_bit 0 = Some ice \<and> highest_set_bit 0 = ice \<and>
   (x \<noteq> 0 \<longrightarrow> (\<exists>lo hi. lowest_set_bit x = Some (Inr (of_nat lo)) \<and>
      highest_set_bit x = Inr (of_nat hi) \<and> lo \<le> hi \<and> hi < 64 \<and>
      bit x lo \<and> bit x hi \<and> (\<forall>j. bit x j \<longrightarrow> lo \<le> j \<and> j \<le> hi)))"
proof (intro conjI impI)
  show "lowest_set_bit 0 = Some ice" "highest_set_bit 0 = ice"
    by (simp_all add: lowest_set_bit_def highest_set_bit_def)
  assume nz: "x \<noteq> 0"
  then obtain lo where lo: "bit x lo" "\<forall>j<lo. \<not> bit x j" by (rule lowest_bit_exists)
  have "0 < unat x" "unat x < 2 ^ 64" using nz unat_less_exp [of x] by (simp_all add: unat_gt_0)
  then obtain hi where hi: "hi < 64" "2 ^ hi \<le> unat x" "unat x < 2 ^ Suc hi"
    by (rule exp_bracket)
  note bits = bits_of_bracket [OF hi(2,3)]
  have "lowest_set_bit x = Some (Inr (of_nat lo))"
    using nz lo by (simp add: lowest_set_bit_def lowest_set_bit_loop_bit)
  moreover have "highest_set_bit x = Inr (of_nat hi)"
    using hi(2,3) by (rule highest_set_bit_bracket)
  moreover have "\<forall>j. bit x j \<longrightarrow> lo \<le> j \<and> j \<le> hi" using lo(2) bits(2) not_less by blast
  ultimately show "\<exists>lo hi. lowest_set_bit x = Some (Inr (of_nat lo)) \<and>
      highest_set_bit x = Inr (of_nat hi) \<and> lo \<le> hi \<and> hi < 64 \<and>
      bit x lo \<and> bit x hi \<and> (\<forall>j. bit x j \<longrightarrow> lo \<le> j \<and> j \<le> hi)"
    using lo(1) bits(1) hi(1) by blast
qed

theorem set_bit_scans_witness:
  "\<exists>lo hi. lowest_set_bit 0x50 = Some (Inr (of_nat lo)) \<and>
     highest_set_bit 0x50 = Inr (of_nat hi) \<and> lo \<le> hi \<and> hi < 64 \<and>
     bit (0x50 :: u64) lo \<and> bit (0x50 :: u64) hi \<and>
     (\<forall>j. bit (0x50 :: u64) j \<longrightarrow> lo \<le> j \<and> j \<le> hi)"
  using set_bit_scans [of "0x50"] by (simp del: bit_numeral_simps)

text \<open>\<^verbatim>\<open>bit_count\<close> returns the number of set bits of its argument.\<close>

theorem bit_count_card: "unat (bit_count x) = card {i. i < 32 \<and> bit x i}"
proof -
  have eq: "{i. bit x i} = {i. i < 32 \<and> bit x i}" by (auto dest: bit_imp_le_length)
  have "card {i. i < 32 \<and> bit x i} \<le> card {..<32::nat}"
    by (rule card_mono) auto
  then have "unat (bit_count_loop x 0) = 0 + card {i. bit x i}"
    unfolding eq by (subst bit_count_loop_card) (simp_all add: eq)
  then show ?thesis by (simp add: bit_count_def eq)
qed

text \<open>
  C30. For a power-of-two alignment and an argument whose rounding does not leave 32 bits,
  \<^verbatim>\<open>align_to\<close> returns the least multiple of the alignment that is not below the argument.
\<close>

theorem align_to_least_multiple:
  assumes "k < 32" and "unat n + 2 ^ k \<le> 2 ^ 32"
  shows "2 ^ k dvd unat (align_to n (2 ^ k)) \<and> unat n \<le> unat (align_to n (2 ^ k)) \<and>
    (\<forall>m. 2 ^ k dvd m \<and> unat n \<le> m \<longrightarrow> unat (align_to n (2 ^ k)) \<le> m)"
proof (intro conjI allI impI)
  let ?a = "(2::nat) ^ k" and ?m = "unat n + (2 ^ k - 1)"
  note eq = align_to_unat [OF assms]
  show "?a dvd unat (align_to n (2 ^ k))" by (simp add: eq)
  have "?m < ?m div ?a * ?a + ?a" 
    by (subst add.commute) (rule dividend_less_div_times, simp)
  then show "unat n \<le> unat (align_to n (2 ^ k))" unfolding eq by simp
  fix m assume m: "?a dvd m \<and> unat n \<le> m"
  then obtain q where q: "m = ?a * q" by (auto simp: dvd_def)
  have "0 < ?a" by simp
  then have "?m < Suc q * ?a" using m unfolding q mult_Suc mult.commute [of q] by linarith
  then have "?m div ?a < Suc q" by (rule less_mult_imp_div_less)
  then have "?m div ?a \<le> q" by simp
  then show "unat (align_to n (2 ^ k)) \<le> m" unfolding eq q by (simp add: mult.commute)
qed

theorem align_to_least_multiple_witness:
  "2 ^ 3 dvd unat (align_to 13 (2 ^ 3)) \<and> unat (13 :: u32) \<le> unat (align_to 13 (2 ^ 3))
   \<and> unat (align_to 13 (2 ^ 3)) \<le> 16"
proof -
  have h: "3 < (32::nat)" "unat (13 :: u32) + 2 ^ 3 \<le> 2 ^ 32" by simp_all
  have "2 ^ 3 dvd (16::nat) \<and> unat (13 :: u32) \<le> 16" by simp
  with align_to_least_multiple [OF h] show ?thesis by blast
qed

end
