(* ===== verification/Naive_Bit_Set.thy ===== *)
theory Naive_Bit_Set
  imports Naive_Maths
begin

text \<open>
  \<^verbatim>\<open>src/src/bit_set.h\<close> and \<^verbatim>\<open>src/src/bit_set.c\<close>: the bit sets of the register allocator.
  A set of at most 64 elements lives in the structure itself, a larger one in a heap
  array. The model keeps that distinction (\<open>bits = None\<close> is the pointer to
  \<^verbatim>\<open>inline_bits\<close>), reads and writes words through it, and returns \<open>None\<close> for an
  access outside the array. The theorems refine every operation to the corresponding
  operation on a finite set of numbers.
\<close>

section \<open>The interface\<close>

text \<open>
  What a client of a bounded set of indices relies on: reads agree with the abstract set,
  a write changes one element, clearing empties it, and all keep the invariant. An access
  below the bound never fails.
\<close>

locale bounded_set =
  fixes get :: "'s \<Rightarrow> u32 \<Rightarrow> bool option"
    and upd :: "'s \<Rightarrow> u32 \<Rightarrow> bool \<Rightarrow> 's option"
    and clear :: "'s \<Rightarrow> 's option"
    and bound :: "'s \<Rightarrow> nat"
    and contents :: "'s \<Rightarrow> nat set"
    and invar :: "'s \<Rightarrow> bool"
  assumes get_contents: "invar s \<Longrightarrow> unat i < bound s \<Longrightarrow> get s i = Some (unat i \<in> contents s)"
    and upd_contents: "invar s \<Longrightarrow> unat i < bound s \<Longrightarrow> \<exists>s'. upd s i v = Some s' \<and> invar s' \<and>
      bound s' = bound s \<and>
      contents s' = (if v then insert (unat i) (contents s) else contents s - {unat i})"
    and clear_contents: "invar s \<Longrightarrow> \<exists>s'. clear s = Some s' \<and> invar s' \<and> bound s' = bound s \<and>
      contents s' = {}"
begin

text \<open>Setting the bits of a list of indices, as the allocator does after clearing.\<close>

primrec set_many :: "'s \<Rightarrow> u32 list \<Rightarrow> 's option" where
  "set_many s [] = Some s"
| "set_many s (i # is) = Option.bind (upd s i True) (\<lambda>s'. set_many s' is)"

lemma set_many_contents:
  "invar s \<Longrightarrow> \<forall>i\<in>set is. unat i < bound s \<Longrightarrow>
   \<exists>s'. set_many s is = Some s' \<and> invar s' \<and> bound s' = bound s \<and>
     contents s' = contents s \<union> unat ` set is"
proof (induction "is" arbitrary: s)
  case Nil
  then show ?case by simp
next
  case (Cons i "is")
  then obtain s1 where s1: "upd s i True = Some s1" "invar s1" "bound s1 = bound s"
    "contents s1 = insert (unat i) (contents s)"
    using upd_contents [of s i True] by auto
  moreover have "\<forall>j\<in>set is. unat j < bound s1" using Cons.prems(2) s1(3) by simp
  ultimately show ?case using Cons.IH [of s1] by auto
qed

lemma get_after_upd:
  assumes "invar s" "unat i < bound s" "unat j < bound s"
  shows "\<exists>s'. upd s i v = Some s' \<and> invar s' \<and> get s' i = Some v \<and>
    (i \<noteq> j \<longrightarrow> get s' j = get s j)"
proof -
  obtain s' where s': "upd s i v = Some s'" "invar s'" "bound s' = bound s"
    "contents s' = (if v then insert (unat i) (contents s) else contents s - {unat i})"
    using upd_contents [OF assms(1,2)] by blast
  have "unat i = unat j \<longleftrightarrow> i = j" by (simp add: word_unat_eq_iff)
  with assms s' show ?thesis by (auto simp: get_contents)
qed

end

section \<open>State\<close>

record bit_set =
  bits :: "u64 list option"
  inline_bits :: u64
  size_in_bits :: u32

definition size_in_u64s :: "bit_set \<Rightarrow> u32" where
  "size_in_u64s bs = (size_in_bits bs + 63) div 64"

text \<open>\<^verbatim>\<open>bit_set->bits[i]\<close>, read and written.\<close>

definition word_at :: "bit_set \<Rightarrow> nat \<Rightarrow> u64 option" where
  "word_at bs i =
     (case bits bs of
        None \<Rightarrow> if i = 0 then Some (inline_bits bs) else None
      | Some ws \<Rightarrow> if i < length ws then Some (ws ! i) else None)"

definition put_word :: "bit_set \<Rightarrow> nat \<Rightarrow> u64 \<Rightarrow> bit_set option" where
  "put_word bs i w =
     (case bits bs of
        None \<Rightarrow> if i = 0 then Some (bs\<lparr>inline_bits := w\<rparr>) else None
      | Some ws \<Rightarrow> if i < length ws then Some (bs\<lparr>bits := Some (ws[i := w])\<rparr>) else None)"

section \<open>Operations\<close>

text \<open>
  \<open>garbage\<close> is what \<^verbatim>\<open>malloc\<close> returns: a fresh array with unspecified contents, of
  which the first \<^verbatim>\<open>SIZE_IN_U64S\<close> words belong to the set.
\<close>

definition bit_set_init :: "u64 list \<Rightarrow> bit_set \<Rightarrow> u32 \<Rightarrow> bit_set" where
  "bit_set_init garbage bs sz =
     (let bs = bs\<lparr>size_in_bits := sz\<rparr> in
      if sz \<le> 64 then bs\<lparr>bits := None\<rparr>
      else bs\<lparr>bits := Some (take (unat (size_in_u64s bs)) garbage)\<rparr>)"

definition bit_set_get_bit :: "bit_set \<Rightarrow> u32 \<Rightarrow> bool option" where
  "bit_set_get_bit bs index =
     map_option (\<lambda>w. drop_bit (unat (index mod 64)) w AND 1 = 1) (word_at bs (unat (index div 64)))"

definition bit_set_set_bit :: "bit_set \<Rightarrow> u32 \<Rightarrow> bool \<Rightarrow> bit_set option" where
  "bit_set_set_bit bs index v =
     (let i = unat (index div 64); m = push_bit (unat (index mod 64)) 1 in
      Option.bind (word_at bs i)
        (\<lambda>w. if v then put_word bs i (w OR m) else put_word bs i (w AND NOT m)))"

text \<open>The loops run over the word indices still to visit.\<close>

fun bit_set_set_all_from :: "bit_set \<Rightarrow> nat list \<Rightarrow> bit_set option" where
  "bit_set_set_all_from bs [] = Some bs"
| "bit_set_set_all_from bs (i # is) =
     Option.bind (put_word bs i 0xFFFFFFFFFFFFFFFF)
       (\<lambda>bs. Option.bind
          (if of_nat i = size_in_u64s bs - 1 then
             (let top_bits = size_in_bits bs mod 64 in
              if top_bits \<noteq> 0 then put_word bs i (push_bit (unat top_bits) 1 - 1) else Some bs)
           else Some bs)
          (\<lambda>bs. bit_set_set_all_from bs is))"

definition bit_set_set_all :: "bit_set \<Rightarrow> bit_set option" where
  "bit_set_set_all bs = bit_set_set_all_from bs [0..<unat (size_in_u64s bs)]"

fun bit_set_clear_all_from :: "bit_set \<Rightarrow> nat list \<Rightarrow> bit_set option" where
  "bit_set_clear_all_from bs [] = Some bs"
| "bit_set_clear_all_from bs (i # is) =
     Option.bind (put_word bs i 0) (\<lambda>bs. bit_set_clear_all_from bs is)"

definition bit_set_clear_all :: "bit_set \<Rightarrow> bit_set option" where
  "bit_set_clear_all bs = bit_set_clear_all_from bs [0..<unat (size_in_u64s bs)]"

text \<open>
  The two scans return an \<^verbatim>\<open>i32\<close>, here a 32-bit word, \<open>-1\<close> for the empty set. Their
  inner bit scan is \<^verbatim>\<open>lowest_set_bit\<close> or \<^verbatim>\<open>highest_set_bit\<close>.
\<close>

fun bit_set_lowest_from :: "bit_set \<Rightarrow> nat list \<Rightarrow> u32 res option" where
  "bit_set_lowest_from bs [] = Some (Inr (-1))"
| "bit_set_lowest_from bs (i # is) =
     Option.bind (word_at bs i)
       (\<lambda>w. if w \<noteq> 0
            then map_option (\<lambda>r. rbind r (\<lambda>b. Inr (64 * of_nat i + b))) (lowest_set_bit w)
            else bit_set_lowest_from bs is)"

definition bit_set_lowest_set_bit :: "bit_set \<Rightarrow> u32 res option" where
  "bit_set_lowest_set_bit bs = bit_set_lowest_from bs [0..<unat (size_in_u64s bs)]"

fun bit_set_highest_from :: "bit_set \<Rightarrow> nat list \<Rightarrow> u32 res option" where
  "bit_set_highest_from bs [] = Some (Inr (-1))"
| "bit_set_highest_from bs (i # is) =
     Option.bind (word_at bs i)
       (\<lambda>w. if w \<noteq> 0 then Some (rbind (highest_set_bit w) (\<lambda>b. Inr (64 * of_nat i + b)))
            else bit_set_highest_from bs is)"

definition bit_set_highest_set_bit :: "bit_set \<Rightarrow> u32 res option" where
  "bit_set_highest_set_bit bs = bit_set_highest_from bs (rev [0..<unat (size_in_u64s bs)])"

fun bit_set_is_empty_from :: "bit_set \<Rightarrow> nat list \<Rightarrow> bool option" where
  "bit_set_is_empty_from bs [] = Some True"
| "bit_set_is_empty_from bs (i # is) =
     Option.bind (word_at bs i)
       (\<lambda>w. if w \<noteq> 0 then Some False else bit_set_is_empty_from bs is)"

definition bit_set_is_empty :: "bit_set \<Rightarrow> bool option" where
  "bit_set_is_empty bs = bit_set_is_empty_from bs [0..<unat (size_in_u64s bs)]"

section \<open>Abstraction and invariant\<close>

abbreviation nbits :: "bit_set \<Rightarrow> nat" where
  "nbits bs \<equiv> unat (size_in_bits bs)"

abbreviation nwords :: "bit_set \<Rightarrow> nat" where
  "nwords bs \<equiv> unat (size_in_u64s bs)"

definition words :: "bit_set \<Rightarrow> u64 list" where
  "words bs = (case bits bs of None \<Rightarrow> [inline_bits bs] | Some ws \<Rightarrow> ws)"

text \<open>The set a bit set stands for.\<close>

definition elems :: "bit_set \<Rightarrow> nat set" where
  "elems bs = {i. i div 64 < nwords bs \<and> bit (words bs ! (i div 64)) (i mod 64)}"

text \<open>
  The words of the set are allocated (\<open>bits_alloc\<close>), and no bit at or above the size is
  set in them (\<open>top_clear\<close>), which the two scans and the emptiness test rely on.
\<close>

definition bits_alloc :: "bit_set \<Rightarrow> bool" where
  "bits_alloc bs \<longleftrightarrow> nbits bs + 63 < 2 ^ 31 \<and> nwords bs \<le> length (words bs)"

definition top_clear :: "bit_set \<Rightarrow> bool" where
  "top_clear bs \<longleftrightarrow> elems bs \<subseteq> {..<nbits bs}"

definition bit_set_inv :: "bit_set \<Rightarrow> bool" where
  "bit_set_inv bs \<longleftrightarrow> bits_alloc bs \<and> top_clear bs"

section \<open>Words of a set\<close>

definition with_words :: "bit_set \<Rightarrow> u64 list \<Rightarrow> bit_set" where
  "with_words bs ws =
     (case bits bs of None \<Rightarrow> bs\<lparr>inline_bits := hd ws\<rparr> | Some _ \<Rightarrow> bs\<lparr>bits := Some ws\<rparr>)"

lemma word_at_eq: "word_at bs i = (if i < length (words bs) then Some (words bs ! i) else None)"
  by (simp add: word_at_def words_def split: option.split)

lemma put_word_eq:
  "put_word bs i w =
     (if i < length (words bs) then Some (with_words bs ((words bs)[i := w])) else None)"
  by (simp add: put_word_def words_def with_words_def split: option.split)

lemma words_with_words [simp]:
  "length ws = length (words bs) \<Longrightarrow> words (with_words bs ws) = ws"
  by (cases ws) (auto simp: words_def with_words_def split: option.splits)

lemma size_with_words [simp]: "size_in_bits (with_words bs ws) = size_in_bits bs"
  by (simp add: with_words_def split: option.split)

lemma size_in_u64s_with_words [simp]: "size_in_u64s (with_words bs ws) = size_in_u64s bs"
  by (simp add: size_in_u64s_def)

lemma with_words_twice [simp]: "with_words (with_words bs ws) ws' = with_words bs ws'"
  by (simp add: with_words_def split: option.split)

lemma nwords_eq: "bits_alloc bs \<Longrightarrow> nwords bs = (nbits bs + 63) div 64"
proof -
  assume "bits_alloc bs"
  then have "unat (size_in_bits bs + 63) = nbits bs + 63"
    by (subst unat_add_no_wrap) (simp_all add: bits_alloc_def)
  then show ?thesis by (simp add: size_in_u64s_def unat_div)
qed

lemma index_word_lt:
  assumes "bits_alloc bs" "i < nbits bs"
  shows "i div 64 < nwords bs" "i div 64 < length (words bs)"
proof -
  show "i div 64 < nwords bs" using assms by (simp add: nwords_eq)
  then show "i div 64 < length (words bs)" using assms(1) by (simp add: bits_alloc_def)
qed

lemma mem_elems: "i \<in> elems bs \<longleftrightarrow> i div 64 < nwords bs \<and> bit (words bs ! (i div 64)) (i mod 64)"
  by (simp add: elems_def)

section \<open>Single bits\<close>

lemma bit_set_get_bit_elems:
  assumes "bits_alloc bs" "unat i < nbits bs"
  shows "bit_set_get_bit bs i = Some (unat i \<in> elems bs)"
  using index_word_lt [OF assms]
  by (simp add: bit_set_get_bit_def word_at_eq mem_elems unat_div unat_mod word_and_one_iff
      bit_drop_bit_eq)

definition with_bit :: "bit_set \<Rightarrow> nat \<Rightarrow> bool \<Rightarrow> bit_set" where
  "with_bit bs i v = with_words bs ((words bs)[i div 64 :=
     (if v then words bs ! (i div 64) OR push_bit (i mod 64) 1
      else words bs ! (i div 64) AND NOT (push_bit (i mod 64) 1))])"

lemma bit_set_set_bit_eq:
  assumes "bits_alloc bs" "unat i < nbits bs"
  shows "bit_set_set_bit bs i v = Some (with_bit bs (unat i) v)"
  using index_word_lt [OF assms]
  by (simp add: bit_set_set_bit_def word_at_eq put_word_eq unat_div unat_mod with_bit_def Let_def)

lemma div_mod_64_eq: "(j div 64 = i div 64 \<and> j mod 64 = i mod 64) \<longleftrightarrow> j = (i::nat)"
  by (metis div_mult_mod_eq)

lemma elems_with_bit:
  assumes "bits_alloc bs" "i < nbits bs"
  shows "elems (with_bit bs i v) = (if v then insert i (elems bs) else elems bs - {i})"
proof (rule set_eqI)
  fix j
  note lt = index_word_lt [OF assms]
  have b: "bit (2 ^ (i mod 64) :: u64) n \<longleftrightarrow> n = i mod 64" for n
    by (auto simp: bit_exp_iff possible_bit_def)
  show "j \<in> elems (with_bit bs i v) \<longleftrightarrow>
      j \<in> (if v then insert i (elems bs) else elems bs - {i})"
  proof (cases "j div 64 = i div 64")
    case True
    then have "j = i \<longleftrightarrow> j mod 64 = i mod 64" using div_mod_64_eq by blast
    with True lt show ?thesis
      by (auto simp: mem_elems with_bit_def bit_or_iff bit_and_iff bit_not_iff b)
  next
    case False
    then show ?thesis by (auto simp: mem_elems with_bit_def)
  qed
qed

lemma bits_alloc_with_words:
  "length ws = length (words bs) \<Longrightarrow> bits_alloc (with_words bs ws) = bits_alloc bs"
  by (simp add: bits_alloc_def)

lemma with_bit_frame [simp]:
  "bits_alloc (with_bit bs i v) = bits_alloc bs"
  "size_in_bits (with_bit bs i v) = size_in_bits bs"
  by (simp_all add: with_bit_def bits_alloc_with_words)

section \<open>Whole sets\<close>

definition fill_word :: "bit_set \<Rightarrow> nat \<Rightarrow> u64" where
  "fill_word bs i =
     (if of_nat i = size_in_u64s bs - 1 \<and> size_in_bits bs mod 64 \<noteq> 0
      then push_bit (unat (size_in_bits bs mod 64)) 1 - 1 else 0xFFFFFFFFFFFFFFFF)"

lemma fill_word_with_words [simp]: "fill_word (with_words bs ws) i = fill_word bs i"
  by (simp add: fill_word_def)

lemma bit_set_set_all_from_eq:
  "\<forall>i\<in>set is. i < length (words bs) \<Longrightarrow>
   \<exists>ws. bit_set_set_all_from bs is = Some (with_words bs ws) \<and> length ws = length (words bs) \<and>
     (\<forall>j<length ws. ws ! j = (if j \<in> set is then fill_word bs j else words bs ! j))"
proof (induction "is" arbitrary: bs)
  case Nil
  have "with_words bs (words bs) = bs"
    by (cases bs) (auto simp: with_words_def words_def split: option.split)
  then show ?case by (metis bit_set_set_all_from.simps(1) empty_iff list.set(1))
next
  case (Cons i "is")
  let ?bs = "with_words bs ((words bs)[i := fill_word bs i])"
  have "bit_set_set_all_from bs (i # is) = bit_set_set_all_from ?bs is"
    using Cons.prems by (simp add: put_word_eq fill_word_def Let_def)
  moreover have "\<forall>i\<in>set is. i < length (words ?bs)" using Cons.prems by simp
  from Cons.IH [OF this] obtain ws where ws:
    "bit_set_set_all_from ?bs is = Some (with_words ?bs ws)" "length ws = length (words ?bs)"
    "\<forall>j<length ws. ws ! j = (if j \<in> set is then fill_word ?bs j else words ?bs ! j)"
    by blast
  ultimately show ?case by (intro exI [of _ ws]) (auto simp: nth_list_update)
qed

lemma div_64_up: "(n + 63) div 64 = n div 64 + (if n mod 64 = 0 then 0 else (1::nat))"
proof -
  define q r where "q = n div 64" and "r = n mod 64"
  have n: "n = 64 * q + r" and r: "r < 64" by (simp_all add: q_def r_def)
  have "(n + 63) div 64 = q + (r + 63) div 64" unfolding n by simp
  moreover have "(r + 63) div 64 = (if r = 0 then 0 else 1)"
    using r by (auto intro!: div_nat_eqI)
  ultimately show ?thesis by (simp add: q_def r_def)
qed

lemma bit_fill_word:
  assumes "bits_alloc bs" "i < nwords bs" "b < 64"
  shows "bit (fill_word bs i) b \<longleftrightarrow> 64 * i + b < nbits bs"
proof -
  have nw: "nwords bs = (nbits bs + 63) div 64" using assms(1) by (rule nwords_eq)
  have small: "nbits bs + 63 < 2 ^ 31" using assms(1) by (simp add: bits_alloc_def)
  have "size_in_u64s bs \<noteq> 0" using assms(2) by auto
  then have "unat (size_in_u64s bs - 1) = nwords bs - 1" by (rule unat_minus_one)
  moreover have "unat (of_nat i :: u32) = i"
    using assms(2) unat_less_exp [of "size_in_u64s bs"] by (simp add: unat_of_nat)
  ultimately have last: "of_nat i = size_in_u64s bs - 1 \<longleftrightarrow> i = nwords bs - 1"
    by (metis word_unat_eq_iff)
  have top: "unat (size_in_bits bs mod 64) = nbits bs mod 64" by (simp add: unat_mod)
  have topz: "size_in_bits bs mod 64 \<noteq> 0 \<longleftrightarrow> nbits bs mod 64 \<noteq> 0"
    by (metis top unat_eq_zero)
  have full: "bit (0xFFFFFFFFFFFFFFFF :: u64) b"
  proof -
    have "(0xFFFFFFFFFFFFFFFF :: u64) = mask 64" by (simp add: mask_eq_exp_minus_1)
    then show ?thesis using assms(3) by (simp only: bit_mask_iff) simp
  qed
  have part: "push_bit n 1 - 1 = (mask n :: u64)" for n
    by (simp add: mask_eq_exp_minus_1 push_bit_eq_mult)
  show ?thesis
  proof (cases "i = nwords bs - 1 \<and> nbits bs mod 64 \<noteq> 0")
    case True
    then have "i = nbits bs div 64" unfolding nw div_64_up by simp
    moreover have "nbits bs = 64 * (nbits bs div 64) + nbits bs mod 64" by simp
    ultimately have eq: "64 * i + b < nbits bs \<longleftrightarrow> b < nbits bs mod 64" by linarith
    have "of_nat i = size_in_u64s bs - 1 \<and> size_in_bits bs mod 64 \<noteq> 0"
      using True iffD2 [OF last] iffD2 [OF topz] by (intro conjI) simp_all
    then have "fill_word bs i = mask (nbits bs mod 64)"
      unfolding fill_word_def top part by (rule if_P)
    then show ?thesis unfolding eq using assms(3) by (auto simp: bit_mask_iff)
  next
    case False
    have "i < nbits bs div 64"
    proof (cases "nbits bs mod 64 = 0")
      case True
      then have "(nbits bs + 63) div 64 = nbits bs div 64" by (simp only: div_64_up if_True) simp
      then show ?thesis using assms(2) nw by linarith
    next
      case mod: False
      then have "(nbits bs + 63) div 64 = nbits bs div 64 + 1" by (simp only: div_64_up if_False)
      moreover have "i \<noteq> nwords bs - 1" using False mod by blast
      ultimately show ?thesis using assms(2) nw by linarith
    qed
    moreover have "64 * (nbits bs div 64) \<le> nbits bs" by simp
    ultimately have "64 * i + 63 < nbits bs" by linarith
    then have "64 * i + b < nbits bs" using assms(3) by linarith
    moreover have "fill_word bs i = 0xFFFFFFFFFFFFFFFF"
      using False last topz unfolding fill_word_def by (intro if_not_P) blast
    ultimately show ?thesis using full by simp
  qed
qed

lemma elems_filled:
  assumes "bits_alloc bs" "length ws = length (words bs)"
    and "\<forall>j<nwords bs. ws ! j = fill_word bs j"
  shows "elems (with_words bs ws) = {..<nbits bs}"
proof (rule set_eqI)
  fix i :: nat
  have "64 * (i div 64) + i mod 64 = i" by simp
  then have "bit (fill_word bs (i div 64)) (i mod 64) \<longleftrightarrow> i < nbits bs"
    if "i div 64 < nwords bs"
    using bit_fill_word [OF assms(1) that, of "i mod 64"] by simp
  with assms index_word_lt(1) [OF assms(1), of i]
  show "i \<in> elems (with_words bs ws) \<longleftrightarrow> i \<in> {..<nbits bs}"
    by (auto simp: mem_elems)
qed

lemma bit_set_set_all_elems:
  assumes "bits_alloc bs"
  shows "\<exists>bs'. bit_set_set_all bs = Some bs' \<and> elems bs' = {..<nbits bs} \<and>
    bits_alloc bs' \<and> size_in_bits bs' = size_in_bits bs"
proof -
  have "\<forall>i\<in>set [0..<nwords bs]. i < length (words bs)"
    using assms by (auto simp: bits_alloc_def)
  from bit_set_set_all_from_eq [OF this] obtain ws where ws:
    "bit_set_set_all bs = Some (with_words bs ws)" "length ws = length (words bs)"
    "\<forall>j<length ws. ws ! j = (if j \<in> set [0..<nwords bs] then fill_word bs j else words bs ! j)"
    by (auto simp: bit_set_set_all_def)
  have "nwords bs \<le> length ws" using assms ws(2) by (simp add: bits_alloc_def)
  then have "elems (with_words bs ws) = {..<nbits bs}"
    using assms ws by (intro elems_filled) auto
  with assms ws show ?thesis by (auto simp: bits_alloc_with_words)
qed

lemma bit_set_clear_all_from_eq:
  "\<forall>i\<in>set is. i < length (words bs) \<Longrightarrow>
   \<exists>ws. bit_set_clear_all_from bs is = Some (with_words bs ws) \<and> length ws = length (words bs) \<and>
     (\<forall>j<length ws. ws ! j = (if j \<in> set is then 0 else words bs ! j))"
proof (induction "is" arbitrary: bs)
  case Nil
  have "with_words bs (words bs) = bs"
    by (cases bs) (auto simp: with_words_def words_def split: option.split)
  then show ?case by (metis bit_set_clear_all_from.simps(1) empty_iff list.set(1))
next
  case (Cons i "is")
  let ?bs = "with_words bs ((words bs)[i := 0])"
  have "bit_set_clear_all_from bs (i # is) = bit_set_clear_all_from ?bs is"
    using Cons.prems by (simp add: put_word_eq)
  moreover have "\<forall>i\<in>set is. i < length (words ?bs)" using Cons.prems by simp
  from Cons.IH [OF this] obtain ws where ws:
    "bit_set_clear_all_from ?bs is = Some (with_words ?bs ws)" "length ws = length (words ?bs)"
    "\<forall>j<length ws. ws ! j = (if j \<in> set is then 0 else words ?bs ! j)"
    by blast
  ultimately show ?case by (intro exI [of _ ws]) (auto simp: nth_list_update)
qed

lemma bit_set_clear_all_elems:
  assumes "bits_alloc bs"
  shows "\<exists>bs'. bit_set_clear_all bs = Some bs' \<and> elems bs' = {} \<and>
    bits_alloc bs' \<and> size_in_bits bs' = size_in_bits bs"
proof -
  have "\<forall>i\<in>set [0..<nwords bs]. i < length (words bs)"
    using assms by (auto simp: bits_alloc_def)
  from bit_set_clear_all_from_eq [OF this] obtain ws where ws:
    "bit_set_clear_all bs = Some (with_words bs ws)" "length ws = length (words bs)"
    "\<forall>j<length ws. ws ! j = (if j \<in> set [0..<nwords bs] then 0 else words bs ! j)"
    by (auto simp: bit_set_clear_all_def)
  have "nwords bs \<le> length ws" using assms ws(2) by (simp add: bits_alloc_def)
  then have "elems (with_words bs ws) = {}" using ws by (auto simp: mem_elems)
  with assms ws show ?thesis by (auto simp: bits_alloc_with_words)
qed

section \<open>Scans\<close>

lemma elems_word: "j < nwords bs \<Longrightarrow> b < 64 \<Longrightarrow> 64 * j + b \<in> elems bs \<longleftrightarrow> bit (words bs ! j) b"
  by (simp add: mem_elems)

lemma scan_word:
  fixes w :: u64
  assumes "w \<noteq> 0"
  obtains lo hi where "lowest_set_bit w = Some (Inr (of_nat lo))"
    "highest_set_bit w = Inr (of_nat hi)" "lo < 64" "hi < 64" "bit w lo" "bit w hi"
    "\<And>j. bit w j \<Longrightarrow> lo \<le> j \<and> j \<le> hi"
proof -
  obtain lo where lo: "lo < LENGTH(64)" "bit w lo" "\<forall>j<lo. \<not> bit w j"
    using assms by (rule lowest_bit_exists)
  have "0 < unat w" "unat w < 2 ^ 64" using assms unat_less_exp [of w] by (simp_all add: unat_gt_0)
  then obtain hi where hi: "hi < 64" "2 ^ hi \<le> unat w" "unat w < 2 ^ Suc hi"
    by (rule exp_bracket)
  note bits = bits_of_bracket [OF hi(2,3)]
  show thesis
  proof (rule that)
    show "lowest_set_bit w = Some (Inr (of_nat lo))"
      using assms lo by (simp add: lowest_set_bit_def lowest_set_bit_loop_bit)
    show "highest_set_bit w = Inr (of_nat hi)"
      using hi(2,3) by (rule highest_set_bit_bracket)
    show "lo \<le> j \<and> j \<le> hi" if "bit w j" for j using that lo(3) bits(2) not_less by blast
  qed (use lo bits hi in simp_all)
qed

text \<open>An element in a word of its own: which words are zero below, or above, it.\<close>

lemma zero_word_elems:
  assumes "nwords bs \<le> length (words bs)" "j < nwords bs"
  shows "words bs ! j = 0 \<longleftrightarrow> (\<forall>i\<in>elems bs. i div 64 \<noteq> j)"
proof
  assume "words bs ! j = 0"
  then show "\<forall>i\<in>elems bs. i div 64 \<noteq> j" by (auto simp: mem_elems)
next
  assume none: "\<forall>i\<in>elems bs. i div 64 \<noteq> j"
  have "\<not> bit (words bs ! j) b" for b
  proof
    assume b: "bit (words bs ! j) b"
    then have "b < 64" by (auto dest: bit_imp_le_length)
    with b assms none show False by (metis elems_word div_mult_self4 div_less add.right_neutral zero_neq_numeral)
  qed
  then show "words bs ! j = 0" by (simp add: word_zero_bits)
qed

lemma bit_set_lowest_from_least:
  assumes "nwords bs \<le> length (words bs)" "elems bs \<noteq> {}"
    and "n \<le> Min (elems bs) div 64" "finite (elems bs)"
  shows "bit_set_lowest_from bs [n..<nwords bs] = Some (Inr (of_nat (Min (elems bs))))"
  using assms(3)
proof (induction "nwords bs - n" arbitrary: n)
  case 0
  have "Min (elems bs) \<in> elems bs" using assms by simp
  then have "Min (elems bs) div 64 < nwords bs" by (simp add: mem_elems)
  with 0 show ?case by simp
next
  case (Suc m)
  let ?w = "words bs ! n"
  have nlt: "n < nwords bs" using Suc.hyps(2) by simp
  have min: "Min (elems bs) \<in> elems bs" using assms by simp
  have step: "[n..<nwords bs] = n # [Suc n..<nwords bs]" using nlt by (rule upt_conv_Cons)
  show ?case
  proof (cases "?w = 0")
    case True
    then have "Min (elems bs) div 64 \<noteq> n"
      using zero_word_elems [OF assms(1) nlt] min by blast
    then have "Suc n \<le> Min (elems bs) div 64" using Suc.prems by simp
    then have "bit_set_lowest_from bs [Suc n..<nwords bs] = Some (Inr (of_nat (Min (elems bs))))"
      using Suc.hyps by (intro Suc.hyps(1)) simp_all
    with True nlt assms(1) show ?thesis by (simp add: step word_at_eq)
  next
    case False
    from scan_word [OF this] obtain lo where lo: "lowest_set_bit ?w = Some (Inr (of_nat lo))"
      "lo < 64" "bit ?w lo" "\<And>j. bit ?w j \<Longrightarrow> lo \<le> j" by metis
    have "Min (elems bs) = 64 * n + lo"
    proof (rule Min_eqI)
      show "64 * n + lo \<in> elems bs" using lo nlt by (simp add: elems_word)
      fix y assume y: "y \<in> elems bs"
      then have "n \<le> y div 64" using Suc.prems assms(4)
        by (meson Min_le div_le_mono le_trans)
      moreover have "lo \<le> y mod 64" if "y div 64 = n" using y that lo(4) by (simp add: mem_elems)
      moreover have "y = 64 * (y div 64) + y mod 64" by simp
      ultimately show "64 * n + lo \<le> y" using lo(2) by linarith
    qed (rule assms(4))
    with False lo(1) nlt assms(1) show ?thesis by (simp add: step word_at_eq)
  qed
qed

lemma bit_set_highest_from_greatest:
  assumes "nwords bs \<le> length (words bs)" "elems bs \<noteq> {}" "finite (elems bs)"
    and "Max (elems bs) div 64 < n" "n \<le> nwords bs"
  shows "bit_set_highest_from bs (rev [0..<n]) = Some (Inr (of_nat (Max (elems bs))))"
  using assms(4,5)
proof (induction n)
  case 0
  then show ?case by simp
next
  case (Suc n)
  let ?w = "words bs ! n"
  have nlt: "n < nwords bs" using Suc.prems by simp
  have max: "Max (elems bs) \<in> elems bs" using assms by simp
  show ?case
  proof (cases "?w = 0")
    case True
    then have "Max (elems bs) div 64 \<noteq> n"
      using zero_word_elems [OF assms(1) nlt] max by blast
    then have "Max (elems bs) div 64 < n" using Suc.prems by simp
    with Suc True nlt assms(1) show ?thesis by (simp add: word_at_eq)
  next
    case False
    from scan_word [OF this] obtain hi where hi: "highest_set_bit ?w = Inr (of_nat hi)"
      "hi < 64" "bit ?w hi" "\<And>j. bit ?w j \<Longrightarrow> j \<le> hi" by metis
    have "Max (elems bs) = 64 * n + hi"
    proof (rule Max_eqI)
      show "64 * n + hi \<in> elems bs" using hi nlt by (simp add: elems_word)
      fix y assume y: "y \<in> elems bs"
      then have "y div 64 \<le> n" using Suc.prems assms(3)
        by (meson Max_ge div_le_mono le_trans less_Suc_eq_le)
      moreover have "y mod 64 \<le> hi" if "y div 64 = n" using y that hi(4) by (simp add: mem_elems)
      moreover have "y = 64 * (y div 64) + y mod 64" "y mod 64 < 64" by simp_all
      ultimately show "y \<le> 64 * n + hi" by linarith
    qed (rule assms(3))
    with False hi(1) nlt assms(1) show ?thesis by (simp add: word_at_eq)
  qed
qed

lemma scans_of_zero_words:
  assumes "\<forall>i\<in>set is. i < length (words bs) \<and> words bs ! i = 0"
  shows "bit_set_lowest_from bs is = Some (Inr (-1))" "bit_set_highest_from bs is = Some (Inr (-1))"
  using assms by (induction "is") (simp_all add: word_at_eq)

lemma bit_set_is_empty_from_eq:
  assumes "\<forall>i\<in>set is. i < length (words bs)"
  shows "bit_set_is_empty_from bs is = Some (\<forall>i\<in>set is. words bs ! i = 0)"
  using assms by (induction "is") (simp_all add: word_at_eq)

lemma elems_empty_iff:
  assumes "bits_alloc bs"
  shows "elems bs = {} \<longleftrightarrow> (\<forall>i<nwords bs. words bs ! i = 0)"
  using assms zero_word_elems [of bs] by (auto simp: bits_alloc_def mem_elems)

lemma bits_alloc_init:
  assumes "(unat sz + 63) div 64 \<le> length garbage" "unat sz + 63 < 2 ^ 31"
  shows "bits_alloc (bit_set_init garbage bs sz)" "nbits (bit_set_init garbage bs sz) = unat sz"
proof -
  have "unat (sz + 63) = unat sz + 63" using assms(2) by (subst unat_add_no_wrap) simp_all
  then have w: "unat ((sz + 63) div 64) = (unat sz + 63) div 64" by (simp add: unat_div)
  show "nbits (bit_set_init garbage bs sz) = unat sz" by (simp add: bit_set_init_def Let_def)
  show "bits_alloc (bit_set_init garbage bs sz)"
    using assms w by (auto simp: bits_alloc_def bit_set_init_def Let_def words_def size_in_u64s_def word_le_nat_alt)
qed

section \<open>The bit set provides the interface\<close>

interpretation bs: bounded_set bit_set_get_bit bit_set_set_bit bit_set_clear_all nbits elems
  bit_set_inv
proof
  fix s and i :: u32
  assume s: "bit_set_inv s" and i: "unat i < nbits s"
  then show "bit_set_get_bit s i = Some (unat i \<in> elems s)"
    by (simp add: bit_set_inv_def bit_set_get_bit_elems)
  fix v
  let ?s = "with_bit s (unat i) v"
  have eq: "elems ?s = (if v then insert (unat i) (elems s) else elems s - {unat i})"
    using s i by (simp add: bit_set_inv_def elems_with_bit)
  then have "bit_set_inv ?s" using s i by (auto simp: bit_set_inv_def top_clear_def split: if_splits)
  then show "\<exists>s'. bit_set_set_bit s i v = Some s' \<and> bit_set_inv s' \<and> nbits s' = nbits s \<and>
      elems s' = (if v then insert (unat i) (elems s) else elems s - {unat i})"
    using s i eq by (intro exI [of _ ?s]) (simp add: bit_set_inv_def bit_set_set_bit_eq)
next
  fix s assume "bit_set_inv s"
  then show "\<exists>s'. bit_set_clear_all s = Some s' \<and> bit_set_inv s' \<and> nbits s' = nbits s \<and> elems s' = {}"
    using bit_set_clear_all_elems [of s] by (auto simp: bit_set_inv_def top_clear_def)
qed

lemma bit_set_scans_elems:
  assumes "bit_set_inv bs"
  shows "bit_set_lowest_set_bit bs =
      Some (Inr (if elems bs = {} then -1 else of_nat (Min (elems bs)))) \<and>
    bit_set_highest_set_bit bs =
      Some (Inr (if elems bs = {} then -1 else of_nat (Max (elems bs)))) \<and>
    bit_set_is_empty bs = Some (elems bs = {})"
proof -
  have alloc: "bits_alloc bs" and len: "nwords bs \<le> length (words bs)"
    and fin: "finite (elems bs)"
    using assms finite_subset by (auto simp: bit_set_inv_def bits_alloc_def top_clear_def)
  have empty: "bit_set_is_empty bs = Some (elems bs = {})"
    using len unfolding bit_set_is_empty_def elems_empty_iff [OF alloc]
    by (subst bit_set_is_empty_from_eq) auto
  show ?thesis
  proof (cases "elems bs = {}")
    case True
    then have "\<forall>i\<in>set [0..<nwords bs]. i < length (words bs) \<and> words bs ! i = 0"
      using len elems_empty_iff [OF alloc] by auto
    with True empty show ?thesis
      by (simp add: bit_set_lowest_set_bit_def bit_set_highest_set_bit_def scans_of_zero_words)
  next
    case False
    then have "Max (elems bs) \<in> elems bs" using fin by simp
    then have "Max (elems bs) div 64 < nwords bs" by (simp add: mem_elems)
    with False empty fin len show ?thesis
      by (simp add: bit_set_lowest_set_bit_def bit_set_highest_set_bit_def
          bit_set_lowest_from_least bit_set_highest_from_greatest)
  qed
qed

section \<open>Properties\<close>

text \<open>
  C27. Reading and writing one bit below the size of the set never leaves the array, keeps
  the invariant, and the set reads back the written value at that index and the old
  values elsewhere.
\<close>

theorem bit_set_get_after_set:
  assumes "bit_set_inv s" and "unat i < unat (size_in_bits s)" and "unat j < unat (size_in_bits s)"
  shows "\<exists>s'. bit_set_set_bit s i v = Some s' \<and> bit_set_inv s' \<and> bit_set_get_bit s' i = Some v \<and>
    (i \<noteq> j \<longrightarrow> bit_set_get_bit s' j = bit_set_get_bit s j)"
  using assms by (rule bs.get_after_upd)

text \<open>A cleared set of 100 bits in a fresh two-word array.\<close>

definition hundred_bits :: bit_set where
  "hundred_bits =
     bit_set_init [0, 0] \<lparr>bits = None, inline_bits = 0, size_in_bits = 0\<rparr> 100"

lemma hundred_bits_inv: "bit_set_inv hundred_bits"
proof -
  have w: "words hundred_bits = [0, 0]" "size_in_bits hundred_bits = 100"
    "size_in_u64s hundred_bits = 2"
    by (simp_all add: hundred_bits_def bit_set_init_def words_def size_in_u64s_def Let_def)
  have "elems hundred_bits = {}"
    using w by (auto simp: mem_elems less_2_cases_iff)
  with w show ?thesis by (simp add: bit_set_inv_def bits_alloc_def top_clear_def)
qed

theorem bit_set_get_after_set_witness:
  "\<exists>s'. bit_set_set_bit hundred_bits 70 True = Some s' \<and> bit_set_inv s' \<and>
     bit_set_get_bit s' 70 = Some True \<and>
     (70 \<noteq> (6 :: u32) \<longrightarrow> bit_set_get_bit s' 6 = bit_set_get_bit hundred_bits 6)"
  using hundred_bits_inv
  by (rule bit_set_get_after_set) (simp_all add: hundred_bits_def bit_set_init_def Let_def)

text \<open>
  C28. \<^verbatim>\<open>bit_set_set_all\<close> makes every index below the size an element and none above it
  (the comment in the code: the top bits must stay clear for the scans to be right), and
  \<^verbatim>\<open>bit_set_clear_all\<close> leaves the empty set, whatever the array held before.
\<close>

theorem bit_set_all_and_clear:
  assumes "bits_alloc bs"
  shows "\<exists>full none. bit_set_set_all bs = Some full \<and> bit_set_inv full \<and>
      elems full = {..<unat (size_in_bits bs)} \<and>
      bit_set_clear_all bs = Some none \<and> bit_set_inv none \<and> elems none = {}"
  using bit_set_set_all_elems [OF assms] bit_set_clear_all_elems [OF assms]
  by (auto simp: bit_set_inv_def top_clear_def)

theorem bit_set_all_and_clear_witness:
  "\<exists>full none. bit_set_set_all hundred_bits = Some full \<and> bit_set_inv full \<and>
      elems full = {..<unat (size_in_bits hundred_bits)} \<and>
      bit_set_clear_all hundred_bits = Some none \<and> bit_set_inv none \<and> elems none = {}"
  using bit_set_all_and_clear hundred_bits_inv by (simp add: bit_set_inv_def)

text \<open>
  C26. The scans and the emptiness test compute the minimum, the maximum and the emptiness
  of the set, with \<open>-1\<close> for the empty set.
\<close>

theorem bit_set_scans:
  assumes "bit_set_inv bs"
  shows "bit_set_lowest_set_bit bs =
      Some (Inr (if elems bs = {} then -1 else of_nat (Min (elems bs)))) \<and>
    bit_set_highest_set_bit bs =
      Some (Inr (if elems bs = {} then -1 else of_nat (Max (elems bs)))) \<and>
    bit_set_is_empty bs = Some (elems bs = {})"
  by (rule bit_set_scans_elems [OF assms])

theorem bit_set_scans_witness:
  "bit_set_lowest_set_bit hundred_bits =
      Some (Inr (if elems hundred_bits = {} then -1 else of_nat (Min (elems hundred_bits)))) \<and>
    bit_set_highest_set_bit hundred_bits =
      Some (Inr (if elems hundred_bits = {} then -1 else of_nat (Max (elems hundred_bits)))) \<and>
    bit_set_is_empty hundred_bits = Some (elems hundred_bits = {})"
  using hundred_bits_inv by (rule bit_set_scans)

end
