(* ===== verification/Libc_Mem.thy ===== *)
theory Libc_Mem
  imports Naive_Prelude
begin

text \<open>
  The memory and string functions of the C library under \<^verbatim>\<open>src/libc\<close>, over an explicit
  byte-addressed memory: \<^verbatim>\<open>memcpy\<close>, \<^verbatim>\<open>memmove\<close>, \<^verbatim>\<open>memset\<close>, \<^verbatim>\<open>strlen\<close>, \<^verbatim>\<open>strcmp\<close>,
  \<^verbatim>\<open>strncmp\<close>, \<^verbatim>\<open>strncpy\<close>. Addresses and sizes are 64-bit words, so pointer arithmetic
  wraps as the machine's does. The loops that only a terminating zero byte stops are
  partial (\<open>None\<close> is a loop that never ends). \<^verbatim>\<open>char\<close> is signed, as on the target, so
  the comparisons read bytes with \<open>sint\<close>.
\<close>

type_synonym mem = "u64 \<Rightarrow> u8"

section \<open>Definitions\<close>

function memcpy_loop :: "mem \<Rightarrow> u64 \<Rightarrow> u64 \<Rightarrow> u64 \<Rightarrow> u64 \<Rightarrow> mem" where
  "memcpy_loop m dest src i n =
     (if i < n then memcpy_loop (m(dest + i := m (src + i))) dest src (i + 1) n else m)"
  by pat_completeness auto
termination
  by (relation "measure (\<lambda>(m, dest, src, i, n). unat n - unat i)")
     (simp_all add: count_up_measure)

definition memcpy :: "mem \<Rightarrow> u64 \<Rightarrow> u64 \<Rightarrow> u64 \<Rightarrow> mem" where
  "memcpy m dest src n = memcpy_loop m dest src 0 n"

text \<open>
  \<^verbatim>\<open>memmove\<close>: the loop from the end counts a signed index down from \<^verbatim>\<open>n - 1\<close>; it runs
  over the indices below \<open>k\<close>.
\<close>

primrec memmove_down :: "mem \<Rightarrow> u64 \<Rightarrow> u64 \<Rightarrow> nat \<Rightarrow> mem" where
  "memmove_down m dest src 0 = m"
| "memmove_down m dest src (Suc k) =
     memmove_down (m(dest + of_nat k := m (src + of_nat k))) dest src k"

definition ssize_count :: "u64 \<Rightarrow> nat" where
  "ssize_count n = (if sint (n - 1) \<ge> 0 then nat (sint (n - 1)) + 1 else 0)"

definition memmove :: "mem \<Rightarrow> u64 \<Rightarrow> u64 \<Rightarrow> u64 \<Rightarrow> mem" where
  "memmove m dest src n =
     (let dest_end = dest + n; src_end = src + n in
      if dest_end > src \<and> dest_end < src_end then memcpy_loop m dest src 0 n
      else if src_end > dest \<and> src_end < dest_end then memmove_down m dest src (ssize_count n)
      else if dest \<noteq> src then memcpy m dest src n
      else m)"

function memset_loop :: "mem \<Rightarrow> u64 \<Rightarrow> u8 \<Rightarrow> u64 \<Rightarrow> u64 \<Rightarrow> mem" where
  "memset_loop m s c i n = (if i < n then memset_loop (m(s + i := c)) s c (i + 1) n else m)"
  by pat_completeness auto
termination
  by (relation "measure (\<lambda>(m, s, c, i, n). unat n - unat i)") (simp_all add: count_up_measure)

definition memset :: "mem \<Rightarrow> u64 \<Rightarrow> u32 \<Rightarrow> u64 \<Rightarrow> mem" where
  "memset m s c n = memset_loop m s (ucast c) 0 n"

partial_function (option) strlen_loop :: "mem \<Rightarrow> u64 \<Rightarrow> u64 \<Rightarrow> u64 option" where
  "strlen_loop m s i = (if m (s + i) \<noteq> 0 then strlen_loop m s (i + 1) else Some i)"

definition strlen :: "mem \<Rightarrow> u64 \<Rightarrow> u64 option" where
  "strlen m s = strlen_loop m s 0"

partial_function (option) strcmp_loop :: "mem \<Rightarrow> u64 \<Rightarrow> u64 \<Rightarrow> u64 \<Rightarrow> int option" where
  "strcmp_loop m s1 s2 i =
     (if sint (m (s1 + i)) < sint (m (s2 + i)) then Some (-1)
      else if sint (m (s1 + i)) > sint (m (s2 + i)) then Some 1
      else if m (s1 + i) = 0 then Some 0
      else strcmp_loop m s1 s2 (i + 1))"

definition strcmp :: "mem \<Rightarrow> u64 \<Rightarrow> u64 \<Rightarrow> int option" where
  "strcmp m s1 s2 = strcmp_loop m s1 s2 0"

function strncmp_loop :: "mem \<Rightarrow> u64 \<Rightarrow> u64 \<Rightarrow> u64 \<Rightarrow> u64 \<Rightarrow> int" where
  "strncmp_loop m s1 s2 i n =
     (if i < n then
        (if sint (m (s1 + i)) < sint (m (s2 + i)) then -1
         else if sint (m (s1 + i)) > sint (m (s2 + i)) then 1
         else if m (s1 + i) = 0 then 0
         else strncmp_loop m s1 s2 (i + 1) n)
      else 0)"
  by pat_completeness auto
termination
  by (relation "measure (\<lambda>(m, s1, s2, i, n). unat n - unat i)") (simp_all add: count_up_measure)

definition strncmp :: "mem \<Rightarrow> u64 \<Rightarrow> u64 \<Rightarrow> u64 \<Rightarrow> int" where
  "strncmp m s1 s2 n = strncmp_loop m s1 s2 0 n"

function strncpy_copy :: "mem \<Rightarrow> u64 \<Rightarrow> u64 \<Rightarrow> u64 \<Rightarrow> u64 \<Rightarrow> mem \<times> u64" where
  "strncpy_copy m dest src i cnt =
     (if i < cnt \<and> m (src + i) \<noteq> 0
      then strncpy_copy (m(dest + i := m (src + i))) dest src (i + 1) cnt else (m, i))"
  by pat_completeness auto
termination
  by (relation "measure (\<lambda>(m, dest, src, i, n). unat n - unat i)")
     (simp_all add: count_up_measure)

definition strncpy :: "mem \<Rightarrow> u64 \<Rightarrow> u64 \<Rightarrow> u64 \<Rightarrow> mem" where
  "strncpy m dest src cnt =
     (let (m, i) = strncpy_copy m dest src 0 cnt in memset_loop m dest 0 i cnt)"

declare memcpy_loop.simps [simp del] memset_loop.simps [simp del] strncmp_loop.simps [simp del]
  strncpy_copy.simps [simp del]

section \<open>Copies\<close>

text \<open>What a copy of \<open>n\<close> bytes should leave in memory: the old bytes of the source, moved.\<close>

definition moved :: "mem \<Rightarrow> u64 \<Rightarrow> u64 \<Rightarrow> u64 \<Rightarrow> mem" where
  "moved m dest src n = (\<lambda>x. if x - dest < n then m (src + (x - dest)) else m x)"

lemma memcpy_loop_moved:
  "\<forall>a b. i \<le> a \<and> a < b \<and> b < n \<longrightarrow> dest + a \<noteq> src + b \<Longrightarrow>
   memcpy_loop m dest src i n =
     (\<lambda>x. if i \<le> x - dest \<and> x - dest < n then m (src + (x - dest)) else m x)"
proof (induction m dest src i n rule: memcpy_loop.induct)
  case (1 m dest src i n)
  show ?case
  proof (cases "i < n")
    case True
    let ?m = "m(dest + i := m (src + i))"
    have "memcpy_loop ?m dest src (i + 1) n =
        (\<lambda>x. if i + 1 \<le> x - dest \<and> x - dest < n then ?m (src + (x - dest)) else ?m x)"
      using "1.prems" True by (intro "1.IH") (auto simp: inc_le_iff [OF True])
    then have eq: "memcpy_loop m dest src i n x =
        (if i < x - dest \<and> x - dest < n then ?m (src + (x - dest)) else ?m x)" for x
      using True by (subst memcpy_loop.simps) (simp add: inc_le_iff [OF True])
    have keep: "?m (src + k) = m (src + k)" if "i < k" "k < n" for k
      using "1.prems" that by (metis fun_upd_other order_refl)
    show ?thesis
    proof (rule ext)
      fix x
      have at: "x = dest + i \<longleftrightarrow> x - dest = i" by (auto simp: algebra_simps)
      show "memcpy_loop m dest src i n x =
          (if i \<le> x - dest \<and> x - dest < n then m (src + (x - dest)) else m x)"
      proof (cases "x - dest = i")
        case eqi: True
        then have "x = dest + i" using at by simp
        with eqi True show ?thesis unfolding eq by simp
      next
        case False
        then have le: "i \<le> x - dest \<longleftrightarrow> i < x - dest" by auto
        have other: "?m x = m x" using False at by (intro fun_upd_other) blast
        have "i < x - dest \<Longrightarrow> x - dest < n \<Longrightarrow> ?m (src + (x - dest)) = m (src + (x - dest))"
          by (rule keep)
        then show ?thesis unfolding eq le other by presburger
      qed
    qed
  next
    case False
    then show ?thesis by (subst memcpy_loop.simps) (auto simp: fun_eq_iff)
  qed
qed

lemma memmove_down_moved:
  "k \<le> 2 ^ 64 \<Longrightarrow> \<forall>a b. a < b \<and> b < k \<longrightarrow> dest + of_nat b \<noteq> src + of_nat a \<Longrightarrow>
   memmove_down m dest src k =
     (\<lambda>x. if unat (x - dest) < k then m (src + (x - dest)) else m x)"
proof (induction k arbitrary: m)
  case 0
  then show ?case by simp
next
  case (Suc k)
  let ?m = "m(dest + of_nat k := m (src + of_nat k))"
  have "memmove_down ?m dest src k =
      (\<lambda>x. if unat (x - dest) < k then ?m (src + (x - dest)) else ?m x)"
    using Suc.prems by (intro Suc.IH) auto
  then have eq: "memmove_down m dest src (Suc k) x =
      (if unat (x - dest) < k then ?m (src + (x - dest)) else ?m x)" for x by simp
  have keep: "?m (src + y) = m (src + y)" if "unat y < k" for y
  proof -
    have "dest + of_nat k \<noteq> src + of_nat (unat y)" using Suc.prems(2) that by blast
    then show ?thesis by simp
  qed
  have at: "x = dest + of_nat k \<longleftrightarrow> unat (x - dest) = k" for x
  proof
    assume "x = dest + of_nat k"
    then show "unat (x - dest) = k" using Suc.prems(1) by (simp add: unat_of_nat)
  next
    assume "unat (x - dest) = k"
    then have "of_nat k = x - dest" by auto
    then show "x = dest + of_nat k" by (simp add: algebra_simps)
  qed
  show ?case
  proof (rule ext)
    fix x
    show "memmove_down m dest src (Suc k) x =
        (if unat (x - dest) < Suc k then m (src + (x - dest)) else m x)"
    proof (cases "unat (x - dest) = k")
      case True
      then have "x = dest + of_nat k" using at by blast
      then have "?m x = m (src + of_nat k)" "x - dest = of_nat k" by simp_all
      then show ?thesis unfolding eq using True by simp
    next
      case False
      then have "?m x = m x" using at by (intro fun_upd_other) blast
      moreover have "unat (x - dest) < Suc k \<longleftrightarrow> unat (x - dest) < k" using False by auto
      moreover have "unat (x - dest) < k \<Longrightarrow> ?m (src + (x - dest)) = m (src + (x - dest))"
        by (rule keep)
      ultimately show ?thesis unfolding eq by presburger
    qed
  qed
qed

lemma ssize_count_eq:
  assumes "unat n \<le> 2 ^ 63"
  shows "ssize_count n = unat n"
proof (cases "n = 0")
  case True
  then show ?thesis by (simp add: ssize_count_def)
next
  case False
  then have n1: "unat (n - 1) = unat n - 1" by (rule unat_minus_one)
  moreover have "0 < unat n" using False by (simp add: unat_gt_0)
  ultimately have "unat (n - 1) < 2 ^ 63" using assms by linarith
  then have "int (unat (n - 1)) < int (2 ^ 63)" by (simp only: of_nat_less_iff)
  then have "uint (n - 1) < 2 ^ 63" by (simp only: uint_nat of_nat_power of_nat_numeral)
  then have "sint (n - 1) = uint (n - 1)"
    by (simp add: sint_uint signed_take_bit_eq_if_positive bit_iff_odd take_bit_int_eq_self)
  also have "\<dots> = int (unat n - 1)" using n1 by (metis uint_nat)
  finally have "0 \<le> sint (n - 1)" "nat (sint (n - 1)) = unat n - 1"
    by (simp_all only: nat_int of_nat_0_le_iff)
  moreover have "0 < unat n" using False by (simp add: unat_gt_0)
  ultimately show ?thesis by (simp add: ssize_count_def)
qed

lemma unat_offset:
  fixes p k n :: u64
  assumes "unat p + unat n < 2 ^ 64" "k \<le> n"
  shows "unat (p + k) = unat p + unat k"
proof (rule unat_add_no_wrap)
  have "unat k \<le> unat n" using assms(2) by (simp add: word_le_nat_alt)
  then show "unat p + unat k < 2 ^ LENGTH(64)" using assms(1) by simp
qed

lemma memcpy_forward_moved:
  assumes "unat dest + unat n < 2 ^ 64" "unat src + unat n < 2 ^ 64"
    and "unat dest \<le> unat src \<or> unat src + unat n \<le> unat dest"
  shows "memcpy_loop m dest src 0 n = moved m dest src n"
proof -
  have "dest + a \<noteq> src + b" if "a < b" "b < n" for a b
  proof
    assume "dest + a = src + b"
    then have "unat dest + unat a = unat src + unat b"
      using that unat_offset [OF assms(1), of a] unat_offset [OF assms(2), of b] by simp
    then show False using that assms(3) by (auto simp: word_less_nat_alt)
  qed
  then show ?thesis by (subst memcpy_loop_moved) (auto simp: moved_def fun_eq_iff)
qed

section \<open>Strings\<close>

text \<open>The bytes of the zero-terminated string at an address, if it is \<open>k\<close> bytes long.\<close>

definition zstring :: "mem \<Rightarrow> u64 \<Rightarrow> nat \<Rightarrow> bool" where
  "zstring m s k \<longleftrightarrow> k < 2 ^ 64 \<and> m (s + of_nat k) = 0 \<and> (\<forall>j<k. m (s + of_nat j) \<noteq> 0)"

definition bytes_at :: "mem \<Rightarrow> u64 \<Rightarrow> nat \<Rightarrow> u8 list" where
  "bytes_at m s k = map (\<lambda>j. m (s + of_nat j)) [0..<k]"

lemma strlen_loop_zstring:
  assumes "zstring m s k" "i \<le> k"
  shows "strlen_loop m s (of_nat i) = Some (of_nat k)"
  using assms(2)
proof (induction "k - i" arbitrary: i)
  case 0
  then show ?case using assms(1) by (subst strlen_loop.simps) (simp add: zstring_def)
next
  case (Suc d)
  then have "strlen_loop m s (of_nat (Suc i)) = Some (of_nat k)"
    by (intro Suc.hyps(1)) simp_all
  moreover have "m (s + of_nat i) \<noteq> 0" using assms(1) Suc.hyps(2) by (simp add: zstring_def)
  ultimately show ?case by (subst strlen_loop.simps) (simp add: add.commute)
qed

lemma strncmp_loop_zero:
  "strncmp_loop m s1 s2 i n = 0 \<longleftrightarrow>
     (\<forall>k. i \<le> k \<and> k < n \<and> (\<forall>l. i \<le> l \<and> l < k \<longrightarrow> m (s1 + l) \<noteq> 0) \<longrightarrow> m (s1 + k) = m (s2 + k))"
proof (induction m s1 s2 i n rule: strncmp_loop.induct)
  case (1 m s1 s2 i n)
  show ?case
  proof (cases "i < n")
    case lt: True
    consider "m (s1 + i) \<noteq> m (s2 + i)" | "m (s1 + i) = m (s2 + i)" "m (s1 + i) = 0"
      | "m (s1 + i) = m (s2 + i)" "m (s1 + i) \<noteq> 0" by blast
    then show ?thesis
    proof cases
      case 1
      then have "sint (m (s1 + i)) < sint (m (s2 + i)) \<or> sint (m (s1 + i)) > sint (m (s2 + i))"
        by (metis linorder_neqE signed_word_eqI)
      with 1 lt show ?thesis by (subst strncmp_loop.simps) force
    next
      case 2
      then show ?thesis using lt
        by (subst strncmp_loop.simps) (auto dest!: spec [of _ i] simp: order.order_iff_strict)
    next
      case 3
      have "strncmp_loop m s1 s2 i n = strncmp_loop m s1 s2 (i + 1) n"
        using lt 3 by (subst strncmp_loop.simps) simp
      moreover have "(\<forall>l. i \<le> l \<and> l < k \<longrightarrow> m (s1 + l) \<noteq> 0) \<longleftrightarrow>
          (\<forall>l. i < l \<and> l < k \<longrightarrow> m (s1 + l) \<noteq> 0)" for k
        using 3 by (metis order.order_iff_strict)
      ultimately show ?thesis using 3 lt "1.IH"
        by (simp add: inc_le_iff [OF lt]) (metis order.order_iff_strict)
    qed
  next
    case False
    then show ?thesis by (subst strncmp_loop.simps) auto
  qed
qed

lemma strcmp_loop_strncmp:
  assumes "zstring m s1 k" "i \<le> k" "k < unat n"
  shows "strcmp_loop m s1 s2 (of_nat i) = Some (strncmp_loop m s1 s2 (of_nat i) n)"
  using assms(2)
proof (induction "k - i" arbitrary: i)
  case (0 i)
  then have "i = k" by simp
  then have z: "m (s1 + of_nat i) = 0" using assms(1) by (simp add: zstring_def)
  have "unat (of_nat i :: u64) = i" using assms 0 by (simp add: zstring_def unat_of_nat)
  then have "of_nat i < n" using assms(3) \<open>i = k\<close> by (simp add: word_less_nat_alt)
  with z show ?case by (subst strcmp_loop.simps, subst strncmp_loop.simps) simp
next
  case (Suc d i)
  have lt: "i < k" "k < 2 ^ 64" using Suc.hyps(2) assms(1) by (simp_all add: zstring_def)
  then have "unat (of_nat i :: u64) = i" by (simp add: unat_of_nat)
  then have "of_nat i < n" using assms(3) lt by (simp add: word_less_nat_alt)
  moreover have "strcmp_loop m s1 s2 (of_nat (Suc i)) = Some (strncmp_loop m s1 s2 (of_nat (Suc i)) n)"
    using Suc.hyps(2) lt by (intro Suc.hyps(1)) simp_all
  ultimately show ?case
    by (subst strcmp_loop.simps, subst strncmp_loop.simps) (simp add: add.commute)
qed

lemma memset_loop_eq:
  "memset_loop m s c i n = (\<lambda>x. if i \<le> x - s \<and> x - s < n then c else m x)"
proof (induction m s c i n rule: memset_loop.induct)
  case (1 m s c i n)
  show ?case
  proof (cases "i < n")
    case True
    then have eq: "memset_loop m s c i n x = (if i < x - s \<and> x - s < n then c else (m(s + i := c)) x)" for x
      by (subst memset_loop.simps) (simp only: if_P "1.IH" inc_le_iff)
    show ?thesis
    proof (rule ext)
      fix x
      have "x = s + i \<longleftrightarrow> x - s = i" by (auto simp: algebra_simps)
      then have "(m(s + i := c)) x = (if x - s = i then c else m x)" by (simp only: fun_upd_apply)
      then show "memset_loop m s c i n x = (if i \<le> x - s \<and> x - s < n then c else m x)"
        unfolding eq using True by (auto simp: order.order_iff_strict)
    qed
  next
    case False
    then show ?thesis by (subst memset_loop.simps) (auto simp: fun_eq_iff)
  qed
qed

section \<open>Properties\<close>

text \<open>
  C17. \<^verbatim>\<open>memmove\<close> moves the old contents of the source to the destination and changes nothing
  else, for any overlap of the two regions, as long as neither wraps around the address
  space and the size fits the signed loop counter.
\<close>

theorem memmove_moves:
  assumes "unat dest + unat n < 2 ^ 64" and "unat src + unat n < 2 ^ 64" and "unat n \<le> 2 ^ 63"
  shows "memmove m dest src n = (\<lambda>x. if x - dest < n then m (src + (x - dest)) else m x)"
proof -
  have ends: "unat (dest + n) = unat dest + unat n" "unat (src + n) = unat src + unat n"
    using assms by (simp_all add: unat_offset)
  note cmp = word_less_nat_alt ends
  consider (fwd) "dest + n > src \<and> dest + n < src + n"
    | (bwd) "\<not> (dest + n > src \<and> dest + n < src + n)" "src + n > dest \<and> src + n < dest + n"
    | (apart) "\<not> (dest + n > src \<and> dest + n < src + n)" "\<not> (src + n > dest \<and> src + n < dest + n)"
        "dest \<noteq> src"
    | (same) "dest = src" by blast
  then have "memmove m dest src n = moved m dest src n"
  proof cases
    case fwd
    then have "unat dest \<le> unat src" by (simp add: cmp)
    then have "memcpy_loop m dest src 0 n = moved m dest src n"
      using assms(1,2) by (intro memcpy_forward_moved) simp_all
    then show ?thesis unfolding memmove_def Let_def by (simp only: if_P [OF fwd])
  next
    case bwd
    have "dest + of_nat b \<noteq> src + of_nat a" if "a < b" "b < unat n" for a b
    proof
      assume eq: "dest + of_nat b = src + of_nat a"
      have "unat (of_nat a :: u64) = a" "unat (of_nat b :: u64) = b"
        using that unat_less_exp [of n] by (simp_all add: unat_of_nat)
      with that have "unat (dest + of_nat b) = unat dest + b" "unat (src + of_nat a) = unat src + a"
        by (simp_all add: unat_offset [OF assms(1)] unat_offset [OF assms(2)] word_le_nat_alt)
      then show False using bwd eq that by (simp add: cmp)
    qed
    then have "memmove_down m dest src (unat n) = moved m dest src n"
      using unat_less_exp [of n] by (subst memmove_down_moved) (auto simp: moved_def word_less_nat_alt)
    then show ?thesis
      unfolding memmove_def Let_def ssize_count_eq [OF assms(3)]
      by (simp only: if_not_P [OF bwd(1)] if_P [OF bwd(2)])
  next
    case apart
    then have "unat dest \<noteq> unat src" by (simp add: word_unat_eq_iff)
    then have "unat dest \<le> unat src \<or> unat src + unat n \<le> unat dest"
      using apart by (auto simp: cmp)
    then have "memcpy m dest src n = moved m dest src n"
      using assms(1,2) unfolding memcpy_def by (intro memcpy_forward_moved)
    then show ?thesis
      unfolding memmove_def Let_def
      by (simp only: if_not_P [OF apart(1)] if_not_P [OF apart(2)] if_P [OF apart(3)])
  next
    case same
    then show ?thesis by (auto simp: memmove_def moved_def fun_eq_iff)
  qed
  then show ?thesis by (simp add: moved_def)
qed

theorem memmove_moves_witness:
  "memmove (\<lambda>a. ucast a) 102 100 8 = (\<lambda>x. if x - 102 < 8 then ucast (100 + (x - 102)) else ucast x)"
  by (rule memmove_moves) simp_all



end
