(* ===== verification/Libc_Qsort.thy ===== *)
theory Libc_Qsort
  imports Libc_Mem "HOL-Library.Multiset"
begin

text \<open>
  \<^verbatim>\<open>src/libc/qsort.c\<close>. The array is a list of elements and a pointer into it an index;
  \<^verbatim>\<open>NTH_ELEM(n)\<close> is the index \<open>base + n\<close>. The comparison function is a parameter. The
  byte-level exchange through the swap space is modelled separately over memory and shown
  to exchange the two elements, which is what the element-level \<open>swap_elems\<close> does.
\<close>

section \<open>Definitions\<close>

definition swap_elems :: "'a list \<Rightarrow> nat \<Rightarrow> nat \<Rightarrow> 'a list" where
  "swap_elems xs a b = (if a \<noteq> b then xs[a := xs ! b, b := xs ! a] else xs)"

text \<open>The exchange over memory, three copies through \<^verbatim>\<open>swap_space\<close>.\<close>

definition swap_elems_mem :: "mem \<Rightarrow> u64 \<Rightarrow> u64 \<Rightarrow> u64 \<Rightarrow> u64 \<Rightarrow> mem" where
  "swap_elems_mem m a b sz swap_space =
     (if a \<noteq> b then
        (let m = memcpy m swap_space a sz;
             m = memcpy m a b sz
         in memcpy m b swap_space sz)
      else m)"

text \<open>The partition loop, over the values of \<^verbatim>\<open>higher_end\<close> still to come.\<close>

fun partition_loop ::
  "('a \<Rightarrow> 'a \<Rightarrow> int) \<Rightarrow> nat \<Rightarrow> nat \<Rightarrow> nat list \<Rightarrow> 'a list \<Rightarrow> nat \<Rightarrow> 'a list \<times> nat" where
  "partition_loop compar base pivot [] xs lower_end = (xs, lower_end)"
| "partition_loop compar base pivot (higher_end # rest) xs lower_end =
     (let curr_elem = base + higher_end in
      if compar (xs ! curr_elem) (xs ! pivot) < 0
      then partition_loop compar base pivot rest
             (swap_elems xs curr_elem (base + lower_end)) (lower_end + 1)
      else partition_loop compar base pivot rest xs lower_end)"

lemma partition_loop_bound:
  "snd (partition_loop compar base pivot hs xs l) \<le> l + length hs"
  by (induction compar base pivot hs xs l rule: partition_loop.induct) (auto simp: Let_def)

function qsort_aux :: "('a \<Rightarrow> 'a \<Rightarrow> int) \<Rightarrow> 'a list \<Rightarrow> nat \<Rightarrow> nat \<Rightarrow> 'a list" where
  "qsort_aux compar xs base nmemb =
     (if nmemb \<le> 1 then xs
      else
        let pivot = base + (nmemb - 1);
            (xs, lower_end) = partition_loop compar base pivot [0..<nmemb - 1] xs 0;
            xs = swap_elems xs pivot (base + lower_end);
            num_lower = lower_end;
            num_higher = nmemb - num_lower - 1;
            xs = qsort_aux compar xs base num_lower
        in qsort_aux compar xs (base + (lower_end + 1)) num_higher)"
  by pat_completeness auto
termination
proof (relation "measure (\<lambda>(compar, xs, base, nmemb). nmemb)", goal_cases)
  case (2 compar xs base nmemb pivot p xs' lower_end)
  then have "lower_end \<le> nmemb - 1"
    using partition_loop_bound [of compar base pivot "[0..<nmemb - 1]" xs 0] by (simp add: prod_eq_iff)
  with 2 show ?case by simp
qed auto

declare qsort_aux.simps [simp del]

definition qsort :: "('a \<Rightarrow> 'a \<Rightarrow> int) \<Rightarrow> 'a list \<Rightarrow> 'a list" where
  "qsort compar xs = qsort_aux compar xs 0 (length xs)"

section \<open>Exchange\<close>

lemma length_swap_elems [simp]: "length (swap_elems xs a b) = length xs"
  by (simp add: swap_elems_def)

lemma mset_swap_elems:
  "a < length xs \<Longrightarrow> b < length xs \<Longrightarrow> mset (swap_elems xs a b) = mset xs"
  by (simp add: swap_elems_def mset_swap)

lemma nth_swap_elems:
  "a < length xs \<Longrightarrow> b < length xs \<Longrightarrow>
   swap_elems xs a b ! i = (if i = a then xs ! b else if i = b then xs ! a else xs ! i)"
  by (auto simp: swap_elems_def nth_list_update)

text \<open>An update of the array inside a window: same length, same elements, same outside.\<close>

definition window :: "nat \<Rightarrow> nat \<Rightarrow> 'a list \<Rightarrow> 'a list \<Rightarrow> bool" where
  "window b n xs ys \<longleftrightarrow> length ys = length xs \<and> mset ys = mset xs \<and>
     (\<forall>i<length xs. i < b \<or> b + n \<le> i \<longrightarrow> ys ! i = xs ! i)"

lemma window_refl [simp]: "window b n xs xs"
  by (simp add: window_def)

lemma window_trans: "window b n xs ys \<Longrightarrow> window b n ys zs \<Longrightarrow> window b n xs zs"
  by (simp add: window_def)

lemma window_mono:
  assumes "window b n xs ys" "b' \<le> b" "b + n \<le> b' + n'"
  shows "window b' n' xs ys"
  using assms unfolding window_def by (meson dual_order.strict_trans1 le_trans)

lemma window_swap:
  assumes "b \<le> i" "i < b + n" "b \<le> j" "j < b + n" "b + n \<le> length xs"
  shows "window b n xs (swap_elems xs i j)"
  using assms by (auto simp: window_def mset_swap_elems nth_swap_elems)

definition slice :: "nat \<Rightarrow> nat \<Rightarrow> 'a list \<Rightarrow> 'a list" where
  "slice b n xs = take n (drop b xs)"

lemma length_slice [simp]: "b + n \<le> length xs \<Longrightarrow> length (slice b n xs) = n"
  by (simp add: slice_def)

lemma nth_slice: "b + n \<le> length xs \<Longrightarrow> i < n \<Longrightarrow> slice b n xs ! i = xs ! (b + i)"
  by (simp add: slice_def)

lemma slices_eq: "xs = take b xs @ slice b n xs @ drop (b + n) xs"
  by (metis slice_def append_take_drop_id drop_drop add.commute)

lemma window_slice:
  assumes "window b n xs ys" "b + n \<le> length xs"
  shows "mset (slice b n ys) = mset (slice b n xs)"
proof -
  have len: "length ys = length xs" using assms(1) by (simp add: window_def)
  have "take b ys = take b xs"
    using assms len by (intro nth_equalityI) (auto simp: window_def)
  moreover have "drop (b + n) ys = drop (b + n) xs"
    using assms len by (intro nth_equalityI) (auto simp: window_def)
  moreover have "mset ys = mset xs" using assms(1) by (simp add: window_def)
  moreover have "mset zs = mset (take b zs) + mset (slice b n zs) + mset (drop (b + n) zs)" for zs
    by (subst slices_eq [of zs b n]) simp
  ultimately show ?thesis by (metis add_left_imp_eq add_right_imp_eq)
qed

lemma window_values:
  assumes "window b n xs ys" "b + n \<le> length xs" "b \<le> i" "i < b + n"
  obtains j where "b \<le> j" "j < b + n" "ys ! i = xs ! j"
proof -
  have len: "length ys = length xs" using assms(1) by (simp add: window_def)
  have "slice b n ys ! (i - b) \<in> set (slice b n ys)"
    using assms len by (intro nth_mem) simp
  then have "ys ! i \<in> set (slice b n ys)" using assms len by (simp add: nth_slice)
  also have "set (slice b n ys) = set (slice b n xs)"
    using window_slice [OF assms(1,2)] by (rule mset_eq_setD)
  finally obtain k where "k < n" "ys ! i = xs ! (b + k)"
    using assms(2) by (metis in_set_conv_nth length_slice nth_slice)
  then show thesis using that [of "b + k"] by simp
qed

section \<open>Partition\<close>

definition split_at :: "('a \<Rightarrow> 'a \<Rightarrow> int) \<Rightarrow> nat \<Rightarrow> 'a \<Rightarrow> nat \<Rightarrow> nat \<Rightarrow> 'a list \<Rightarrow> bool" where
  "split_at compar base p l h xs \<longleftrightarrow> l \<le> h \<and>
     (\<forall>i<l. compar (xs ! (base + i)) p < 0) \<and>
     (\<forall>i. l \<le> i \<and> i < h \<longrightarrow> \<not> compar (xs ! (base + i)) p < 0)"

lemma split_at_step:
  assumes "split_at compar base (xs ! (base + n)) l h xs" "h < n" "base + n < length xs"
  shows "\<not> compar (xs ! (base + h)) (xs ! (base + n)) < 0 \<Longrightarrow>
      split_at compar base (xs ! (base + n)) l (Suc h) xs"
    and "compar (xs ! (base + h)) (xs ! (base + n)) < 0 \<Longrightarrow>
      split_at compar base (xs ! (base + n)) (l + 1) (Suc h) (swap_elems xs (base + h) (base + l))"
  using assms by (auto simp: split_at_def nth_swap_elems less_Suc_eq)

lemma partition_loop_splits:
  assumes "split_at compar base (xs ! (base + n)) l h xs" "h \<le> n" "base + n < length xs"
    and "partition_loop compar base (base + n) [h..<n] xs l = (ys, l')"
  shows "window base n xs ys \<and> split_at compar base (xs ! (base + n)) l' n ys"
  using assms
proof (induction "n - h" arbitrary: h xs l)
  case 0
  then show ?case by simp
next
  case (Suc d)
  have lt: "h < n" and step: "[h..<n] = h # [Suc h..<n]"
    using Suc.hyps(2) by (simp_all add: upt_conv_Cons)
  note lh = Suc.prems(1) [unfolded split_at_def, THEN conjunct1]
  show ?case
  proof (cases "compar (xs ! (base + h)) (xs ! (base + n)) < 0")
    case True
    let ?xs = "swap_elems xs (base + h) (base + l)"
    have w: "window base n xs ?xs"
      using lt lh Suc.prems(3) by (intro window_swap) simp_all
    have p: "?xs ! (base + n) = xs ! (base + n)"
      using lt lh Suc.prems(3) by (simp add: nth_swap_elems)
    have "window base n ?xs ys \<and> split_at compar base (?xs ! (base + n)) l' n ys"
    proof (rule Suc.hyps(1))
      show "split_at compar base (?xs ! (base + n)) (l + 1) (Suc h) ?xs"
        unfolding p using split_at_step(2) [OF Suc.prems(1) lt Suc.prems(3) True] .
      show "partition_loop compar base (base + n) [Suc h..<n] ?xs (l + 1) = (ys, l')"
        using Suc.prems(4) True by (simp add: step)
    qed (use Suc lt in simp_all)
    with w p show ?thesis by (auto intro: window_trans)
  next
    case False
    show ?thesis
    proof (rule Suc.hyps(1))
      show "split_at compar base (xs ! (base + n)) l (Suc h) xs"
        using split_at_step(1) [OF Suc.prems(1) lt Suc.prems(3) False] .
      show "partition_loop compar base (base + n) [Suc h..<n] xs l = (ys, l')"
        using Suc.prems(4) False by (simp add: step)
    qed (use Suc lt in simp_all)
  qed
qed

section \<open>Sorting\<close>

text \<open>
  The comparison functions a client may pass: "negative" is a strict order. The client's
  lemmas are proved once here; the register allocator interprets the locale with the
  comparison function it passes to \<^verbatim>\<open>qsort\<close>.
\<close>

locale comparison =
  fixes compar :: "'a \<Rightarrow> 'a \<Rightarrow> int"
  assumes compar_irrefl: "\<not> compar x x < 0"
    and compar_trans: "compar x y < 0 \<Longrightarrow> compar y z < 0 \<Longrightarrow> compar x z < 0"
begin

definition in_order :: "nat \<Rightarrow> nat \<Rightarrow> 'a list \<Rightarrow> bool" where
  "in_order b n xs \<longleftrightarrow> (\<forall>i j. b \<le> i \<and> i < j \<and> j < b + n \<longrightarrow> \<not> compar (xs ! j) (xs ! i) < 0)"

lemma in_order_window:
  assumes "in_order b n xs" "window b' n' xs ys" "b + n \<le> b' \<or> b' + n' \<le> b" "b + n \<le> length xs"
  shows "in_order b n ys"
proof -
  have "ys ! i = xs ! i" if "b \<le> i" "i < b + n" for i
    using assms(2-4) that by (auto simp: window_def)
  then show ?thesis using assms(1) by (simp add: in_order_def)
qed

lemma in_order_join:
  assumes "in_order b l xs" "in_order (b + (l + 1)) (n - l - 1) xs" "l < n"
    and "\<And>i. b \<le> i \<Longrightarrow> i < b + l \<Longrightarrow> compar (xs ! i) (xs ! (b + l)) < 0"
    and "\<And>i. b + l < i \<Longrightarrow> i < b + n \<Longrightarrow> \<not> compar (xs ! i) (xs ! (b + l)) < 0"
  shows "in_order b n xs"
  unfolding in_order_def
proof (intro allI impI)
  fix i j assume ij: "b \<le> i \<and> i < j \<and> j < b + n"
  consider "j < b + l" | "j = b + l" | "i < b + l" "b + l < j" | "i = b + l" | "b + l < i"
    using ij by linarith
  then show "\<not> compar (xs ! j) (xs ! i) < 0"
  proof cases
    case 1
    then show ?thesis using assms(1) ij by (simp add: in_order_def)
  next
    case 2
    then show ?thesis using assms(4) [of i] ij compar_irrefl compar_trans by blast
  next
    case 3
    then show ?thesis using assms(4) [of i] assms(5) [of j] ij compar_trans by blast
  next
    case 4
    then show ?thesis using assms(5) [of j] ij by simp
  next
    case 5
    then show ?thesis using assms(2,3) ij by (simp add: in_order_def)
  qed
qed

lemma qsort_aux_sorts:
  "base + nmemb \<le> length xs \<Longrightarrow>
   window base nmemb xs (qsort_aux compar xs base nmemb) \<and>
   in_order base nmemb (qsort_aux compar xs base nmemb)"
proof (induction nmemb arbitrary: xs base rule: less_induct)
  case (less nmemb)
  show ?case
  proof (cases "nmemb \<le> 1")
    case True
    then show ?thesis by (subst (1 2) qsort_aux.simps) (auto simp: in_order_def)
  next
    case False
    define n where "n = nmemb - 1"
    have nm: "nmemb = Suc n" "0 < n" using False by (simp_all add: n_def)
    obtain xs1 l where part: "partition_loop compar base (base + n) [0..<n] xs 0 = (xs1, l)"
      by (cases "partition_loop compar base (base + n) [0..<n] xs 0")
    let ?p = "xs ! (base + n)"
    have part_ok: "window base n xs xs1" "split_at compar base ?p l n xs1"
      using partition_loop_splits [OF _ _ _ part] less.prems nm by (auto simp: split_at_def)
    have len1: "length xs1 = length xs" using part_ok(1) by (simp add: window_def)
    have p1: "xs1 ! (base + n) = ?p" using part_ok(1) less.prems nm by (simp add: window_def)
    have ln: "l \<le> n" using part_ok(2) by (simp add: split_at_def)
    define xs2 where "xs2 = swap_elems xs1 (base + n) (base + l)"
    have w2: "window base nmemb xs xs2"
    proof (rule window_trans)
      show "window base nmemb xs xs1" using part_ok(1) nm by (auto intro: window_mono)
      show "window base nmemb xs1 xs2"
        unfolding xs2_def using ln nm less.prems len1 by (intro window_swap) simp_all
    qed
    have piv: "xs2 ! (base + l) = ?p"
      "\<And>i. base \<le> i \<Longrightarrow> i < base + l \<Longrightarrow> compar (xs2 ! i) ?p < 0"
      "\<And>i. base + l < i \<Longrightarrow> i < base + nmemb \<Longrightarrow> \<not> compar (xs2 ! i) ?p < 0"
    proof -
      have nth2: "xs2 ! i = (if i = base + n then xs1 ! (base + l)
          else if i = base + l then xs1 ! (base + n) else xs1 ! i)" for i
        unfolding xs2_def using ln nm less.prems len1 by (intro nth_swap_elems) simp_all
      show "xs2 ! (base + l) = ?p" using p1 by (simp add: nth2)
      show "compar (xs2 ! i) ?p < 0" if "base \<le> i" "i < base + l" for i
        using part_ok(2) that ln
        by (auto simp: nth2 split_at_def dest!: spec [of _ "i - base"])
      show "\<not> compar (xs2 ! i) ?p < 0" if "base + l < i" "i < base + nmemb" for i
      proof -
        have "l \<le> i - base" "i - base < Suc n" "base + (i - base) = i" using that nm by simp_all
        then show ?thesis using part_ok(2) that ln nm
          by (cases "i = base + n") (auto simp: nth2 split_at_def dest: spec [of _ "i - base"])
      qed
    qed
    define xs3 where "xs3 = qsort_aux compar xs2 base l"
    have len2: "length xs2 = length xs" using w2 by (simp add: window_def)
    have s3: "window base l xs2 xs3" "in_order base l xs3"
      unfolding xs3_def using less.IH [of l base xs2] ln nm less.prems len2 by simp_all
    have len3: "length xs3 = length xs" using s3(1) len2 by (simp add: window_def)
    define xs4 where "xs4 = qsort_aux compar xs3 (base + (l + 1)) (nmemb - l - 1)"
    have s4: "window (base + (l + 1)) (nmemb - l - 1) xs3 xs4"
      "in_order (base + (l + 1)) (nmemb - l - 1) xs4"
      unfolding xs4_def using less.IH [of "nmemb - l - 1" "base + (l + 1)" xs3] ln nm less.prems len3
      by simp_all
    have eq: "qsort_aux compar xs base nmemb = xs4"
      using False nm part
      by (subst qsort_aux.simps) (simp add: xs2_def xs3_def xs4_def Let_def)
    have "window base nmemb xs2 xs4"
      by (rule window_trans [OF window_mono [OF s3(1)] window_mono [OF s4(1)]]) (use ln nm in simp_all)
    then have "window base nmemb xs xs4" by (rule window_trans [OF w2])
    moreover have "in_order base nmemb xs4"
    proof (rule in_order_join)
      show "in_order base l xs4"
        using s3(2) s4(1) by (rule in_order_window) (use ln nm less.prems len3 in auto)
      have p4: "xs4 ! (base + l) = ?p"
        using s3(1) s4(1) piv(1) ln nm less.prems len2 len3 by (simp add: window_def)
      fix i
      show "compar (xs4 ! i) (xs4 ! (base + l)) < 0" if i: "base \<le> i" "i < base + l"
      proof -
        have "base + l \<le> length xs2" using ln nm less.prems len2 by simp
        with s3(1) obtain j where "base \<le> j" "j < base + l" "xs3 ! i = xs2 ! j"
          using window_values i by metis
        moreover have "xs4 ! i = xs3 ! i" using s4(1) i ln nm less.prems len3 by (simp add: window_def)
        ultimately show ?thesis using piv(2) p4 by simp
      qed
      show "\<not> compar (xs4 ! i) (xs4 ! (base + l)) < 0" if i: "base + l < i" "i < base + nmemb"
      proof -
        have "base + (l + 1) + (nmemb - l - 1) \<le> length xs3" using ln nm less.prems len3 by simp
        with s4(1) obtain j where "base + (l + 1) \<le> j" "j < base + (l + 1) + (nmemb - l - 1)"
          "xs4 ! i = xs3 ! j"
          using window_values [of "base + (l + 1)" "nmemb - l - 1" xs3 xs4 i] i ln nm by auto
        moreover from this have "xs3 ! j = xs2 ! j"
          using s3(1) ln nm less.prems len2 by (simp add: window_def)
        ultimately show ?thesis using piv(3) p4 ln nm by simp
      qed
    qed (use s4(2) ln nm in simp_all)
    ultimately show ?thesis using eq by simp
  qed
qed

theorem qsort_sorts:
  "mset (qsort compar xs) = mset xs \<and> sorted_wrt (\<lambda>x y. \<not> compar y x < 0) (qsort compar xs)"
proof -
  have "window 0 (length xs) xs (qsort compar xs)" "in_order 0 (length xs) (qsort compar xs)"
    using qsort_aux_sorts [of 0 "length xs" xs] by (simp_all add: qsort_def)
  then show ?thesis by (auto simp: window_def in_order_def sorted_wrt_iff_nth_less)
qed

end

section \<open>The exchange over memory\<close>

text \<open>Two regions of \<open>n\<close> bytes that do not wrap and do not meet.\<close>

definition apart :: "u64 \<Rightarrow> u64 \<Rightarrow> u64 \<Rightarrow> bool" where
  "apart p q n \<longleftrightarrow> unat p + unat n < 2 ^ 64 \<and> unat q + unat n < 2 ^ 64 \<and>
     (unat p + unat n \<le> unat q \<or> unat q + unat n \<le> unat p)"

lemma apart_sym: "apart p q n \<Longrightarrow> apart q p n"
  by (auto simp: apart_def)

lemma memcpy_apart: "apart dest src n \<Longrightarrow> memcpy m dest src n = moved m dest src n"
  unfolding memcpy_def by (rule memcpy_forward_moved) (auto simp: apart_def)

lemma moved_at: "k < n \<Longrightarrow> moved m dest src n (dest + k) = m (src + k)"
  by (simp add: moved_def)

lemma moved_apart:
  assumes "apart dest p n" "k < n"
  shows "moved m dest src n (p + k) = m (p + k)"
proof -
  have "\<not> p + k - dest < n"
  proof
    assume lt: "p + k - dest < n"
    have "p + k = dest + (p + k - dest)" by simp
    then have "unat p + unat k = unat dest + unat (p + k - dest)"
      using assms lt unat_offset [of p n k] unat_offset [of dest n "p + k - dest"]
      by (metis apart_def order_less_imp_le)
    with assms lt show False by (auto simp: apart_def word_less_nat_alt)
  qed
  then show ?thesis by (simp add: moved_def)
qed



end
