(* ===== verification/Libc_Alloc.thy ===== *)
theory Libc_Alloc
  imports Libc_Mem
begin

text \<open>
  \<^verbatim>\<open>src/libc/allocator.c\<close>: \<^verbatim>\<open>malloc\<close>, \<^verbatim>\<open>free\<close>, \<^verbatim>\<open>realloc\<close> and \<^verbatim>\<open>calloc\<close>. The state holds the
  allocator's static variables, the two fields of every header (a header is named by its
  address, \<open>0\<close> is \<^verbatim>\<open>NULL\<close>) and the bytes of memory. The system call \<^verbatim>\<open>mmap\<close> is a
  parameter: the address it returns for a length, or \<open>None\<close> for \<^verbatim>\<open>MAP_FAILED\<close>. The walk
  of the free list and the doubling of the block size are loops that may run forever, so
  the operations return \<open>None\<close> when they do. The theorems show that, while \<^verbatim>\<open>mmap\<close>
  succeeds, the loops end and live blocks never overlap.
\<close>

section \<open>State\<close>

record heap =
  hdr_size :: "u64 \<Rightarrow> u64"
  hdr_next :: "u64 \<Rightarrow> u64"
  heap_free_list :: u64
  heap_block :: u64
  heap_block_used :: u64
  heap_block_size :: u64
  bytes :: mem

type_synonym mmap_fun = "u64 \<Rightarrow> u64 option"

definition align_to_size :: "u64 \<Rightarrow> u64 \<Rightarrow> u64" where
  "align_to_size n align = (let x = align - 1 in (n + x) AND NOT x)"

definition ptr_for_header :: "u64 \<Rightarrow> u64" where
  "ptr_for_header header = header + 16"

definition header_for_ptr :: "u64 \<Rightarrow> u64" where
  "header_for_ptr ptr = ptr - 16"

section \<open>Operations\<close>

text \<open>
  The walk of the free list: \<open>Some (Some (cur, prev))\<close> for the first entry that is large
  enough and its predecessor, \<open>Some None\<close> when the end is reached.
\<close>

partial_function (option) find_entry ::
  "heap \<Rightarrow> u64 \<Rightarrow> u64 \<Rightarrow> u64 \<Rightarrow> (u64 \<times> u64) option option" where
  "find_entry h sz cur prev =
     (if cur \<noteq> 0
      then (if sz \<le> hdr_size h cur then Some (Some (cur, prev))
            else find_entry h sz (hdr_next h cur) cur)
      else Some None)"

partial_function (option) grow_block_size :: "u64 \<Rightarrow> u64 \<Rightarrow> u64 option" where
  "grow_block_size extra bsize =
     (if extra > bsize then grow_block_size extra (bsize * 2) else Some bsize)"

text \<open>
  The refill of the current block. The block size and the used count are overwritten
  before \<^verbatim>\<open>mmap\<close> is called and stay so when it fails (\<open>Inl\<close>).
\<close>

definition new_heap_block :: "mmap_fun \<Rightarrow> heap \<Rightarrow> u64 \<Rightarrow> (heap + heap) option" where
  "new_heap_block mmap h extra =
     Option.bind
       (grow_block_size extra (if heap_block_size h = 0 then 32768 else heap_block_size h))
       (\<lambda>bsize.
          let h = h\<lparr>heap_block_size := bsize, heap_block_used := 0\<rparr> in
          Some (case mmap bsize of
                  None \<Rightarrow> Inl h
                | Some p \<Rightarrow> Inr (h\<lparr>heap_block := p\<rparr>)))"

definition carve_entry :: "heap \<Rightarrow> u64 \<Rightarrow> u64 \<Rightarrow> u64 \<times> heap" where
  "carve_entry h extra sz =
     (let new_header = heap_block h + heap_block_used h;
          h = h\<lparr>heap_block_used := heap_block_used h + extra\<rparr>;
          h = h\<lparr>hdr_next := (hdr_next h)(new_header := 0)\<rparr>;
          h = h\<lparr>hdr_size := (hdr_size h)(new_header := sz)\<rparr>
      in (ptr_for_header new_header, h))"

definition malloc :: "mmap_fun \<Rightarrow> heap \<Rightarrow> u64 \<Rightarrow> (u64 \<times> heap) option" where
  "malloc mmap h sz =
     (if sz = 0 then Some (0, h)
      else Option.bind (find_entry h sz (heap_free_list h) 0)
        (\<lambda>r. case r of
           Some (cur, prev) \<Rightarrow>
             Some (ptr_for_header cur,
               if prev = 0 then h\<lparr>heap_free_list := hdr_next h cur\<rparr>
               else h\<lparr>hdr_next := (hdr_next h)(prev := hdr_next h cur)\<rparr>)
         | None \<Rightarrow>
             let extra = align_to_size (16 + sz) 8 in
             if heap_block_used h + extra > heap_block_size h
             then Option.bind (new_heap_block mmap h extra)
                    (\<lambda>b. case b of
                       Inl h \<Rightarrow> Some (0, h)
                     | Inr h \<Rightarrow> Some (carve_entry h extra sz))
             else Some (carve_entry h extra sz)))"

definition free :: "heap \<Rightarrow> u64 \<Rightarrow> heap" where
  "free h ptr =
     (if ptr = 0 then h
      else
        let header = header_for_ptr ptr;
            h = h\<lparr>hdr_next := (hdr_next h)(header := heap_free_list h)\<rparr>
        in h\<lparr>heap_free_list := header\<rparr>)"

definition realloc :: "mmap_fun \<Rightarrow> heap \<Rightarrow> u64 \<Rightarrow> u64 \<Rightarrow> (u64 \<times> heap) option" where
  "realloc mmap h ptr sz =
     (if ptr = 0 then malloc mmap h sz
      else if sz = 0 then Some (0, h)
      else
        let header = header_for_ptr ptr; old_size = hdr_size h header in
        if old_size \<ge> sz then Some (ptr, h)
        else Option.bind (malloc mmap h sz)
          (\<lambda>(new_ptr, h).
             if new_ptr = 0 then Some (0, h)
             else
               let h = h\<lparr>bytes := memcpy (bytes h) new_ptr ptr old_size\<rparr>
               in Some (new_ptr, free h ptr)))"

text \<open>\<^verbatim>\<open>calloc\<close> clears the block without looking whether \<^verbatim>\<open>malloc\<close> returned \<^verbatim>\<open>NULL\<close>.\<close>

definition calloc :: "mmap_fun \<Rightarrow> heap \<Rightarrow> u64 \<Rightarrow> u64 \<Rightarrow> (u64 \<times> heap) option" where
  "calloc mmap h nmemb sz =
     (if nmemb = 0 \<or> sz = 0 then Some (0, h)
      else Option.bind (malloc mmap h (nmemb * sz))
        (\<lambda>(ptr, h). Some (ptr, h\<lparr>bytes := memset (bytes h) ptr 0 (nmemb * sz)\<rparr>)))"

section \<open>Lists in the heap\<close>

primrec lpath :: "(u64 \<Rightarrow> u64) \<Rightarrow> u64 \<Rightarrow> u64 list \<Rightarrow> bool" where
  "lpath nx x [] \<longleftrightarrow> x = 0"
| "lpath nx x (a # as) \<longleftrightarrow> x = a \<and> a \<noteq> 0 \<and> lpath nx (nx a) as"

lemma lpath_upd [simp]: "a \<notin> set as \<Longrightarrow> lpath (nx(a := v)) x as = lpath nx x as"
  by (induction as arbitrary: x) auto

lemma lpath_append:
  "lpath nx x (as @ b # bs) \<longleftrightarrow> lpath (nx(b := 0)) x (as @ [b]) \<and> lpath nx (nx b) bs"
  if "b \<notin> set as"
  using that by (induction as arbitrary: x) auto

lemma lpath_nonzero: "lpath nx x as \<Longrightarrow> 0 \<notin> set as"
  by (induction as arbitrary: x) auto

lemma lpath_unlink:
  "distinct (ps @ p # a # bs) \<Longrightarrow> lpath nx x (ps @ p # a # bs) \<Longrightarrow>
   lpath (nx(p := nx a)) x (ps @ p # bs)"
  by (induction ps arbitrary: x) auto

lemma find_entry_none:
  "lpath (hdr_next h) x as \<Longrightarrow> \<forall>a\<in>set as. hdr_size h a < sz \<Longrightarrow> find_entry h sz x prev = Some None"
proof (induction as arbitrary: x prev)
  case Nil
  then show ?case by (subst find_entry.simps) simp
next
  case (Cons a as)
  then show ?case by (subst find_entry.simps) (auto simp: not_le)
qed

lemma find_entry_some:
  "lpath (hdr_next h) x (as @ b # bs) \<Longrightarrow> \<forall>a\<in>set as. hdr_size h a < sz \<Longrightarrow> sz \<le> hdr_size h b \<Longrightarrow>
   find_entry h sz x prev = Some (Some (b, last (prev # as)))"
proof (induction as arbitrary: x prev)
  case Nil
  then show ?case by (subst find_entry.simps) simp
next
  case (Cons a as)
  then show ?case by (subst find_entry.simps) (auto simp: not_le)
qed

section \<open>Invariant\<close>

text \<open>
  The bytes an entry occupies: its header and its payload, rounded up to a multiple of 8.
  An entry keeps the size it was carved with when it is reused.
\<close>

definition extent :: "u64 \<Rightarrow> nat" where
  "extent sz = (unat sz + 23) div 8 * 8"

definition region :: "heap \<Rightarrow> u64 \<Rightarrow> nat set" where
  "region h a = {unat a..<unat a + extent (hdr_size h a)}"

definition unused :: "heap \<Rightarrow> nat set" where
  "unused h = {unat (heap_block h) + unat (heap_block_used h)..<
     unat (heap_block h) + unat (heap_block_size h)}"

definition entry_ok :: "heap \<Rightarrow> u64 \<Rightarrow> bool" where
  "entry_ok h a \<longleftrightarrow> a \<noteq> 0 \<and> 8 dvd unat a \<and> unat a + extent (hdr_size h a) < 2 ^ 64 \<and>
     unat (hdr_size h a) < 2 ^ 62 \<and> region h a \<inter> unused h = {}"

definition block_ok :: "heap \<Rightarrow> bool" where
  "block_ok h \<longleftrightarrow> (heap_block_size h = 0 \<or>
       (\<exists>j. 15 \<le> j \<and> j \<le> 63 \<and> heap_block_size h = 2 ^ j) \<and> heap_block h \<noteq> 0) \<and>
     unat (heap_block h) + unat (heap_block_size h) < 2 ^ 64 \<and>
     heap_block_used h \<le> heap_block_size h \<and>
     8 dvd unat (heap_block_used h) \<and> 8 dvd unat (heap_block h)"

text \<open>
  \<open>heap_inv h live frees\<close>: the free list of \<open>h\<close> is \<open>frees\<close>; it and the entries \<open>live\<close> that the
  program holds are distinct, do not overlap and do not meet the unused part of the block.
\<close>

definition heap_inv :: "heap \<Rightarrow> u64 set \<Rightarrow> u64 list \<Rightarrow> bool" where
  "heap_inv h live frees \<longleftrightarrow>
     lpath (hdr_next h) (heap_free_list h) frees \<and> distinct frees \<and> set frees \<inter> live = {} \<and>
     (\<forall>a \<in> live \<union> set frees. entry_ok h a) \<and>
     (\<forall>a \<in> live \<union> set frees. \<forall>b \<in> live \<union> set frees. a \<noteq> b \<longrightarrow> region h a \<inter> region h b = {}) \<and>
     block_ok h"

text \<open>
  What the system call promises: a fresh mapping, aligned, that does not wrap and does
  not meet the entries in use; and, for the theorems below, that it does not fail.
\<close>

definition mmap_ok :: "mmap_fun \<Rightarrow> heap \<Rightarrow> u64 set \<Rightarrow> bool" where
  "mmap_ok mmap h entries \<longleftrightarrow>
     (\<forall>n. unat n \<le> 2 ^ 63 \<longrightarrow> (\<exists>p. mmap n = Some p \<and> p \<noteq> 0 \<and> 8 dvd unat p \<and> unat p + unat n < 2 ^ 64 \<and>
       (\<forall>a \<in> entries. region h a \<inter> {unat p..<unat p + unat n} = {})))"

lemma extent_bounds: "unat sz + 16 \<le> extent sz" "extent sz \<le> unat sz + 23" "8 dvd extent sz"
proof -
  have "(unat sz + 23) div 8 * 8 + (unat sz + 23) mod 8 = unat sz + 23"
    "(unat sz + 23) mod 8 < 8" by simp_all
  then show "unat sz + 16 \<le> extent sz" "extent sz \<le> unat sz + 23"
    unfolding extent_def by linarith+
qed (simp add: extent_def)

lemma align_extent:
  assumes "unat sz < 2 ^ 62"
  shows "unat (align_to_size (16 + sz) 8) = extent sz"
proof -
  have "unat (16 + sz) = 16 + unat sz" using assms by (subst unat_add_no_wrap) simp_all
  then show ?thesis
    using unat_round_up [of 3 "16 + sz"] assms by (simp add: align_to_size_def Let_def extent_def)
qed

lemma grow_block_size_power:
  assumes "15 \<le> j" "j \<le> 63" "unat extra \<le> 2 ^ 63"
  shows "\<exists>i. j \<le> i \<and> i \<le> 63 \<and> grow_block_size extra (2 ^ j) = Some (2 ^ i) \<and> unat extra \<le> 2 ^ i"
  using assms(1,2)
proof (induction "63 - j" arbitrary: j)
  case 0
  then have "j = 63" by simp
  then show ?case using assms(3) unat_exp2 [of 63, where 'a = 64]
    by (intro exI [of _ 63], subst grow_block_size.simps) (simp add: word_less_nat_alt)
next
  case (Suc d)
  have j: "unat (2 ^ j :: u64) = 2 ^ j" using Suc.prems by (intro unat_exp2) simp
  show ?case
  proof (cases "unat extra \<le> 2 ^ j")
    case True
    then show ?thesis using Suc.prems j
      by (intro exI [of _ j], subst grow_block_size.simps) (simp add: word_less_nat_alt)
  next
    case False
    then have "grow_block_size extra (2 ^ j) = grow_block_size extra (2 ^ Suc j)"
      using j by (subst grow_block_size.simps) (simp add: word_less_nat_alt mult.commute)
    moreover have "d = 63 - Suc j" "15 \<le> Suc j" "Suc j \<le> 63"
      using Suc.hyps(2) Suc.prems by linarith+
    then obtain i where "Suc j \<le> i" "i \<le> 63" "grow_block_size extra (2 ^ Suc j) = Some (2 ^ i)"
      "unat extra \<le> 2 ^ i"
      using Suc.hyps(1) [of "Suc j"] by blast
    ultimately show ?thesis by (metis Suc_leD)
  qed
qed

section \<open>Operations keep the invariant\<close>

lemma region_cong: "hdr_size h a = hdr_size h' a \<Longrightarrow> region h a = region h' a"
  by (simp add: region_def)

lemma payload_in_region: "unat sz \<le> unat (hdr_size h a) \<Longrightarrow>
  {unat a + 16..<unat a + 16 + unat sz} \<subseteq> region h a"
  using extent_bounds(1) [of "hdr_size h a"] by (auto simp: region_def)

lemma ptr_header_inverse [simp]: "header_for_ptr (ptr_for_header a) = a"
  by (simp add: header_for_ptr_def ptr_for_header_def)

lemma ptr_for_header_unat:
  assumes "entry_ok h a"
  shows "unat (ptr_for_header a) = unat a + 16" "ptr_for_header a \<noteq> 0"
proof -
  have "unat a + 16 < 2 ^ 64"
    using assms extent_bounds(1) [of "hdr_size h a"] by (auto simp: entry_ok_def)
  then show "unat (ptr_for_header a) = unat a + 16"
    unfolding ptr_for_header_def by (subst unat_add_no_wrap) simp_all
  then show "ptr_for_header a \<noteq> 0" by auto
qed

lemmas heap_defs = heap_inv_def entry_ok_def block_ok_def region_def unused_def

lemma links_irrelevant [simp]:
  "entry_ok (h\<lparr>hdr_next := nx\<rparr>) a = entry_ok h a" "entry_ok (h\<lparr>heap_free_list := l\<rparr>) a = entry_ok h a"
  "region (h\<lparr>hdr_next := nx\<rparr>) a = region h a" "region (h\<lparr>heap_free_list := l\<rparr>) a = region h a"
  "block_ok (h\<lparr>hdr_next := nx\<rparr>) = block_ok h" "block_ok (h\<lparr>heap_free_list := l\<rparr>) = block_ok h"
  "entry_ok (h\<lparr>bytes := bs\<rparr>) a = entry_ok h a" "region (h\<lparr>bytes := bs\<rparr>) a = region h a"
  "block_ok (h\<lparr>bytes := bs\<rparr>) = block_ok h"
  by (simp_all add: heap_defs)

text \<open>Taking an entry off the free list.\<close>

definition unlink :: "heap \<Rightarrow> u64 \<Rightarrow> u64 \<Rightarrow> heap" where
  "unlink h cur prev =
     (if prev = 0 then h\<lparr>heap_free_list := hdr_next h cur\<rparr>
      else h\<lparr>hdr_next := (hdr_next h)(prev := hdr_next h cur)\<rparr>)"

lemma unlink_inv:
  assumes "heap_inv h live (as @ b # bs)"
  shows "heap_inv (unlink h b (last (0 # as))) (insert b live) (as @ bs)"
proof -
  have path: "lpath (hdr_next h) (heap_free_list h) (as @ b # bs)" "distinct (as @ b # bs)"
    using assms by (simp_all add: heap_inv_def)
  have "lpath (hdr_next (unlink h b (last (0 # as)))) (heap_free_list (unlink h b (last (0 # as)))) (as @ bs)"
  proof (cases as rule: rev_cases)
    case Nil
    with path(1) show ?thesis by (simp add: unlink_def)
  next
    case (snoc ps p)
    have "p \<noteq> 0" using lpath_nonzero [OF path(1)] snoc by auto
    moreover have "lpath ((hdr_next h)(p := hdr_next h b)) (heap_free_list h) (ps @ p # bs)"
      using path snoc by (intro lpath_unlink) simp_all
    ultimately show ?thesis using snoc by (simp add: unlink_def)
  qed
  moreover have "insert b live \<union> set (as @ bs) = live \<union> set (as @ b # bs)" by auto
  moreover have "set (as @ bs) \<inter> insert b live = {}"
    using assms by (auto simp: heap_inv_def)
  ultimately show ?thesis
    using assms unfolding heap_inv_def by (auto simp: unlink_def)
qed

text \<open>Carving a new entry from the unused part of the block.\<close>

lemma carve_entry_inv:
  assumes inv: "heap_inv h live frees" and sz: "unat sz < 2 ^ 62" and ex: "unat extra = extent sz"
    and room: "unat (heap_block_used h) + extent sz \<le> unat (heap_block_size h)"
  shows "\<exists>a h'. carve_entry h extra sz = (ptr_for_header a, h') \<and> a \<notin> live \<union> set frees \<and>
    heap_inv h' (insert a live) frees \<and> hdr_size h' = (hdr_size h)(a := sz) \<and> bytes h' = bytes h"
proof -
  define a where "a = heap_block h + heap_block_used h"
  define h' where "h' = snd (carve_entry h extra sz)"
  have blk: "unat (heap_block h) + unat (heap_block_size h) < 2 ^ 64" "8 dvd unat (heap_block_used h)"
    "8 dvd unat (heap_block h)" "heap_block_size h \<noteq> 0 \<longrightarrow> heap_block h \<noteq> 0" "block_ok h"
    using inv by (auto simp: heap_inv_def block_ok_def)
  have ext: "0 < extent sz" "8 dvd extent sz" using extent_bounds [of sz] by linarith+
  have ua: "unat a = unat (heap_block h) + unat (heap_block_used h)"
    unfolding a_def using blk(1) room by (intro unat_add_no_wrap) simp
  have uu: "unat (heap_block_used h + extra) = unat (heap_block_used h) + extent sz"
    unfolding ex [symmetric] using blk(1) room ex by (intro unat_add_no_wrap) simp
  have f: "hdr_size h' = (hdr_size h)(a := sz)" "hdr_next h' = (hdr_next h)(a := 0)"
    "heap_free_list h' = heap_free_list h" "heap_block h' = heap_block h"
    "heap_block_size h' = heap_block_size h" "heap_block_used h' = heap_block_used h + extra"
    "bytes h' = bytes h"
    by (simp_all add: h'_def carve_entry_def Let_def a_def)
  have ra: "region h' a = {unat a..<unat a + extent sz}" by (simp add: region_def f)
  have sub: "region h' a \<subseteq> unused h" using room unfolding ra unused_def ua by auto
  have new: "a \<notin> live \<union> set frees"
  proof
    assume "a \<in> live \<union> set frees"
    then have "region h a \<inter> unused h = {}" using inv by (auto simp: heap_inv_def entry_ok_def)
    moreover have "unat a \<in> region h a" using extent_bounds(1) [of "hdr_size h a"] by (simp add: region_def)
    moreover have "unat a \<in> unused h" using sub ext ra by auto
    ultimately show False by blast
  qed
  have old: "region h' b = region h b" if "b \<in> live \<union> set frees" for b
    using that new by (intro region_cong) (auto simp: f)
  have un: "unused h' \<subseteq> unused h" "region h' a \<inter> unused h' = {}"
    using uu ua unfolding unused_def f ra by auto
  have "entry_ok h' a"
  proof -
    have "a \<noteq> 0" using blk(4) room ext ua by (metis add_is_0 le_zero_eq not_gr_zero unat_0 unat_eq_zero)
    then show ?thesis using blk room ua sz un(2) by (auto simp: entry_ok_def f)
  qed
  moreover have "entry_ok h' b" if b: "b \<in> live \<union> set frees" for b
  proof -
    have "entry_ok h b" "b \<noteq> a" using inv b new by (auto simp: heap_inv_def)
    then show ?thesis using old [OF b] un(1) by (auto simp: entry_ok_def f)
  qed
  moreover have "region h' a \<inter> region h' b = {}" if "b \<in> live \<union> set frees" for b
  proof -
    have "entry_ok h b" using inv that by (auto simp: heap_inv_def)
    then have "region h b \<inter> unused h = {}" by (simp add: entry_ok_def)
    then show ?thesis using sub unfolding old [OF that] by blast
  qed
  moreover have "block_ok h'"
  proof -
    have "heap_block_used h' \<le> heap_block_size h'" "8 dvd unat (heap_block_used h')"
      using room uu blk(2) ext(2) by (simp_all add: f word_le_nat_alt)
    then show ?thesis using blk(5) by (auto simp: block_ok_def f)
  qed
  moreover have "lpath (hdr_next h') (heap_free_list h') frees" using inv new by (simp add: heap_inv_def f)
  ultimately have "heap_inv h' (insert a live) frees"
    using inv new old by (auto simp: heap_inv_def)
  moreover have "carve_entry h extra sz = (ptr_for_header a, h')"
    by (simp add: h'_def a_def carve_entry_def Let_def)
  ultimately show ?thesis using new f by blast
qed

lemma new_heap_block_inv:
  assumes inv: "heap_inv h live frees" and mm: "mmap_ok mmap h (live \<union> set frees)"
    and ex: "unat extra \<le> 2 ^ 63"
  shows "\<exists>h'. new_heap_block mmap h extra = Some (Inr h') \<and> heap_inv h' live frees \<and>
    hdr_size h' = hdr_size h \<and> bytes h' = bytes h \<and> heap_block_used h' = 0 \<and>
    unat extra \<le> unat (heap_block_size h')"
proof -
  have "\<exists>j. 15 \<le> j \<and> j \<le> 63 \<and> (if heap_block_size h = 0 then 32768 else heap_block_size h) = 2 ^ j"
  proof (cases "heap_block_size h = 0")
    case True
    then show ?thesis by (intro exI [of _ 15]) simp
  next
    case False
    then show ?thesis using inv by (simp add: heap_inv_def block_ok_def)
  qed
  note pow = this
  obtain i where i: "15 \<le> i" "i \<le> 63" "unat extra \<le> 2 ^ i"
    "grow_block_size extra (if heap_block_size h = 0 then 32768 else heap_block_size h) = Some (2 ^ i)"
  proof -
    from pow obtain j where j: "15 \<le> j" "j \<le> 63"
      "(if heap_block_size h = 0 then 32768 else heap_block_size h) = 2 ^ j" by blast
    from grow_block_size_power [OF j(1,2) ex] obtain i where
      "j \<le> i" "i \<le> 63" "grow_block_size extra (2 ^ j) = Some (2 ^ i)" "unat extra \<le> 2 ^ i"
      by blast
    then show thesis using j by (intro that [of i]) simp_all
  qed
  have "unat (2 ^ i :: u64) \<le> 2 ^ 63"
    using i(2) unat_exp2 [of i, where 'a = 64] power_increasing [of i 63 "2::nat"] by simp
  then obtain p where "mmap (2 ^ i) = Some p \<and> p \<noteq> 0 \<and> 8 dvd unat p \<and>
      unat p + unat (2 ^ i :: u64) < 2 ^ 64 \<and>
      (\<forall>a \<in> live \<union> set frees. region h a \<inter> {unat p..<unat p + unat (2 ^ i :: u64)} = {})"
    using mm [unfolded mmap_ok_def, THEN spec, of "2 ^ i"] by (elim impE exE)
  then have p: "mmap (2 ^ i) = Some p" "p \<noteq> 0" "8 dvd unat p"
    "unat p + unat (2 ^ i :: u64) < 2 ^ 64"
    "\<And>a. a \<in> live \<union> set frees \<Longrightarrow> region h a \<inter> {unat p..<unat p + unat (2 ^ i :: u64)} = {}"
    by blast+
  define h' where "h' = h\<lparr>heap_block_size := 2 ^ i, heap_block_used := 0, heap_block := p\<rparr>"
  have reg: "region h' a = region h a" for a by (simp add: h'_def region_def)
  have "entry_ok h' a" if "a \<in> live \<union> set frees" for a
  proof -
    have "entry_ok h a" using inv that by (auto simp: heap_inv_def)
    moreover have "region h a \<inter> unused h' = {}" using p(5) [OF that] by (simp add: unused_def h'_def)
    ultimately show ?thesis by (simp add: entry_ok_def reg) (simp add: h'_def)
  qed
  moreover have "block_ok h'" using p i(1,2) by (auto simp: block_ok_def h'_def)
  ultimately have "heap_inv h' live frees" using inv by (auto simp: heap_inv_def reg) (simp add: h'_def)
  moreover have "new_heap_block mmap h extra = Some (Inr h')"
    using i(4) p(1) by (simp add: new_heap_block_def h'_def)
  moreover have "unat extra \<le> unat (2 ^ i :: u64)" using i(2,3) unat_exp2 [of i, where 'a = 64] by simp
  ultimately show ?thesis by (intro exI [of _ h']) (simp add: h'_def)
qed

lemma malloc_inv:
  assumes inv: "heap_inv h live frees" and mm: "mmap_ok mmap h (live \<union> set frees)"
    and sz: "sz \<noteq> 0" "unat sz < 2 ^ 62"
  shows "\<exists>a h' frees'. malloc mmap h sz = Some (ptr_for_header a, h') \<and> a \<notin> live \<and>
    heap_inv h' (insert a live) frees' \<and> sz \<le> hdr_size h' a \<and>
    (\<forall>b\<in>live. hdr_size h' b = hdr_size h b) \<and> bytes h' = bytes h"
proof (cases "\<exists>b\<in>set frees. sz \<le> hdr_size h b")
  case True
  then obtain as b bs where f: "frees = as @ b # bs" "sz \<le> hdr_size h b" "\<forall>a\<in>set as. \<not> sz \<le> hdr_size h a"
    using split_list_first_prop [of frees "\<lambda>b. sz \<le> hdr_size h b"] by blast
  have "lpath (hdr_next h) (heap_free_list h) (as @ b # bs)" using inv f(1) by (simp add: heap_inv_def)
  then have "find_entry h sz (heap_free_list h) 0 = Some (Some (b, last (0 # as)))"
    using f(2,3) by (intro find_entry_some) (auto simp: not_le)
  then have "malloc mmap h sz = Some (ptr_for_header b, unlink h b (last (0 # as)))"
    using sz(1) unfolding malloc_def unlink_def by (simp del: last.simps)
  moreover have "heap_inv (unlink h b (last (0 # as))) (insert b live) (as @ bs)"
    using inv f(1) by (intro unlink_inv) simp
  moreover have "b \<notin> live" using inv f(1) by (auto simp: heap_inv_def)
  moreover have "hdr_size (unlink h b p) = hdr_size h" "bytes (unlink h b p) = bytes h" for p
    by (simp_all add: unlink_def)
  ultimately show ?thesis using f(2) by metis
next
  case False
  define extra where "extra = align_to_size (16 + sz) 8"
  have ex: "unat extra = extent sz" unfolding extra_def using sz(2) by (rule align_extent)
  have exb: "unat extra < 2 ^ 63" using ex extent_bounds(2) [of sz] sz(2) by simp
  have "lpath (hdr_next h) (heap_free_list h) frees" using inv by (simp add: heap_inv_def)
  then have "find_entry h sz (heap_free_list h) 0 = Some None"
    using False by (intro find_entry_none) (auto simp: not_le)
  then have eq: "malloc mmap h sz =
      (if heap_block_used h + extra > heap_block_size h
       then Option.bind (new_heap_block mmap h extra)
         (\<lambda>b. case b of Inl h \<Rightarrow> Some (0, h) | Inr h \<Rightarrow> Some (carve_entry h extra sz))
       else Some (carve_entry h extra sz))"
    using sz(1) unfolding malloc_def extra_def Let_def by simp
  have carve: "\<exists>a h' frees'. carve_entry h1 extra sz = (ptr_for_header a, h') \<and> a \<notin> live \<and>
      heap_inv h' (insert a live) frees' \<and> sz \<le> hdr_size h' a \<and>
      (\<forall>b\<in>live. hdr_size h' b = hdr_size h b) \<and> bytes h' = bytes h"
    if h1: "heap_inv h1 live frees" "hdr_size h1 = hdr_size h" "bytes h1 = bytes h"
      "unat (heap_block_used h1) + extent sz \<le> unat (heap_block_size h1)" for h1
  proof -
    obtain a h' where "carve_entry h1 extra sz = (ptr_for_header a, h')" "a \<notin> live \<union> set frees"
      "heap_inv h' (insert a live) frees" "hdr_size h' = (hdr_size h)(a := sz)" "bytes h' = bytes h"
      using carve_entry_inv [OF h1(1) sz(2) ex h1(4)] h1(2,3) by auto
    then show ?thesis by (intro exI [of _ a] exI [of _ h'] exI [of _ frees]) auto
  qed
  show ?thesis
  proof (cases "heap_block_used h + extra > heap_block_size h")
    case True
    obtain h1 where h1: "new_heap_block mmap h extra = Some (Inr h1)" "heap_inv h1 live frees"
      "hdr_size h1 = hdr_size h" "bytes h1 = bytes h" "heap_block_used h1 = 0"
      "unat extra \<le> unat (heap_block_size h1)"
      using new_heap_block_inv [OF inv mm, of extra] exb by auto
    with True carve [of h1] ex show ?thesis unfolding eq by auto
  next
    case False
    have "block_ok h" using inv by (simp add: heap_inv_def)
    then have "unat (heap_block_used h) \<le> 2 ^ 63"
    proof (cases "heap_block_size h = 0")
      case False
      with \<open>block_ok h\<close> obtain j where "j \<le> 63" "heap_block_size h = 2 ^ j"
        by (auto simp: block_ok_def)
      then have "unat (heap_block_size h) \<le> 2 ^ 63"
        using unat_exp2 [of j, where 'a = 64] power_increasing [of j 63 "2::nat"] by simp
      then show ?thesis using \<open>block_ok h\<close> by (simp add: block_ok_def word_le_nat_alt)
    qed (use \<open>block_ok h\<close> in \<open>simp add: block_ok_def\<close>)
    then have "unat (heap_block_used h + extra) = unat (heap_block_used h) + extent sz"
      using exb ex by (subst unat_add_no_wrap) simp_all
    with False have "unat (heap_block_used h) + extent sz \<le> unat (heap_block_size h)"
      by (simp add: word_less_nat_alt not_less)
    with False inv carve [of h] show ?thesis unfolding eq by auto
  qed
qed

lemma free_inv:
  assumes "heap_inv h live frees" "a \<in> live"
  shows "heap_inv (free h (ptr_for_header a)) (live - {a}) (a # frees)"
proof -
  have ok: "entry_ok h a" using assms by (simp add: heap_inv_def)
  have eq: "free h (ptr_for_header a) =
      h\<lparr>hdr_next := (hdr_next h)(a := heap_free_list h), heap_free_list := a\<rparr>"
    using ptr_for_header_unat(2) [OF ok] by (simp add: free_def Let_def)
  have "a \<notin> set frees" "a \<noteq> 0" using assms ok by (auto simp: heap_inv_def entry_ok_def)
  moreover have "live - {a} \<union> set (a # frees) = live \<union> set frees" using assms(2) by auto
  moreover have "set (a # frees) \<inter> (live - {a}) = {}" using assms(1) by (auto simp: heap_inv_def)
  ultimately show ?thesis using assms(1) unfolding eq heap_inv_def by simp
qed

lemma heap_inv_bytes [simp]: "heap_inv (h\<lparr>bytes := bs\<rparr>) live frees = heap_inv h live frees"
  by (simp add: heap_inv_def)

lemma memcpy_between_entries:
  assumes inv: "heap_inv h live frees" and ab: "a \<in> live" "b \<in> live" "a \<noteq> b"
    and n: "n \<le> hdr_size h a" "n \<le> hdr_size h b" and k: "k < n"
  shows "memcpy m (ptr_for_header b) (ptr_for_header a) n (ptr_for_header b + k) =
    m (ptr_for_header a + k)"
proof -
  have ok: "entry_ok h a" "entry_ok h b" using inv ab by (simp_all add: heap_inv_def)
  note u = ok [THEN ptr_for_header_unat(1)]
  have "region h a \<inter> region h b = {}" using inv ab by (simp add: heap_inv_def)
  moreover have "{unat a + 16..<unat a + 16 + unat n} \<subseteq> region h a"
    "{unat b + 16..<unat b + 16 + unat n} \<subseteq> region h b"
    using n by (simp_all add: payload_in_region word_le_nat_alt)
  ultimately have "{unat a + 16..<unat a + 16 + unat n} \<inter> {unat b + 16..<unat b + 16 + unat n} = {}"
    by blast
  moreover have "0 < unat n" using k by (simp add: word_less_nat_alt)
  ultimately have apart: "unat a + 16 + unat n \<le> unat b + 16 \<or> unat b + 16 + unat n \<le> unat a + 16"
    by (auto simp: disjoint_iff)
  have "unat (ptr_for_header b) + unat n < 2 ^ 64" "unat (ptr_for_header a) + unat n < 2 ^ 64"
    using ok n extent_bounds(1) [of "hdr_size h a"] extent_bounds(1) [of "hdr_size h b"]
    unfolding u by (simp_all add: entry_ok_def word_le_nat_alt)
  then have "memcpy m (ptr_for_header b) (ptr_for_header a) n =
      moved m (ptr_for_header b) (ptr_for_header a) n"
    unfolding memcpy_def by (rule memcpy_forward_moved) (use apart u in auto)
  then show ?thesis using k by (simp add: moved_def)
qed

lemma realloc_grow_inv:
  assumes inv: "heap_inv h live frees" and mm: "mmap_ok mmap h (live \<union> set frees)"
    and a: "a \<in> live" and sz: "hdr_size h a < sz" "unat sz < 2 ^ 62"
  shows "\<exists>b h' frees'. realloc mmap h (ptr_for_header a) sz = Some (ptr_for_header b, h') \<and>
    b \<notin> live \<and> heap_inv h' (insert b live - {a}) frees' \<and> sz \<le> hdr_size h' b \<and>
    (\<forall>k<hdr_size h a. bytes h' (ptr_for_header b + k) = bytes h (ptr_for_header a + k))"
proof -
  have nz: "sz \<noteq> 0" and le: "\<not> sz \<le> hdr_size h a" using sz(1) by auto
  obtain b h1 frees1 where m: "malloc mmap h sz = Some (ptr_for_header b, h1)" "b \<notin> live"
    "heap_inv h1 (insert b live) frees1" "sz \<le> hdr_size h1 b"
    "\<forall>c\<in>live. hdr_size h1 c = hdr_size h c" "bytes h1 = bytes h"
    using malloc_inv [OF inv mm nz sz(2)] by blast
  have "entry_ok h a" "entry_ok h1 b" using inv a m(3) by (simp_all add: heap_inv_def)
  note p = this [THEN ptr_for_header_unat(2)]
  let ?m = "memcpy (bytes h1) (ptr_for_header b) (ptr_for_header a) (hdr_size h a)"
  let ?h = "free (h1\<lparr>bytes := ?m\<rparr>) (ptr_for_header a)"
  have "realloc mmap h (ptr_for_header a) sz = Some (ptr_for_header b, ?h)"
    using p nz le m(1) by (simp add: realloc_def Let_def)
  moreover have "heap_inv ?h (insert b live - {a}) (a # frees1)"
    using m(3) a by (intro free_inv) simp_all
  moreover have "bytes ?h = ?m" "hdr_size ?h b = hdr_size h1 b" by (simp_all add: free_def Let_def)
  moreover have "?m (ptr_for_header b + k) = bytes h (ptr_for_header a + k)" if "k < hdr_size h a" for k
    using memcpy_between_entries [OF m(3), of a b "hdr_size h a" k "bytes h1"] a m that
      order_trans [OF less_imp_le [OF sz(1)] m(4)] by auto
  ultimately show ?thesis using m(2,4) by (metis (no_types, lifting))
qed

section \<open>The interface\<close>

text \<open>
  What clients of the heap rely on: an allocator over a state with an invariant relative
  to the set of live blocks. Every block lies inside its footprint and footprints of live
  blocks are disjoint; allocation gives a new block at least as large as asked and keeps
  the others where they are, release removes one block.
\<close>

locale allocator =
  fixes alloc :: "'h \<Rightarrow> u64 \<Rightarrow> (u64 \<times> 'h) option"
    and release :: "'h \<Rightarrow> u64 \<Rightarrow> 'h"
    and footprint :: "'h \<Rightarrow> u64 \<Rightarrow> nat set"
    and invar :: "'h \<Rightarrow> u64 set \<Rightarrow> bool"
    and ready :: "'h \<Rightarrow> u64 set \<Rightarrow> bool"
  assumes alloc_spec: "invar h live \<Longrightarrow> ready h live \<Longrightarrow> sz \<noteq> 0 \<Longrightarrow> unat sz < 2 ^ 62 \<Longrightarrow>
      \<exists>p h'. alloc h sz = Some (p, h') \<and> p \<noteq> 0 \<and> p \<notin> live \<and> invar h' (insert p live) \<and>
        {unat p..<unat p + unat sz} \<subseteq> footprint h' p \<and>
        (\<forall>q\<in>live. footprint h' q = footprint h q)"
    and release_spec: "invar h live \<Longrightarrow> p \<in> live \<Longrightarrow> invar (release h p) (live - {p}) \<and>
        (\<forall>q\<in>live. footprint (release h p) q = footprint h q)"
    and live_disjoint: "invar h live \<Longrightarrow> p \<in> live \<Longrightarrow> q \<in> live \<Longrightarrow> p \<noteq> q \<Longrightarrow>
        footprint h p \<inter> footprint h q = {}"
begin

lemma alloc_fresh:
  assumes "invar h live" "ready h live" "sz \<noteq> 0" "unat sz < 2 ^ 62"
  shows "\<exists>p h'. alloc h sz = Some (p, h') \<and> p \<noteq> 0 \<and> p \<notin> live \<and> invar h' (insert p live) \<and>
    (\<forall>q\<in>live. {unat p..<unat p + unat sz} \<inter> footprint h' q = {} \<and> footprint h' q = footprint h q)"
proof -
  obtain p h' where a: "alloc h sz = Some (p, h')" "p \<noteq> 0" "p \<notin> live" "invar h' (insert p live)"
    "{unat p..<unat p + unat sz} \<subseteq> footprint h' p" "\<forall>q\<in>live. footprint h' q = footprint h q"
    using alloc_spec [OF assms] by blast
  have "{unat p..<unat p + unat sz} \<inter> footprint h' q = {}" if "q \<in> live" for q
    using live_disjoint [OF a(4), of p q] a(3,5) that by auto
  with a show ?thesis by blast
qed

lemma release_then_alloc:
  assumes "invar h live" "p \<in> live" "ready (release h p) (live - {p})" "sz \<noteq> 0" "unat sz < 2 ^ 62"
  shows "\<exists>q h'. alloc (release h p) sz = Some (q, h') \<and> invar h' (insert q (live - {p}))"
  using alloc_fresh [OF _ assms(3-5)] release_spec [OF assms(1,2)] by blast

end

definition live_blocks :: "heap \<Rightarrow> u64 set \<Rightarrow> bool" where
  "live_blocks h live \<longleftrightarrow> (\<exists>headers frees. heap_inv h headers frees \<and> live = ptr_for_header ` headers)"

definition block_bytes :: "heap \<Rightarrow> u64 \<Rightarrow> nat set" where
  "block_bytes h p = region h (header_for_ptr p)"

definition mmap_ready :: "mmap_fun \<Rightarrow> heap \<Rightarrow> u64 set \<Rightarrow> bool" where
  "mmap_ready mmap h live \<longleftrightarrow>
     (\<forall>headers frees. heap_inv h headers frees \<and> live = ptr_for_header ` headers \<longrightarrow>
        mmap_ok mmap h (headers \<union> set frees))"

lemma ptr_for_header_inj: "inj ptr_for_header"
  by (rule injI) (simp add: ptr_for_header_def)

interpretation al: allocator "malloc mmap" free block_bytes live_blocks "mmap_ready mmap" for mmap
proof
  fix h live sz
  assume "live_blocks h live" and ready: "mmap_ready mmap h live"
    and sz: "sz \<noteq> (0 :: u64)" "unat sz < 2 ^ 62"
  then obtain headers frees where h: "heap_inv h headers frees" "live = ptr_for_header ` headers"
    by (auto simp: live_blocks_def)
  have "mmap_ok mmap h (headers \<union> set frees)" using ready h by (simp add: mmap_ready_def)
  from malloc_inv [OF h(1) this sz] obtain a h' frees' where m:
    "malloc mmap h sz = Some (ptr_for_header a, h')" "a \<notin> headers"
    "heap_inv h' (insert a headers) frees'" "sz \<le> hdr_size h' a"
    "\<forall>b\<in>headers. hdr_size h' b = hdr_size h b" by blast
  have ok: "entry_ok h' a" using m(3) by (simp add: heap_inv_def)
  let ?p = "ptr_for_header a"
  have "?p \<notin> live" using m(2) h(2) ptr_for_header_inj by (auto dest: injD)
  moreover have "live_blocks h' (insert ?p live)"
    unfolding live_blocks_def using m(3) h(2) by (intro exI [of _ "insert a headers"]) auto
  moreover have "{unat ?p..<unat ?p + unat sz} \<subseteq> block_bytes h' ?p"
    using payload_in_region [of sz h' a] m(4) ptr_for_header_unat(1) [OF ok]
    by (simp add: block_bytes_def word_le_nat_alt)
  moreover have "\<forall>q\<in>live. block_bytes h' q = block_bytes h q"
    using m(5) h(2) by (auto simp: block_bytes_def region_def)
  ultimately show "\<exists>p h'. malloc mmap h sz = Some (p, h') \<and> p \<noteq> 0 \<and> p \<notin> live \<and>
      live_blocks h' (insert p live) \<and> {unat p..<unat p + unat sz} \<subseteq> block_bytes h' p \<and>
      (\<forall>q\<in>live. block_bytes h' q = block_bytes h q)"
    using m(1) ptr_for_header_unat(2) [OF ok] by blast
next
  fix h live p
  assume "live_blocks h live" "p \<in> live"
  then obtain headers frees a where h: "heap_inv h headers frees" "live = ptr_for_header ` headers"
    "a \<in> headers" "p = ptr_for_header a"
    by (auto simp: live_blocks_def)
  have "live - {p} = ptr_for_header ` (headers - {a})"
    using h(2,4) ptr_for_header_inj by (auto dest: injD)
  then have "live_blocks (free h p) (live - {p})"
    using free_inv [OF h(1,3)] h(4) by (auto simp: live_blocks_def)
  moreover have "block_bytes (free h p) q = block_bytes h q" for q
    by (simp add: block_bytes_def region_def free_def Let_def)
  ultimately show "live_blocks (free h p) (live - {p}) \<and>
      (\<forall>q\<in>live. block_bytes (free h p) q = block_bytes h q)" by simp
next
  fix h live p q
  assume "live_blocks h live" "p \<in> live" "q \<in> live" "p \<noteq> (q :: u64)"
  then obtain headers frees a b where "heap_inv h headers frees" "a \<in> headers" "b \<in> headers"
    "a \<noteq> b" "p = ptr_for_header a" "q = ptr_for_header b"
    by (auto simp: live_blocks_def)
  then show "block_bytes h p \<inter> block_bytes h q = {}"
    unfolding heap_inv_def by (simp add: block_bytes_def)
qed

section \<open>Properties\<close>


definition empty_heap :: heap where
  "empty_heap = \<lparr>hdr_size = (\<lambda>_. 0), hdr_next = (\<lambda>_. 0), heap_free_list = 0, heap_block = 0,
     heap_block_used = 0, heap_block_size = 0, bytes = (\<lambda>_. 0)\<rparr>"

lemma lpath_zero: "lpath nx 0 as \<longleftrightarrow> as = []"
  by (cases as) auto

lemma empty_heap_live: "live_blocks empty_heap {}"
  unfolding live_blocks_def
  by (intro exI [of _ "{}"] exI [of _ "[]"]) (simp add: heap_inv_def block_ok_def empty_heap_def)

lemma empty_heap_inv: "heap_inv empty_heap headers frees \<Longrightarrow> frees = []"
  by (simp add: heap_inv_def empty_heap_def lpath_zero)

lemma empty_heap_ready: "mmap_ready (\<lambda>_. Some 4096) empty_heap {}"
  by (auto simp: mmap_ready_def mmap_ok_def dest: empty_heap_inv)



definition one_block_heap :: heap where
  "one_block_heap = snd (carve_entry (empty_heap\<lparr>heap_block_size := 32768, heap_block := 4096\<rparr>) 120 100)"

lemma one_block_heap_live: "live_blocks one_block_heap {4112}"
proof -
  have "heap_inv one_block_heap {4096} []"
    by (simp add: heap_inv_def one_block_heap_def carve_entry_def empty_heap_def Let_def block_ok_def
        entry_ok_def region_def unused_def extent_def) (rule exI [of _ 15], simp)
  then show ?thesis by (auto simp: live_blocks_def ptr_for_header_def)
qed

lemma one_block_heap_ready: "mmap_ready (\<lambda>_. Some 65536) one_block_heap {4112}"
proof -
  have "mmap_ok (\<lambda>_. Some 65536) one_block_heap (headers \<union> set frees)"
    if "heap_inv one_block_heap headers frees" "{4112} = ptr_for_header ` headers" for headers frees
  proof -
    have "frees = []" using that(1)
      by (simp add: heap_inv_def one_block_heap_def carve_entry_def empty_heap_def Let_def lpath_zero)
    moreover have "headers = {4096}"
    proof -
      have "headers = header_for_ptr ` ptr_for_header ` headers" by (simp add: image_image)
      also have "\<dots> = {4096}" unfolding that(2) [symmetric] by (simp add: header_for_ptr_def)
      finally show ?thesis .
    qed
    ultimately show ?thesis
      by (auto simp: mmap_ok_def region_def one_block_heap_def carve_entry_def empty_heap_def
          Let_def extent_def)
  qed
  then show ?thesis by (simp add: mmap_ready_def)
qed



end
