(* ===== verification/Naive_Strings.thy ===== *)
theory Naive_Strings
  imports Naive_Prelude
begin

text \<open>
  Counted strings (\<^verbatim>\<open>src/src/strings.h\<close>, \<^verbatim>\<open>src/src/strings.c\<close>) and the integer
  conversions of the format strings the program prints with.

  A valid \<^verbatim>\<open>String\<close> is the list of its \<^verbatim>\<open>len\<close> characters, an \<^verbatim>\<open>INVALID_STRING\<close> is
  \<open>None\<close> where the code passes one. The comparison goes through \<^verbatim>\<open>strncmp\<close>, which stops
  at a zero character: two strings that agree up to a common zero are equal for
  \<^verbatim>\<open>string_eq\<close>. Source text and identifiers hold no zero characters, and on those the
  test is equality.
\<close>

section \<open>Operations\<close>

definition is_valid :: "string option \<Rightarrow> bool" where
  "is_valid str = (str \<noteq> None)"

fun strneq :: "string \<Rightarrow> string \<Rightarrow> nat \<Rightarrow> bool" where
  "strneq (a # as) (b # bs) (Suc n) =
     (if a \<noteq> b then False else if a = CHR 0x00 then True else strneq as bs n)"
| "strneq _ _ _ = True"

definition string_eq :: "string \<Rightarrow> string \<Rightarrow> bool" where
  "string_eq a b = (if length a \<noteq> length b then False else strneq a b (length a))"

text \<open>
  \<^verbatim>\<open>string_concat\<close> computes the length at 32 bits: the characters past a wrapped length
  are written outside the allocation, which is \<open>None\<close> here.
\<close>

definition string_concat :: "string \<Rightarrow> string \<Rightarrow> string option" where
  "string_concat str_a str_b =
     (let result_length = of_nat (length str_a) + of_nat (length str_b) :: u32 in
      if unat result_length = length str_a + length str_b then Some (str_a @ str_b) else None)"

definition string_dup :: "string \<Rightarrow> string" where
  "string_dup str = str"

definition string_to_c_string :: "string \<Rightarrow> string" where
  "string_to_c_string str = str @ [CHR 0x00]"

section \<open>Integer conversions\<close>

text \<open>
  The digits of a number in a base from 2 to 16, most significant first: \<^verbatim>\<open>%u\<close> and
  \<^verbatim>\<open>%lu\<close> print \<open>digits 10\<close>, \<^verbatim>\<open>%x\<close> prints \<open>digits 16\<close>, \<^verbatim>\<open>%d\<close> and its 64-bit form put a
  minus sign before the digits of a negative number.
\<close>

definition digit_char :: "nat \<Rightarrow> char" where
  "digit_char d = char_of (if d < 10 then 48 + d else 87 + d)"

fun digits :: "nat \<Rightarrow> nat \<Rightarrow> string" where
  "digits b n =
     (if b < 2 then [] else if n < b then [digit_char n]
      else digits b (n div b) @ [digit_char (n mod b)])"

declare digits.simps [simp del]

definition fmt_u :: "'a::len word \<Rightarrow> string" where
  "fmt_u w = digits 10 (unat w)"

definition fmt_x :: "'a::len word \<Rightarrow> string" where
  "fmt_x w = digits 16 (unat w)"

definition fmt_d :: "'a::len word \<Rightarrow> string" where
  "fmt_d w = (if sint w < 0 then CHR ''-'' # digits 10 (nat (- sint w)) else digits 10 (nat (sint w)))"

section \<open>Equality of strings\<close>

lemma strneq_iff:
  "length a = length b \<Longrightarrow> CHR 0x00 \<notin> set a \<Longrightarrow> strneq a b (length a) \<longleftrightarrow> a = b"
  by (induction a b rule: list_induct2) auto

lemma string_eq_iff: "CHR 0x00 \<notin> set a \<Longrightarrow> string_eq a b \<longleftrightarrow> a = b"
  using strneq_iff [of a b] by (auto simp: string_eq_def)

lemma strneq_refl [simp]: "strneq a a n"
proof (induction a arbitrary: n)
  case (Cons c a)
  then show ?case by (cases n) auto
qed simp

lemma string_eq_refl [simp]: "string_eq a a"
  by (simp add: string_eq_def)

lemma strneq_sym: "length a = length b \<Longrightarrow> strneq a b n = strneq b a n"
  by (induction a b arbitrary: n rule: list_induct2) (simp, case_tac n, auto)

lemma string_eq_sym: "string_eq a b = string_eq b a"
  using strneq_sym [of a b] by (auto simp: string_eq_def)

lemma strneq_trans:
  "length a = length b \<Longrightarrow> length b = length c \<Longrightarrow> strneq a b n \<Longrightarrow> strneq b c n \<Longrightarrow> strneq a c n"
  by (induction a b c arbitrary: n rule: list_induct3)
    (simp, case_tac n, auto split: if_splits)

lemma string_eq_trans: "string_eq a b \<Longrightarrow> string_eq b c \<Longrightarrow> string_eq a c"
  using strneq_trans [of a b c] by (auto simp: string_eq_def split: if_splits)

section \<open>Digits\<close>

definition digit_val :: "char \<Rightarrow> nat" where
  "digit_val c = (if of_char c < (58::nat) then of_char c - 48 else of_char c - 87)"

definition digits_value :: "nat \<Rightarrow> string \<Rightarrow> nat" where
  "digits_value b s = foldl (\<lambda>acc c. acc * b + digit_val c) 0 s"

lemma digit_val_char [simp]: "d < 16 \<Longrightarrow> digit_val (digit_char d) = d"
  by (auto simp: digit_val_def digit_char_def)

lemma digits_value_digits: "2 \<le> b \<Longrightarrow> b \<le> 16 \<Longrightarrow> digits_value b (digits b n) = n"
proof (induction b n rule: digits.induct)
  case (1 b n)
  show ?case
  proof (cases "n < b")
    case True
    then show ?thesis using 1 by (subst digits.simps) (simp add: digits_value_def)
  next
    case False
    have "digits_value b (digits b (n div b)) = n div b" using 1 False by simp
    moreover have "n mod b < 16" using 1(2,3) by (meson less_le_trans mod_less_divisor zero_less_numeral)
    ultimately show ?thesis
      using 1(2,3) False by (subst digits.simps) (simp add: digits_value_def)
  qed
qed

lemma digits_inject: "2 \<le> b \<Longrightarrow> b \<le> 16 \<Longrightarrow> digits b m = digits b n \<longleftrightarrow> m = n"
  by (metis digits_value_digits)

lemma digits_not_Nil [simp]: "2 \<le> b \<Longrightarrow> digits b n \<noteq> []"
  by (subst digits.simps) simp

definition decimal :: "char \<Rightarrow> bool" where
  "decimal c = (48 \<le> (of_char c :: nat) \<and> (of_char c :: nat) < 58)"

lemma digit_char_decimal: "d < 10 \<Longrightarrow> decimal (digit_char d)"
  by (simp add: decimal_def digit_char_def)

lemma digits_decimal: "c \<in> set (digits 10 n) \<Longrightarrow> decimal c"
proof (induction "10::nat" n rule: digits.induct)
  case (1 n)
  have "digits 10 n = (if n < 10 then [digit_char n] else digits 10 (n div 10) @ [digit_char (n mod 10)])"
    by (subst digits.simps) simp
  then show ?case using 1 by (auto simp: digit_char_decimal split: if_splits)
qed

text \<open>A decimal number followed by something that is no digit is read back uniquely.\<close>

lemma decimal_append_inject:
  assumes "\<forall>c\<in>set a. decimal c" "\<forall>c\<in>set b. decimal c"
    and "s = [] \<or> \<not> decimal (hd s)" "t = [] \<or> \<not> decimal (hd t)"
    and "a @ s = b @ t"
  shows "a = b \<and> s = t"
proof -
  have take: "takeWhile decimal (x @ y) = x" if "\<forall>c\<in>set x. decimal c" "y = [] \<or> \<not> decimal (hd y)" for x y
    using that by (cases y) (auto simp: takeWhile_append2)
  have "a = b" using assms take by metis
  then show ?thesis using assms by simp
qed

lemma digits_append_inject:
  assumes "s = [] \<or> \<not> decimal (hd s)" "t = [] \<or> \<not> decimal (hd t)"
  shows "digits 10 m @ s = digits 10 n @ t \<longleftrightarrow> m = n \<and> s = t"
  using decimal_append_inject [of "digits 10 m" "digits 10 n" s t] assms
  by (auto simp: digits_decimal digits_inject)

end
