(* ===== verification/Naive_IR_Types.thy ===== *)
theory Naive_IR_Types
  imports Naive_Strings
begin

text \<open>
  The types of the intermediate representation (\<^verbatim>\<open>IrType\<close> of \<^verbatim>\<open>src/src/ir.h\<close>) with
  their equality, size and alignment and their printed form (\<^verbatim>\<open>src/src/ir.c\<close>).

  An \<^verbatim>\<open>IrType\<close> is passed by value and the types it points to are never changed once
  they are reachable, so it is a tree. The arity of a function type is the length of its
  list of argument types, the number of fields of a structure that of its field list.
\<close>

section \<open>Types\<close>

datatype ir_float_bits = IR_FLOAT_32 | IR_FLOAT_64 | IR_FLOAT_80

fun float_bits :: "ir_float_bits \<Rightarrow> u32" where
  "float_bits IR_FLOAT_32 = 32"
| "float_bits IR_FLOAT_64 = 64"
| "float_bits IR_FLOAT_80 = 80"

datatype ir_type =
    IR_VOID
  | IR_INT (bit_width: u8)
  | IR_FLOAT ir_float_bits
  | IR_POINTER
  | IR_ARRAY (elem_type: ir_type) (array_size: u64)
  | IR_FUNCTION (return_type: ir_type) (arg_types: "ir_type list") (variable_arity: bool)
  | IR_STRUCT (struct_name: string) (struct_fields: "(ir_type \<times> u32) list") (total_size: u32) (alignment: u8)

fun ir_type_eq :: "ir_type \<Rightarrow> ir_type \<Rightarrow> bool" where
  "ir_type_eq (IR_INT v) (IR_INT w) = (v = w)"
| "ir_type_eq (IR_FLOAT v) (IR_FLOAT w) = (v = w)"
| "ir_type_eq IR_VOID IR_VOID = True"
| "ir_type_eq IR_POINTER IR_POINTER = True"
| "ir_type_eq (IR_FUNCTION _ _ _) (IR_FUNCTION _ _ _) = True"
| "ir_type_eq (IR_STRUCT m _ _ _) (IR_STRUCT n _ _ _) = string_eq m n"
| "ir_type_eq (IR_ARRAY s m) (IR_ARRAY t n) = (ir_type_eq s t \<and> m = n)"
| "ir_type_eq _ _ = False"

text \<open>
  Sizes are 32-bit: the product for an array is taken at 64 bits and then truncated. The
  size of \<^verbatim>\<open>void\<close> and of an array of no elements stops the compiler.
\<close>

fun size_of_ir_type :: "ir_type \<Rightarrow> u32 res" where
  "size_of_ir_type (IR_INT w) = Inr (ucast (w div 8))"
| "size_of_ir_type (IR_FLOAT w) = Inr (if float_bits w = 80 then 16 else float_bits w div 8)"
| "size_of_ir_type IR_POINTER = Inr 8"
| "size_of_ir_type (IR_FUNCTION _ _ _) = Inr 8"
| "size_of_ir_type (IR_STRUCT _ _ sz _) = Inr sz"
| "size_of_ir_type (IR_ARRAY t n) =
     (if n = 0 then ice else rbind (size_of_ir_type t) (\<lambda>s. Inr (ucast (n * ucast s))))"
| "size_of_ir_type IR_VOID = ice"

fun align_of_ir_type :: "ir_type \<Rightarrow> u32 res" where
  "align_of_ir_type (IR_STRUCT _ _ _ a) = Inr (ucast a)"
| "align_of_ir_type (IR_ARRAY t _) = align_of_ir_type t"
| "align_of_ir_type t = size_of_ir_type t"

text \<open>What \<^verbatim>\<open>dump_ir_type\<close> writes to the standard output.\<close>

fun dump_ir_type :: "ir_type \<Rightarrow> string" and dump_arg_types :: "ir_type list \<Rightarrow> string" where
  "dump_ir_type IR_VOID = ''void''"
| "dump_ir_type (IR_INT w) = ''i'' @ fmt_u w"
| "dump_ir_type (IR_FLOAT w) = ''f'' @ fmt_u (float_bits w)"
| "dump_ir_type IR_POINTER = ''*''"
| "dump_ir_type (IR_FUNCTION r as va) =
     ''('' @ dump_arg_types as @ (if va then '', ...'' else []) @ '') -> '' @ dump_ir_type r"
| "dump_ir_type (IR_STRUCT n _ _ _) = ''$'' @ n"
| "dump_ir_type (IR_ARRAY t n) = ''['' @ fmt_u n @ '' x '' @ dump_ir_type t @ '']''"
| "dump_arg_types [] = []"
| "dump_arg_types (t # ts) = dump_ir_type t @ (if ts \<noteq> [] then '', '' else []) @ dump_arg_types ts"

section \<open>Equality of types\<close>

lemma ir_type_eq_refl [simp]: "ir_type_eq t t"
  by (induction t) auto

lemma ir_type_eq_sym: "ir_type_eq s t = ir_type_eq t s"
  by (induction s t rule: ir_type_eq.induct) (auto simp: string_eq_sym)

lemma ir_type_eq_trans: "ir_type_eq s t \<Longrightarrow> ir_type_eq t u \<Longrightarrow> ir_type_eq s u"
proof (induction s t arbitrary: u rule: ir_type_eq.induct)
  case (6 m f a b n g c d)
  then show ?case by (cases u) (auto intro: string_eq_trans)
next
  case (7 s m t n)
  then show ?case by (cases u) auto
qed (case_tac u; simp)+

text \<open>Structures by name: equal types without structures have one size and alignment.\<close>

fun struct_free :: "ir_type \<Rightarrow> bool" where
  "struct_free (IR_STRUCT _ _ _ _) = False"
| "struct_free (IR_ARRAY t _) = struct_free t"
| "struct_free _ = True"

lemma ir_type_eq_size: "ir_type_eq s t \<Longrightarrow> struct_free s \<Longrightarrow> size_of_ir_type s = size_of_ir_type t"
  by (induction s t rule: ir_type_eq.induct) auto

lemma ir_type_eq_align: "ir_type_eq s t \<Longrightarrow> struct_free s \<Longrightarrow> align_of_ir_type s = align_of_ir_type t"
  by (induction s t rule: ir_type_eq.induct) (auto simp: ir_type_eq_size)

section \<open>Sizes\<close>

text \<open>
  A type is sized when it contains no \<^verbatim>\<open>void\<close>, every array in it has elements, scalars
  have whole bytes, and a structure is a multiple of its alignment. Its size in bytes is
  computed over the natural numbers.
\<close>

fun sized :: "ir_type \<Rightarrow> bool" where
  "sized IR_VOID = False"
| "sized (IR_INT w) = (w \<in> {8, 16, 32, 64})"
| "sized (IR_ARRAY t n) = (n \<noteq> 0 \<and> sized t)"
| "sized (IR_STRUCT _ _ sz a) = (a \<noteq> 0 \<and> unat a dvd unat sz)"
| "sized _ = True"

fun byte_size :: "ir_type \<Rightarrow> nat" where
  "byte_size (IR_INT w) = unat w div 8"
| "byte_size (IR_FLOAT w) = (if w = IR_FLOAT_80 then 16 else unat (float_bits w) div 8)"
| "byte_size (IR_STRUCT _ _ sz _) = unat sz"
| "byte_size (IR_ARRAY t n) = unat n * byte_size t"
| "byte_size _ = 8"

lemma size_of_sized:
  "sized t \<Longrightarrow> byte_size t < 2 ^ 32 \<Longrightarrow> \<exists>s. size_of_ir_type t = Inr s \<and> unat s = byte_size t"
proof (induction t)
  case (IR_INT w)
  then show ?case by auto
next
  case (IR_FLOAT w)
  then show ?case by (cases w) auto
next
  case (IR_ARRAY t n)
  have "byte_size t \<le> unat n * byte_size t" using IR_ARRAY.prems by (cases "unat n") (auto simp: unat_eq_zero)
  then have lt: "byte_size t < 2 ^ 32" using IR_ARRAY.prems(2) by (metis byte_size.simps(4) le_less_trans)
  then obtain s where s: "size_of_ir_type t = Inr s" "unat s = byte_size t"
    using IR_ARRAY by auto
  have "unat (n * ucast s) = unat n * byte_size t"
    using IR_ARRAY.prems(2) s(2) by (subst unat_mult_no_wrap) (simp_all add: unat_ucast_up)
  then have "unat (ucast (n * ucast s) :: u32) = byte_size (IR_ARRAY t n)"
    using IR_ARRAY.prems(2) by (simp add: unsigned_ucast_eq take_bit_nat_eq_self)
  then show ?case using IR_ARRAY.prems(1) s by simp
qed auto

lemma align_of_sized:
  "sized t \<Longrightarrow> \<exists>a. align_of_ir_type t = Inr a \<and> a \<noteq> 0 \<and> unat a dvd byte_size t"
proof (induction t)
  case (IR_INT w)
  then show ?case by auto
next
  case (IR_FLOAT w)
  then show ?case by (cases w) auto
next
  case (IR_STRUCT n fs sz a)
  have u: "unat (ucast a :: u32) = unat a" by (rule unat_ucast_up) simp
  then have "(ucast a :: u32) \<noteq> 0" using IR_STRUCT.prems by (auto simp: unat_eq_zero dest: arg_cong [of _ _ unat])
  then show ?case using IR_STRUCT.prems u by simp
qed auto

section \<open>The printed form\<close>

text \<open>
  Printing tells apart the types that \<^verbatim>\<open>ir_type_eq\<close> tells apart, for types that hold no
  function type (all function types are equal) and whose structure names hold neither a
  zero character nor a closing bracket.
\<close>

fun plain :: "ir_type \<Rightarrow> bool" where
  "plain (IR_FUNCTION _ _ _) = False"
| "plain (IR_STRUCT n _ _ _) = (CHR 0x00 \<notin> set n \<and> CHR '']'' \<notin> set n)"
| "plain (IR_ARRAY t _) = plain t"
| "plain _ = True"

definition ends_type :: "string \<Rightarrow> bool" where
  "ends_type s = (s = [] \<or> hd s = CHR '']'')"

lemma ends_type_not_decimal: "ends_type s \<Longrightarrow> s = [] \<or> \<not> decimal (hd s)"
  by (auto simp: ends_type_def decimal_def)

lemma name_append_inject:
  assumes "CHR '']'' \<notin> set m" "CHR '']'' \<notin> set n" "ends_type s" "ends_type t" "m @ s = n @ t"
  shows "m = n \<and> s = t"
proof -
  have take: "takeWhile (\<lambda>c. c \<noteq> CHR '']'') (x @ y) = x" if "CHR '']'' \<notin> set x" "ends_type y" for x y
    using that by (induction x) (cases y; auto simp: ends_type_def)+
  have "m = n" using assms take by metis
  then show ?thesis using assms by simp
qed

lemma fmt_u_append_inject:
  "s = [] \<or> \<not> decimal (hd s) \<Longrightarrow> t = [] \<or> \<not> decimal (hd t) \<Longrightarrow>
   fmt_u v @ s = fmt_u w @ t \<longleftrightarrow> v = w \<and> s = t"
  by (simp add: fmt_u_def digits_append_inject word_unat_eq_iff)

lemma float_bits_inject [simp]: "float_bits v = float_bits w \<longleftrightarrow> v = w"
  by (cases v; cases w) auto

lemmas fmt_u_ends = fmt_u_append_inject [OF ends_type_not_decimal ends_type_not_decimal]

lemma dump_append_inject:
  "plain a \<Longrightarrow> plain b \<Longrightarrow> ends_type s \<Longrightarrow> ends_type t \<Longrightarrow>
   dump_ir_type a @ s = dump_ir_type b @ t \<longleftrightarrow> ir_type_eq a b \<and> s = t"
proof (induction a arbitrary: b s t)
  case IR_VOID
  then show ?case by (cases b) auto
next
  case (IR_INT w)
  then show ?case by (cases b) (auto simp: fmt_u_ends)
next
  case (IR_FLOAT w)
  then show ?case by (cases b) (auto simp: fmt_u_ends)
next
  case IR_POINTER
  then show ?case by (cases b) auto
next
  case (IR_STRUCT m fs sz al)
  then show ?case
    by (cases b) (auto simp: string_eq_iff dest: name_append_inject)
next
  case (IR_ARRAY u n)
  show ?case
  proof (cases b)
    case (IR_ARRAY v k)
    have nd: "'' x '' @ r = [] \<or> \<not> decimal (hd ('' x '' @ r))" for r by (simp add: decimal_def)
    have "dump_ir_type u @ '']'' @ s = dump_ir_type v @ '']'' @ t \<longleftrightarrow> ir_type_eq u v \<and> '']'' @ s = '']'' @ t"
      using IR_ARRAY IR_ARRAY.prems IR_ARRAY.IH [of v "'']'' @ s" "'']'' @ t"]
      by (simp add: ends_type_def)
    then show ?thesis
      using IR_ARRAY fmt_u_append_inject [OF nd nd, of n "dump_ir_type u @ '']'' @ s" k "dump_ir_type v @ '']'' @ t"]
      by auto
  qed auto
qed auto

section \<open>Properties\<close>

text \<open>
  \<^verbatim>\<open>ir_type_eq\<close> is an equivalence relation on IR types.
\<close>

theorem ir_type_eq_equivalence: "equivp ir_type_eq"
  by (rule equivpI)
    (auto simp: reflp_def symp_def transp_def intro: ir_type_eq_trans simp: ir_type_eq_sym)





end
