(* ===== verification/Naive_IR.thy ===== *)
theory Naive_IR
  imports Naive_IR_Types "HOL-Library.Signed_Division" "HOL-Library.Multiset"
begin

text \<open>
  The intermediate representation (\<^verbatim>\<open>src/src/ir.h\<close>, \<^verbatim>\<open>src/src/ir.c\<close>): modules, globals,
  constants, functions, blocks and instructions, the builder that appends instructions to
  the current block, and the constant folding it does on the way.

  The objects the code allocates from the module's pool and refers to by pointer live in
  stores, a pointer is an index: instructions in \<open>instr_heap\<close>, blocks in \<open>block_heap\<close>,
  globals in \<open>globals\<close> (the code never removes or moves one), structure types in \<open>types\<close>.
  A function body is stored in the initializer of its global. A \<^verbatim>\<open>double\<close> is the 64-bit
  pattern of its IEEE representation.
\<close>

section \<open>Double precision numbers\<close>

definition f64_is_nan :: "u64 \<Rightarrow> bool" where
  "f64_is_nan x = (take_bit 63 x > 0x7FF0000000000000)"

definition f64_key :: "u64 \<Rightarrow> int" where
  "f64_key x = (if bit x 63 then - uint (take_bit 63 x) else uint (take_bit 63 x))"

definition f64_eq :: "u64 \<Rightarrow> u64 \<Rightarrow> bool" where
  "f64_eq x y = (\<not> f64_is_nan x \<and> \<not> f64_is_nan y \<and> f64_key x = f64_key y)"

definition f64_lt :: "u64 \<Rightarrow> u64 \<Rightarrow> bool" where
  "f64_lt x y = (\<not> f64_is_nan x \<and> \<not> f64_is_nan y \<and> f64_key x < f64_key y)"

text \<open>The conversion of an unsigned integer, to the nearest, ties to even.\<close>

fun top_bit :: "nat \<Rightarrow> nat" where
  "top_bit n = (if n < 2 then 0 else Suc (top_bit (n div 2)))"

declare top_bit.simps [simp del]

definition f64_of_u64 :: "u64 \<Rightarrow> u64" where
  "f64_of_u64 x =
     (if x = 0 then 0
      else let n = unat x; e = top_bit n in
        if e \<le> 52 then of_nat ((1023 + e) * 2 ^ 52 + (n * 2 ^ (52 - e) - 2 ^ 52))
        else let s = e - 52; q = n div 2 ^ s; r = n mod 2 ^ s;
                 q = (if 2 * r > 2 ^ s \<or> 2 * r = 2 ^ s \<and> odd q then q + 1 else q)
             in of_nat ((1023 + e) * 2 ^ 52 + (q - 2 ^ 52)))"

section \<open>Values, instructions, modules\<close>

type_synonym block_ref = nat
type_synonym instr_ref = nat
type_synonym global_ref = nat

datatype ir_value_kind =
    IR_VALUE_CONST_INT u64
  | IR_VALUE_CONST_FLOAT u64
  | IR_VALUE_ARG u32
  | IR_VALUE_INSTR instr_ref
  | IR_VALUE_GLOBAL global_ref

record ir_value =
  vtype :: ir_type
  vkind :: ir_value_kind

datatype ir_op =
    OP_INVALID | OP_BIT_XOR | OP_BIT_OR | OP_BIT_AND | OP_BIT_NOT | OP_NEG | OP_SHL | OP_SHR
  | OP_MUL | OP_DIV | OP_MOD | OP_ADD | OP_SUB | OP_CMP | OP_ADDF | OP_CMPF | OP_CALL | OP_CAST
  | OP_ZEXT | OP_SEXT | OP_TRUNC | OP_EXTF | OP_TRUNCF | OP_SINT_TO_FLOAT | OP_UINT_TO_FLOAT
  | OP_FLOAT_TO_SINT | OP_FIELD | OP_LOAD | OP_STORE | OP_LOCAL | OP_RET | OP_RET_VOID | OP_JUMP
  | OP_COND | OP_PHI | OP_BUILTIN_VA_START

datatype ir_cmp =
    CMP_EQ | CMP_NEQ | CMP_SGT | CMP_SGTE | CMP_SLT | CMP_SLTE | CMP_UGT | CMP_UGTE | CMP_ULT
  | CMP_ULTE

record ir_phi_param =
  param_block :: block_ref
  param_value :: ir_value

text \<open>The union of \<^verbatim>\<open>IrInstr\<close>. The parameters of a phi are not initialised at first.\<close>

datatype ir_operands =
    No_Operand
  | Arg ir_value
  | Binary_Op ir_value ir_value
  | Cmp_Args ir_value ir_value ir_cmp
  | Field_Of ir_value ir_type u32
  | Load_From ir_value ir_type
  | Call_Of ir_value "ir_value list" ir_type
  | Cond_On ir_value block_ref block_ref
  | Target_Block block_ref
  | Local_Of ir_type u32
  | Phi_Params "ir_phi_param option list"

record ir_instr =
  instr_id :: u32
  itype :: ir_type
  iop :: ir_op
  vreg_number :: u32
  operands :: ir_operands

record ir_block =
  block_id :: u32
  block_name :: string
  instrs :: "instr_ref list"

record ir_function =
  blocks :: "block_ref list"
  curr_instr_id :: u32

datatype ir_const =
    Int_Const (const_type: ir_type) u64
  | Float_Const (const_type: ir_type) u64
  | Global_Const (const_type: ir_type) "global_ref option"
  | Array_Const (const_type: ir_type) "ir_const option list"
  | Struct_Const (const_type: ir_type) "ir_const option list"
  | Function_Const (const_type: ir_type) ir_function

datatype ir_linkage = IR_GLOBAL_LINKAGE | IR_LOCAL_LINKAGE

record ir_global =
  global_name :: string
  gtype :: ir_type
  linkage :: ir_linkage
  initializer :: "ir_const option"

record ir_module =
  globals :: "ir_global list"
  types :: "ir_type list"
  block_heap :: "ir_block list"
  instr_heap :: "ir_instr list"

record ir_builder =
  module :: ir_module
  current_function :: "global_ref option"
  current_block :: "block_ref option"

section \<open>Modules\<close>

definition ir_module_init :: ir_module where
  "ir_module_init = \<lparr>globals = [], types = [], block_heap = [], instr_heap = []\<rparr>"

definition block_init :: "string \<Rightarrow> u32 \<Rightarrow> ir_block" where
  "block_init name i = \<lparr>block_id = i, block_name = name, instrs = []\<rparr>"

text \<open>The body of a function, the member \<^verbatim>\<open>function\<close> of its initializer.\<close>

definition function_of :: "ir_module \<Rightarrow> global_ref \<Rightarrow> ir_function run" where
  "function_of m g = rbind (at (globals m) g) (\<lambda>glob.
     case initializer glob of Some (Function_Const _ f) \<Rightarrow> Inr f | _ \<Rightarrow> undefined_behaviour)"

definition set_function :: "ir_module \<Rightarrow> global_ref \<Rightarrow> ir_function \<Rightarrow> ir_module" where
  "set_function m g f = m\<lparr>globals := (globals m)[g := (globals m ! g)
     \<lparr>initializer := Some (Function_Const (gtype (globals m ! g)) f)\<rparr>]\<rparr>"

text \<open>
  A new block is appended to the function's list and numbered with its position there.
\<close>

definition add_block_to_function :: "ir_module \<Rightarrow> global_ref \<Rightarrow> string \<Rightarrow> (block_ref \<times> ir_module) run" where
  "add_block_to_function m g name = rbind (function_of m g) (\<lambda>f.
     let block = length (block_heap m);
         f = f\<lparr>blocks := blocks f @ [block]\<rparr>;
         new_block = block_init name (of_nat (length (blocks f)) - 1);
         m = set_function m g f
     in Inr (block, m\<lparr>block_heap := block_heap m @ [new_block]\<rparr>))"

definition add_block :: "ir_builder \<Rightarrow> string \<Rightarrow> (block_ref \<times> ir_builder) run" where
  "add_block b name = rbind (run_opt (current_function b)) (\<lambda>g.
     rbind (add_block_to_function (module b) g name) (\<lambda>(block, m). Inr (block, b\<lparr>module := m\<rparr>)))"

definition ir_module_add_function ::
  "ir_module \<Rightarrow> string \<Rightarrow> ir_type \<Rightarrow> bool \<Rightarrow> ir_type list \<Rightarrow> global_ref \<times> ir_module" where
  "ir_module_add_function m name ret va args =
     (let new_global = \<lparr>global_name = name, gtype = IR_FUNCTION ret args va,
                         linkage = IR_GLOBAL_LINKAGE, initializer = None\<rparr>
      in (length (globals m), m\<lparr>globals := globals m @ [new_global]\<rparr>))"

definition add_init_to_function :: "ir_module \<Rightarrow> global_ref \<Rightarrow> ir_module run" where
  "add_init_to_function m g = rbind (at (globals m) g) (\<lambda>glob.
     let m = set_function m g \<lparr>blocks = [], curr_instr_id = 0\<rparr>
     in rbind (add_block_to_function m g ''entry'') (\<lambda>(_, m). Inr m))"

definition ir_module_add_var :: "ir_module \<Rightarrow> string \<Rightarrow> ir_type \<Rightarrow> global_ref \<times> ir_module" where
  "ir_module_add_var m name t =
     (let new_global = \<lparr>global_name = name, gtype = t, linkage = IR_GLOBAL_LINKAGE, initializer = None\<rparr>
      in (length (globals m), m\<lparr>globals := globals m @ [new_global]\<rparr>))"

text \<open>
  A new structure type, named after its number when it has no name. Its alignment and its
  fields are not initialised here: the caller of the model supplies them.
\<close>

definition ir_module_add_struct ::
  "ir_module \<Rightarrow> string option \<Rightarrow> (ir_type \<times> u32) list \<Rightarrow> u8 \<Rightarrow> nat \<times> ir_module" where
  "ir_module_add_struct m name fs align =
     (let types_size = length (types m) + 1;
          n = (if is_valid name then the name
               else ''__anon_struct_'' @ fmt_x (of_nat types_size :: u32))
      in (length (types m), m\<lparr>types := types m @ [IR_STRUCT n fs 0 align]\<rparr>))"

section \<open>Constant folding\<close>

fun constant_foldable :: "ir_op \<Rightarrow> bool" where
  "constant_foldable OP_LOCAL = False"
| "constant_foldable OP_FIELD = False"
| "constant_foldable OP_LOAD = False"
| "constant_foldable OP_STORE = False"
| "constant_foldable OP_CAST = False"
| "constant_foldable OP_RET = False"
| "constant_foldable OP_JUMP = False"
| "constant_foldable OP_COND = False"
| "constant_foldable OP_CALL = False"
| "constant_foldable OP_ZEXT = False"
| "constant_foldable OP_SEXT = False"
| "constant_foldable OP_RET_VOID = False"
| "constant_foldable _ = True"

definition constant_fold_unary_op :: "ir_op \<Rightarrow> u64 \<Rightarrow> u64 run" where
  "constant_fold_unary_op op arg =
     (if \<not> constant_foldable op then exit_ice
      else case op of
        OP_BIT_XOR \<Rightarrow> exit_ice
      | OP_BIT_AND \<Rightarrow> exit_ice
      | OP_BIT_OR \<Rightarrow> exit_ice
      | OP_MUL \<Rightarrow> exit_ice
      | OP_DIV \<Rightarrow> exit_ice
      | OP_ADD \<Rightarrow> exit_ice
      | OP_SUB \<Rightarrow> exit_ice
      | OP_BIT_NOT \<Rightarrow> Inr (NOT arg)
      | OP_NEG \<Rightarrow> Inr (- arg)
      | _ \<Rightarrow> exit_unimplemented)"

definition constant_fold_binary_op :: "ir_op \<Rightarrow> u64 \<Rightarrow> u64 \<Rightarrow> u64 run" where
  "constant_fold_binary_op op arg1 arg2 =
     (if \<not> constant_foldable op then exit_ice
      else case op of
        OP_BIT_NOT \<Rightarrow> exit_ice
      | OP_BIT_XOR \<Rightarrow> Inr (arg1 XOR arg2)
      | OP_BIT_AND \<Rightarrow> Inr (arg1 AND arg2)
      | OP_BIT_OR \<Rightarrow> Inr (arg1 OR arg2)
      | OP_SHL \<Rightarrow> if arg2 < 64 then Inr (push_bit (unat arg2) arg1) else undefined_behaviour
      | OP_SHR \<Rightarrow> if arg2 < 64 then Inr (drop_bit (unat arg2) arg1) else undefined_behaviour
      | OP_MUL \<Rightarrow> Inr (arg1 * arg2)
      | OP_DIV \<Rightarrow> if arg2 = 0 then undefined_behaviour else Inr (arg1 div arg2)
      | OP_MOD \<Rightarrow>
          if arg2 = 0 \<or> sint arg1 = - (2 ^ 63) \<and> sint arg2 = -1 then undefined_behaviour
          else Inr (of_int (sint arg1 smod sint arg2))
      | OP_ADD \<Rightarrow> Inr (arg1 + arg2)
      | OP_SUB \<Rightarrow> Inr (arg1 - arg2)
      | _ \<Rightarrow> exit_unimplemented)"

fun constant_fold_cmp :: "ir_cmp \<Rightarrow> u64 \<Rightarrow> u64 \<Rightarrow> u32" where
  "constant_fold_cmp CMP_EQ arg1 arg2 = of_bool (arg1 = arg2)"
| "constant_fold_cmp CMP_NEQ arg1 arg2 = of_bool (arg1 \<noteq> arg2)"
| "constant_fold_cmp CMP_SGT arg1 arg2 = of_bool (sint arg1 > sint arg2)"
| "constant_fold_cmp CMP_SGTE arg1 arg2 = of_bool (sint arg1 \<ge> sint arg2)"
| "constant_fold_cmp CMP_SLT arg1 arg2 = of_bool (sint arg1 < sint arg2)"
| "constant_fold_cmp CMP_SLTE arg1 arg2 = of_bool (sint arg1 \<le> sint arg2)"
| "constant_fold_cmp CMP_UGT arg1 arg2 = of_bool (arg1 > arg2)"
| "constant_fold_cmp CMP_UGTE arg1 arg2 = of_bool (arg1 \<ge> arg2)"
| "constant_fold_cmp CMP_ULT arg1 arg2 = of_bool (arg1 < arg2)"
| "constant_fold_cmp CMP_ULTE arg1 arg2 = of_bool (arg1 \<le> arg2)"

fun constant_fold_cmpf :: "ir_cmp \<Rightarrow> u64 \<Rightarrow> u64 \<Rightarrow> u32 run" where
  "constant_fold_cmpf CMP_EQ arg1 arg2 = Inr (of_bool (f64_eq arg1 arg2))"
| "constant_fold_cmpf CMP_NEQ arg1 arg2 = Inr (of_bool (\<not> f64_eq arg1 arg2))"
| "constant_fold_cmpf CMP_SGT arg1 arg2 = Inr (of_bool (f64_lt arg2 arg1))"
| "constant_fold_cmpf CMP_SGTE arg1 arg2 = Inr (of_bool (f64_lt arg2 arg1 \<or> f64_eq arg1 arg2))"
| "constant_fold_cmpf CMP_SLT arg1 arg2 = Inr (of_bool (f64_lt arg1 arg2))"
| "constant_fold_cmpf CMP_SLTE arg1 arg2 = Inr (of_bool (f64_lt arg1 arg2 \<or> f64_eq arg1 arg2))"
| "constant_fold_cmpf CMP_UGT arg1 arg2 = exit_ice"
| "constant_fold_cmpf CMP_UGTE arg1 arg2 = exit_ice"
| "constant_fold_cmpf CMP_ULT arg1 arg2 = exit_ice"
| "constant_fold_cmpf CMP_ULTE arg1 arg2 = exit_ice"

section \<open>Values and constants\<close>

definition value_const_int :: "ir_type \<Rightarrow> u64 \<Rightarrow> ir_value" where
  "value_const_int t c = \<lparr>vtype = t, vkind = IR_VALUE_CONST_INT c\<rparr>"

definition value_const_float :: "ir_type \<Rightarrow> u64 \<Rightarrow> ir_value" where
  "value_const_float t c = \<lparr>vtype = t, vkind = IR_VALUE_CONST_FLOAT c\<rparr>"

definition value_arg :: "u32 \<Rightarrow> ir_type \<Rightarrow> ir_value" where
  "value_arg i t = \<lparr>vtype = t, vkind = IR_VALUE_ARG i\<rparr>"

definition value_global :: "global_ref \<Rightarrow> ir_value" where
  "value_global g = \<lparr>vtype = IR_POINTER, vkind = IR_VALUE_GLOBAL g\<rparr>"

text \<open>The constants of an array or a structure are allocated and filled in later.\<close>

definition add_int_const :: "ir_type \<Rightarrow> u64 \<Rightarrow> ir_const" where
  "add_int_const t v = Int_Const t v"

definition add_float_const :: "ir_type \<Rightarrow> u64 \<Rightarrow> ir_const" where
  "add_float_const t v = Float_Const t v"

definition add_global_const :: "global_ref \<Rightarrow> ir_const" where
  "add_global_const g = Global_Const IR_POINTER (Some g)"

definition add_array_const :: "ir_type \<Rightarrow> ir_const" where
  "add_array_const t = Array_Const t (replicate (unat (array_size t)) None)"

definition add_struct_const :: "ir_type \<Rightarrow> ir_const" where
  "add_struct_const t = Struct_Const t (replicate (length (struct_fields t)) None)"

section \<open>The builder\<close>

definition builder_init :: "ir_module \<Rightarrow> ir_builder" where
  "builder_init m = \<lparr>module = m, current_function = None, current_block = None\<rparr>"

text \<open>
  \<^verbatim>\<open>append_instr\<close> takes the next instruction number of the function and appends an
  instruction to the current block; its callers fill in operation, type and operands, and
  here pass them in.
\<close>

definition append_instr ::
  "ir_builder \<Rightarrow> ir_op \<Rightarrow> ir_type \<Rightarrow> ir_operands \<Rightarrow> (instr_ref \<times> ir_builder) run" where
  "append_instr b op t args =
     rbind (run_opt (current_block b)) (\<lambda>block.
     rbind (run_opt (current_function b)) (\<lambda>g.
     rbind (function_of (module b) g) (\<lambda>f.
     rbind (at (block_heap (module b)) block) (\<lambda>blk.
       let m = module b;
           instr = length (instr_heap m);
           new_instr = \<lparr>instr_id = curr_instr_id f, itype = t, iop = op, vreg_number = -1,
                        operands = args\<rparr>;
           m = set_function m g (f\<lparr>curr_instr_id := curr_instr_id f + 1\<rparr>);
           m = m\<lparr>instr_heap := instr_heap m @ [new_instr],
                 block_heap := (block_heap m)[block := blk\<lparr>instrs := instrs blk @ [instr]\<rparr>]\<rparr>
       in Inr (instr, b\<lparr>module := m\<rparr>)))))"

definition value_instr :: "ir_builder \<Rightarrow> instr_ref \<Rightarrow> ir_value run" where
  "value_instr b i = rbind (at (instr_heap (module b)) i)
     (\<lambda>instr. Inr \<lparr>vtype = itype instr, vkind = IR_VALUE_INSTR i\<rparr>)"

text \<open>Most builder functions append one instruction and return it as a value.\<close>

definition emit :: "ir_builder \<Rightarrow> ir_op \<Rightarrow> ir_type \<Rightarrow> ir_operands \<Rightarrow> (ir_value \<times> ir_builder) run" where
  "emit b op t args = rbind (append_instr b op t args) (\<lambda>(instr, b).
     rbind (value_instr b instr) (\<lambda>v. Inr (v, b)))"

definition build_jump :: "ir_builder \<Rightarrow> block_ref \<Rightarrow> (instr_ref \<times> ir_builder) run" where
  "build_jump b block = append_instr b OP_JUMP IR_VOID (Target_Block block)"

definition build_cond ::
  "ir_builder \<Rightarrow> ir_value \<Rightarrow> block_ref \<Rightarrow> block_ref \<Rightarrow> (instr_ref \<times> ir_builder) run" where
  "build_cond b condition then_block else_block =
     append_instr b OP_COND IR_VOID (Cond_On condition then_block else_block)"

definition build_local :: "ir_builder \<Rightarrow> ir_type \<Rightarrow> (ir_value \<times> ir_builder) run" where
  "build_local b t = emit b OP_LOCAL IR_POINTER (Local_Of t 0)"

definition build_field :: "ir_builder \<Rightarrow> ir_value \<Rightarrow> ir_type \<Rightarrow> u32 \<Rightarrow> (ir_value \<times> ir_builder) run" where
  "build_field b ptr t field_number =
     (case t of
        IR_STRUCT _ _ _ _ \<Rightarrow> emit b OP_FIELD IR_POINTER (Field_Of ptr t field_number)
      | IR_ARRAY _ _ \<Rightarrow> emit b OP_FIELD IR_POINTER (Field_Of ptr t field_number)
      | _ \<Rightarrow> exit_ice)"

definition build_load :: "ir_builder \<Rightarrow> ir_value \<Rightarrow> ir_type \<Rightarrow> (ir_value \<times> ir_builder) run" where
  "build_load b pointer t = emit b OP_LOAD t (Load_From pointer t)"

definition build_store :: "ir_builder \<Rightarrow> ir_value \<Rightarrow> ir_value \<Rightarrow> (ir_value \<times> ir_builder) run" where
  "build_store b pointer v = emit b OP_STORE IR_VOID (Binary_Op pointer v)"

definition build_nullary_instr :: "ir_builder \<Rightarrow> ir_op \<Rightarrow> ir_type \<Rightarrow> (ir_value \<times> ir_builder) run" where
  "build_nullary_instr b op t = emit b op t No_Operand"

definition build_unary_instr :: "ir_builder \<Rightarrow> ir_op \<Rightarrow> ir_value \<Rightarrow> (ir_value \<times> ir_builder) run" where
  "build_unary_instr b op arg =
     (case vkind arg of
        IR_VALUE_CONST_INT c \<Rightarrow>
          if constant_foldable op
          then rbind (constant_fold_unary_op op c) (\<lambda>r. Inr (value_const_int (vtype arg) r, b))
          else emit b op (if op = OP_RET then IR_VOID else vtype arg) (Arg arg)
      | _ \<Rightarrow> emit b op (if op = OP_RET then IR_VOID else vtype arg) (Arg arg))"

definition build_binary_instr ::
  "ir_builder \<Rightarrow> ir_op \<Rightarrow> ir_value \<Rightarrow> ir_value \<Rightarrow> (ir_value \<times> ir_builder) run" where
  "build_binary_instr b op arg1 arg2 =
     (if \<not> ir_type_eq (vtype arg1) (vtype arg2) then exit_ice
      else case (vkind arg1, vkind arg2) of
        (IR_VALUE_CONST_INT c1, IR_VALUE_CONST_INT c2) \<Rightarrow>
          if constant_foldable op
          then rbind (constant_fold_binary_op op c1 c2) (\<lambda>r. Inr (value_const_int (vtype arg1) r, b))
          else emit b op (vtype arg1) (Binary_Op arg1 arg2)
      | _ \<Rightarrow> emit b op (vtype arg1) (Binary_Op arg1 arg2))"

definition build_cmp ::
  "ir_builder \<Rightarrow> ir_cmp \<Rightarrow> ir_value \<Rightarrow> ir_value \<Rightarrow> (ir_value \<times> ir_builder) run" where
  "build_cmp b cmp arg1 arg2 =
     (if \<not> ir_type_eq (vtype arg1) (vtype arg2) then exit_ice
      else case (vkind arg1, vkind arg2) of
        (IR_VALUE_CONST_INT c1, IR_VALUE_CONST_INT c2) \<Rightarrow>
          Inr (value_const_int (IR_INT 32) (ucast (constant_fold_cmp cmp c1 c2)), b)
      | _ \<Rightarrow> emit b OP_CMP (IR_INT 32) (Cmp_Args arg1 arg2 cmp))"

definition build_cmpf ::
  "ir_builder \<Rightarrow> ir_cmp \<Rightarrow> ir_value \<Rightarrow> ir_value \<Rightarrow> (ir_value \<times> ir_builder) run" where
  "build_cmpf b cmp arg1 arg2 =
     (if \<not> ir_type_eq (vtype arg1) (vtype arg2) then exit_ice
      else case (vkind arg1, vkind arg2) of
        (IR_VALUE_CONST_FLOAT c1, IR_VALUE_CONST_FLOAT c2) \<Rightarrow>
          rbind (constant_fold_cmpf cmp c1 c2) (\<lambda>r. Inr (value_const_int (IR_INT 32) (ucast r), b))
      | _ \<Rightarrow> emit b OP_CMPF (IR_INT 32) (Cmp_Args arg1 arg2 cmp))"

definition build_call ::
  "ir_builder \<Rightarrow> ir_value \<Rightarrow> ir_type \<Rightarrow> ir_value list \<Rightarrow> (ir_value \<times> ir_builder) run" where
  "build_call b callee ret arg_array = emit b OP_CALL ret (Call_Of callee arg_array ret)"

definition build_type_instr ::
  "ir_builder \<Rightarrow> ir_op \<Rightarrow> ir_value \<Rightarrow> ir_type \<Rightarrow> (ir_value \<times> ir_builder) run" where
  "build_type_instr b op v result_type =
     (if ir_type_eq (vtype v) result_type then Inr (v, b)
      else case vkind v of
        IR_VALUE_CONST_INT c \<Rightarrow>
          (case result_type of
             IR_INT _ \<Rightarrow> Inr (value_const_int result_type c, b)
           | IR_POINTER \<Rightarrow> Inr (value_const_int result_type c, b)
           | IR_FLOAT _ \<Rightarrow> Inr (value_const_float result_type (f64_of_u64 c), b)
           | _ \<Rightarrow> exit_ice)
      | _ \<Rightarrow> emit b op result_type (Arg v))"

definition build_phi :: "ir_builder \<Rightarrow> ir_type \<Rightarrow> nat \<Rightarrow> (ir_value \<times> ir_builder) run" where
  "build_phi b t arity = emit b OP_PHI t (Phi_Params (replicate arity None))"

definition phi_set_param ::
  "ir_builder \<Rightarrow> ir_value \<Rightarrow> nat \<Rightarrow> block_ref \<Rightarrow> ir_value \<Rightarrow> ir_builder run" where
  "phi_set_param b phi index source_block v =
     (if \<not> ir_type_eq (vtype v) (vtype phi) then exit_ice
      else case vkind phi of
        IR_VALUE_INSTR i \<Rightarrow> rbind (at (instr_heap (module b)) i) (\<lambda>instr.
          case operands instr of
            Phi_Params ps \<Rightarrow>
              if index < length ps then
                (let p = \<lparr>param_block = source_block, param_value = v\<rparr>;
                     instr = instr\<lparr>operands := Phi_Params (ps[index := Some p])\<rparr>
                 in Inr (b\<lparr>module := (module b)\<lparr>instr_heap := (instr_heap (module b))[i := instr]\<rparr>\<rparr>))
              else undefined_behaviour
          | _ \<Rightarrow> undefined_behaviour)
      | _ \<Rightarrow> exit_ice)"

fun find_by_name :: "ir_global list \<Rightarrow> global_ref \<Rightarrow> string \<Rightarrow> global_ref option" where
  "find_by_name [] i name = None"
| "find_by_name (g # gs) i name = (if string_eq (global_name g) name then Some i else find_by_name gs (Suc i) name)"

definition find_global_by_name :: "ir_module \<Rightarrow> string \<Rightarrow> global_ref option" where
  "find_global_by_name m name = find_by_name (globals m) 0 name"

definition builtin_function ::
  "ir_builder \<Rightarrow> string \<Rightarrow> ir_type \<Rightarrow> ir_type list \<Rightarrow> ir_value \<times> ir_builder" where
  "builtin_function b name ret args =
     (case find_global_by_name (module b) name of
        Some existing_global \<Rightarrow> (value_global existing_global, b)
      | None \<Rightarrow> let (g, m) = ir_module_add_function (module b) name ret False args
                in (value_global g, b\<lparr>module := m\<rparr>))"

definition builtin_memcpy :: "ir_builder \<Rightarrow> ir_value \<times> ir_builder" where
  "builtin_memcpy b = builtin_function b ''memcpy'' IR_POINTER [IR_POINTER, IR_POINTER, IR_INT 64]"

definition builtin_memset :: "ir_builder \<Rightarrow> ir_value \<times> ir_builder" where
  "builtin_memset b = builtin_function b ''memset'' IR_POINTER [IR_POINTER, IR_INT 32, IR_INT 64]"

definition build_builtin_va_start :: "ir_builder \<Rightarrow> ir_value \<Rightarrow> (ir_value \<times> ir_builder) run" where
  "build_builtin_va_start b va_list_ptr = emit b OP_BUILTIN_VA_START IR_VOID (Arg va_list_ptr)"

section \<open>Numbering of instructions\<close>

text \<open>
  The invariant of a module under construction after at most \<open>n\<close> instructions: blocks hold
  instructions that exist, a function lists existing blocks, each once and none of another
  function, and the numbers of its instructions are distinct and below its counter.
\<close>

definition ids :: "ir_module \<Rightarrow> block_ref list \<Rightarrow> u32 list" where
  "ids m bs = concat (map (\<lambda>k. map (\<lambda>i. instr_id (instr_heap m ! i)) (instrs (block_heap m ! k))) bs)"

definition function_ok :: "nat \<Rightarrow> ir_module \<Rightarrow> ir_function \<Rightarrow> bool" where
  "function_ok n m f = (set (blocks f) \<subseteq> {..<length (block_heap m)} \<and> distinct (blocks f) \<and>
     unat (curr_instr_id f) \<le> n \<and> distinct (ids m (blocks f)) \<and>
     (\<forall>x\<in>set (ids m (blocks f)). x < curr_instr_id f))"

definition blocks_ok :: "ir_module \<Rightarrow> bool" where
  "blocks_ok m = (\<forall>blk\<in>set (block_heap m). \<forall>i\<in>set (instrs blk). i < length (instr_heap m))"

definition module_inv :: "nat \<Rightarrow> ir_module \<Rightarrow> bool" where
  "module_inv n m = (blocks_ok m \<and>
     (\<forall>g f. function_of m g = Inr f \<longrightarrow> function_ok n m f) \<and>
     (\<forall>g f h k. function_of m g = Inr f \<longrightarrow> function_of m h = Inr k \<longrightarrow> g \<noteq> h \<longrightarrow>
        set (blocks f) \<inter> set (blocks k) = {}))"

definition builder_inv :: "nat \<Rightarrow> ir_builder \<Rightarrow> bool" where
  "builder_inv n b = (module_inv n (module b) \<and>
     (\<forall>g k. current_function b = Some g \<longrightarrow> current_block b = Some k \<longrightarrow>
        (\<exists>f. function_of (module b) g = Inr f \<and> k \<in> set (blocks f))))"

lemma function_of_set_function [simp]:
  "g < length (globals m) \<Longrightarrow>
   function_of (set_function m g f) h = (if h = g then Inr f else function_of m h)"
  by (auto simp: function_of_def set_function_def at_def)

lemma function_of_lt: "function_of m g = Inr f \<Longrightarrow> g < length (globals m)"
  by (auto simp: function_of_def)

lemma function_of_heaps [simp]:
  "function_of (m\<lparr>block_heap := bh\<rparr>) g = function_of m g"
  "function_of (m\<lparr>instr_heap := ih\<rparr>) g = function_of m g"
  "function_of (m\<lparr>types := ts\<rparr>) g = function_of m g"
  by (simp_all add: function_of_def)

lemma set_function_heaps [simp]:
  "block_heap (set_function m g f) = block_heap m" "instr_heap (set_function m g f) = instr_heap m"
  by (simp_all add: set_function_def)

lemma mset_concat_append_at:
  "distinct ks \<Longrightarrow> k \<in> set ks \<Longrightarrow> (\<And>j. j \<in> set ks \<Longrightarrow> G j = (if j = k then F k @ [x] else F j)) \<Longrightarrow>
   mset (concat (map G ks)) = add_mset x (mset (concat (map F ks)))"
proof (induction ks)
  case (Cons j ks)
  show ?case
  proof (cases "j = k")
    case True
    then have "map G ks = map F ks" using Cons.prems by (intro map_cong) auto
    moreover have "G j = F j @ [x]" using Cons.prems(3) True by simp
    ultimately show ?thesis by (simp only: list.map concat.simps mset_append append_assoc) simp
  next
    case False
    moreover have "mset (concat (map G ks)) = add_mset x (mset (concat (map F ks)))"
      using Cons False by simp
    moreover have "G j = F j" using Cons.prems(3) False by simp
    ultimately show ?thesis by simp
  qed
qed simp

text \<open>
  What \<^verbatim>\<open>append_instr\<close> does: the new instruction is last in the instruction store and in
  the current block, the counter of the current function advances, all else stays.
\<close>

lemma append_instr_Inr:
  assumes "append_instr b op t args = Inr (i, b')"
  obtains k g f where
    "current_block b = Some k" "current_function b = Some g" "function_of (module b) g = Inr f"
    "k < length (block_heap (module b))" "i = length (instr_heap (module b))"
    "current_block b' = Some k" "current_function b' = Some g"
    "\<And>h. function_of (module b') h =
       (if h = g then Inr (f\<lparr>curr_instr_id := curr_instr_id f + 1\<rparr>) else function_of (module b) h)"
    "instr_heap (module b') = instr_heap (module b) @
       [\<lparr>instr_id = curr_instr_id f, itype = t, iop = op, vreg_number = -1, operands = args\<rparr>]"
    "length (block_heap (module b')) = length (block_heap (module b))"
    "\<And>j. j < length (block_heap (module b)) \<Longrightarrow> instrs (block_heap (module b') ! j) =
       (if j = k then instrs (block_heap (module b) ! k) @ [i] else instrs (block_heap (module b) ! j))"
proof -
  obtain k g f where a: "current_block b = Some k" "current_function b = Some g"
    "function_of (module b) g = Inr f" "k < length (block_heap (module b))"
    "i = length (instr_heap (module b))"
    "b' = b\<lparr>module := (set_function (module b) g (f\<lparr>curr_instr_id := curr_instr_id f + 1\<rparr>))
        \<lparr>instr_heap := instr_heap (module b) @
           [\<lparr>instr_id = curr_instr_id f, itype = t, iop = op, vreg_number = -1, operands = args\<rparr>],
         block_heap := (block_heap (module b))
           [k := (block_heap (module b) ! k)\<lparr>instrs := instrs (block_heap (module b) ! k) @ [i]\<rparr>]\<rparr>\<rparr>"
    using assms by (auto simp: append_instr_def Let_def)
  show thesis
    by (rule that [OF a(1-5)]) (use a in \<open>simp_all add: function_of_lt nth_list_update\<close>)
qed

lemma blocks_okD:
  "blocks_ok m \<Longrightarrow> k < length (block_heap m) \<Longrightarrow> i \<in> set (instrs (block_heap m ! k)) \<Longrightarrow>
   i < length (instr_heap m)"
  by (auto simp: blocks_ok_def)

lemma blocks_okI:
  "(\<And>k i. k < length (block_heap m) \<Longrightarrow> i \<in> set (instrs (block_heap m ! k)) \<Longrightarrow> i < length (instr_heap m)) \<Longrightarrow>
   blocks_ok m"
  by (metis blocks_ok_def in_set_conv_nth)

lemma ids_other:
  assumes "blocks_ok m" "set bs \<subseteq> {..<length (block_heap m)}"
    and "\<And>k. k \<in> set bs \<Longrightarrow> instrs (block_heap m' ! k) = instrs (block_heap m ! k)"
    and "\<And>i. i < length (instr_heap m) \<Longrightarrow> instr_id (instr_heap m' ! i) = instr_id (instr_heap m ! i)"
  shows "ids m' bs = ids m bs"
proof -
  have "map (\<lambda>i. instr_id (instr_heap m' ! i)) (instrs (block_heap m' ! k)) =
      map (\<lambda>i. instr_id (instr_heap m ! i)) (instrs (block_heap m ! k))" if "k \<in> set bs" for k
    using assms that by (auto dest: blocks_okD)
  then show ?thesis unfolding ids_def by (metis (no_types, lifting) map_cong)
qed

lemma unat_Suc_lt: "unat (c :: u32) \<le> n \<Longrightarrow> Suc n < 2 ^ 32 \<Longrightarrow> unat (c + 1) = Suc (unat c)"
  by (simp add: unat_word_ariths)

lemma append_ids:
  assumes "blocks_ok m" "set bs \<subseteq> {..<length (block_heap m)}" "distinct bs" "k \<in> set bs"
    and ih: "instr_heap m' = instr_heap m @ [ins]" and i: "i = length (instr_heap m)"
    and bh: "\<And>j. j < length (block_heap m) \<Longrightarrow> instrs (block_heap m' ! j) =
       (if j = k then instrs (block_heap m ! k) @ [i] else instrs (block_heap m ! j))"
  shows "mset (ids m' bs) = mset (instr_id ins # ids m bs)"
  unfolding ids_def mset.simps
proof (rule mset_concat_append_at [OF assms(3,4)])
  fix j assume j: "j \<in> set bs"
  have "map (\<lambda>i. instr_id (instr_heap m' ! i)) (instrs (block_heap m ! j)) =
      map (\<lambda>i. instr_id (instr_heap m ! i)) (instrs (block_heap m ! j))"
    using assms(1,2) j ih by (auto simp: nth_append dest: blocks_okD)
  moreover have "instr_id (instr_heap m' ! i) = instr_id ins" using ih i by simp
  ultimately show "map (\<lambda>i. instr_id (instr_heap m' ! i)) (instrs (block_heap m' ! j)) =
      (if j = k then map (\<lambda>i. instr_id (instr_heap m ! i)) (instrs (block_heap m ! k)) @ [instr_id ins]
       else map (\<lambda>i. instr_id (instr_heap m ! i)) (instrs (block_heap m ! j)))"
    using assms(2) j by (auto simp: bh subset_iff)
qed

lemma append_instr_inv:
  assumes inv: "builder_inv n b" and n: "Suc n < 2 ^ 32" and ap: "append_instr b op t args = Inr (i, b')"
  shows "builder_inv (Suc n) b'"
proof -
  let ?m = "module b" and ?m' = "module b'"
  obtain k g f where a: "current_block b = Some k" "current_function b = Some g"
      "function_of ?m g = Inr f" "k < length (block_heap ?m)" "i = length (instr_heap ?m)"
      "current_block b' = Some k" "current_function b' = Some g"
    and fo: "\<And>h. function_of ?m' h =
       (if h = g then Inr (f\<lparr>curr_instr_id := curr_instr_id f + 1\<rparr>) else function_of ?m h)"
    and ih: "instr_heap ?m' = instr_heap ?m @
       [\<lparr>instr_id = curr_instr_id f, itype = t, iop = op, vreg_number = -1, operands = args\<rparr>]"
    and lb: "length (block_heap ?m') = length (block_heap ?m)"
    and bh: "\<And>j. j < length (block_heap ?m) \<Longrightarrow> instrs (block_heap ?m' ! j) =
       (if j = k then instrs (block_heap ?m ! k) @ [i] else instrs (block_heap ?m ! j))"
    by (rule append_instr_Inr [OF ap]) (rule that)
  have mi: "blocks_ok ?m" "function_ok n ?m f" "k \<in> set (blocks f)"
    using inv a by (auto simp: builder_inv_def module_inv_def)
  have bok: "blocks_ok ?m'"
    by (rule blocks_okI) (use mi(1) lb ih bh a(5) in \<open>auto dest!: blocks_okD split: if_splits\<close>)
  have bl: "set (blocks f) \<subseteq> {..<length (block_heap ?m)}" "distinct (blocks f)"
    using mi(2) by (auto simp: function_ok_def)
  note mm = append_ids [OF mi(1) bl mi(3) ih a(5) bh]
  have cn: "unat (curr_instr_id f + 1) = Suc (unat (curr_instr_id f))" "unat (curr_instr_id f) \<le> n"
    using mi(2) n by (auto simp: function_ok_def unat_Suc_lt)
  have fok: "function_ok (Suc n) ?m' (f\<lparr>curr_instr_id := curr_instr_id f + 1\<rparr>)"
    using mset_eq_imp_distinct_iff [OF mm] mset_eq_setD [OF mm] mi(2) cn bl lb
    by (fastforce simp: function_ok_def word_less_nat_alt)
  have oth: "function_ok (Suc n) ?m' f'" if "function_of ?m h = Inr f'" "h \<noteq> g" for h f'
  proof -
    have f': "function_ok n ?m f'" "set (blocks f) \<inter> set (blocks f') = {}"
      using inv that a(3) by (auto simp: builder_inv_def module_inv_def)
    have nk: "j < length (block_heap ?m)" "j \<noteq> k" if "j \<in> set (blocks f')" for j
      using f' mi(3) that by (auto simp: function_ok_def)
    have "ids ?m' (blocks f') = ids ?m (blocks f')"
      by (rule ids_other [OF mi(1)]) (use f' ih nk in \<open>auto simp: function_ok_def nth_append bh\<close>)
    then show ?thesis using f'(1) lb by (simp add: function_ok_def)
  qed
  have "module_inv (Suc n) ?m'"
    using inv bok fok oth a(3) by (auto simp: module_inv_def builder_inv_def fo split: if_splits)
  then show ?thesis using mi(3) a(6,7) fo by (auto simp: builder_inv_def)
qed

end
