(* ===== verification/Naive_IR_Steps.thy ===== *)
theory Naive_IR_Steps
  imports Naive_IR
begin

text \<open>
  The calls of the builder as steps. Code generation is a sequence of calls of the
  functions of \<^verbatim>\<open>src/src/ir.c\<close>, interleaved with moves of the current block; the
  numbering of instructions stays sound along every such sequence.
\<close>

section \<open>Every builder function appends at most one instruction\<close>

text \<open>\<open>builds b b'\<close>: either nothing was appended, or one instruction.\<close>

definition builds :: "ir_builder \<Rightarrow> ir_builder \<Rightarrow> bool" where
  "builds b b' = (b' = b \<or> (\<exists>op t args i. append_instr b op t args = Inr (i, b')))"

lemma builds_refl [simp]: "builds b b"
  by (simp add: builds_def)

lemma emit_builds: "emit b op t args = Inr (v, b') \<Longrightarrow> builds b b'"
  by (auto simp: emit_def builds_def)

lemma emit_value:
  assumes "emit b op t args = Inr (v, b')"
  shows "v = \<lparr>vtype = t, vkind = IR_VALUE_INSTR (length (instr_heap (module b)))\<rparr>"
proof -
  obtain i where i: "append_instr b op t args = Inr (i, b')" "value_instr b' i = Inr v"
    using assms by (auto simp: emit_def)
  show ?thesis
    by (rule append_instr_Inr [OF i(1)]) (use i(2) in \<open>auto simp: value_instr_def\<close>)
qed

lemmas build_emits [op_defs] =
  build_jump_def build_cond_def build_local_def build_load_def build_store_def
  build_nullary_instr_def build_call_def build_phi_def build_builtin_va_start_def

lemmas build_cases [op_defs] =
  build_field_def build_unary_instr_def build_binary_instr_def build_cmp_def build_cmpf_def
  build_type_instr_def

lemma build_jump_builds: "build_jump b k = Inr (i, b') \<Longrightarrow> builds b b'"
  "build_cond b v k l = Inr (i, b') \<Longrightarrow> builds b b'"
  by (auto simp: op_defs builds_def)

lemma build_builds:
  "build_local b t = Inr (v, b') \<Longrightarrow> builds b b'"
  "build_field b ptr t k = Inr (v, b') \<Longrightarrow> builds b b'"
  "build_load b ptr t = Inr (v, b') \<Longrightarrow> builds b b'"
  "build_store b ptr w = Inr (v, b') \<Longrightarrow> builds b b'"
  "build_nullary_instr b op t = Inr (v, b') \<Longrightarrow> builds b b'"
  "build_call b w t ws = Inr (v, b') \<Longrightarrow> builds b b'"
  "build_phi b t a = Inr (v, b') \<Longrightarrow> builds b b'"
  "build_builtin_va_start b w = Inr (v, b') \<Longrightarrow> builds b b'"
  by (auto simp: op_defs emit_builds split: ir_type.splits)

lemma build_folds_builds:
  "build_unary_instr b op w = Inr (v, b') \<Longrightarrow> builds b b'"
  "build_binary_instr b op w x = Inr (v, b') \<Longrightarrow> builds b b'"
  "build_cmp b c w x = Inr (v, b') \<Longrightarrow> builds b b'"
  "build_cmpf b c w x = Inr (v, b') \<Longrightarrow> builds b b'"
  "build_type_instr b op w t = Inr (v, b') \<Longrightarrow> builds b b'"
  unfolding build_cases
  by (auto simp: emit_builds split: ir_value_kind.splits if_splits ir_type.splits)

section \<open>Steps\<close>

text \<open>
  One step of code generation: a builder call that appends, a new block in the current
  function, a move to a block of the current function, a parameter stored in a phi, a new
  global, a body for a function that has none, and the start of work on a function.
\<close>

inductive builder_step :: "ir_builder \<Rightarrow> ir_builder \<Rightarrow> bool" where
  step_build: "builds b b' \<Longrightarrow> builder_step b b'"
| step_block: "add_block b name = Inr (k, b') \<Longrightarrow> builder_step b b'"
| step_move: "current_function b = Some g \<Longrightarrow> function_of (module b) g = Inr f \<Longrightarrow> k \<in> set (blocks f) \<Longrightarrow>
    builder_step b (b\<lparr>current_block := Some k\<rparr>)"
| step_param: "phi_set_param b phi index k v = Inr b' \<Longrightarrow> builder_step b b'"
| step_var: "ir_module_add_var (module b) name t = (g, m) \<Longrightarrow> builder_step b (b\<lparr>module := m\<rparr>)"
| step_function: "ir_module_add_function (module b) name ret va args = (g, m) \<Longrightarrow>
    builder_step b (b\<lparr>module := m\<rparr>)"
| step_body: "g < length (globals (module b)) \<Longrightarrow> initializer (globals (module b) ! g) = None \<Longrightarrow>
    add_init_to_function (module b) g = Inr m \<Longrightarrow> builder_step b (b\<lparr>module := m\<rparr>)"
| step_enter: "function_of (module b) g = Inr f \<Longrightarrow> blocks f = k # ks \<Longrightarrow>
    builder_step b (b\<lparr>current_function := Some g, current_block := Some k\<rparr>)"

lemma module_inv_mono: "module_inv n m \<Longrightarrow> n \<le> n' \<Longrightarrow> module_inv n' m"
  by (force simp: module_inv_def function_ok_def)

lemma builder_inv_mono: "builder_inv n b \<Longrightarrow> n \<le> n' \<Longrightarrow> builder_inv n' b"
  by (auto simp: builder_inv_def intro: module_inv_mono)

lemma builds_inv: "builds b b' \<Longrightarrow> builder_inv n b \<Longrightarrow> Suc n < 2 ^ 32 \<Longrightarrow> builder_inv (Suc n) b'"
  by (auto simp: builds_def intro: append_instr_inv builder_inv_mono)

text \<open>Adding an empty block to a function.\<close>

lemma add_block_inv:
  assumes inv: "module_inv n m" and f: "function_of m g = Inr f"
    and m': "add_block_to_function m g name = Inr (k, m')"
  shows "module_inv n m' \<and>
    (\<forall>h. function_of m' h = (if h = g then Inr (f\<lparr>blocks := blocks f @ [k]\<rparr>) else function_of m h))"
proof -
  have k: "k = length (block_heap m)" and
    bh: "block_heap m' = block_heap m @ [block_init name (of_nat (length (blocks f) + 1) - 1)]"
    "instr_heap m' = instr_heap m" and
    fo: "function_of m' h = (if h = g then Inr (f\<lparr>blocks := blocks f @ [k]\<rparr>) else function_of m h)" for h
    using m' f by (auto simp: add_block_to_function_def Let_def function_of_lt)
  have ok: "blocks_ok m" "\<And>h f'. function_of m h = Inr f' \<Longrightarrow> function_ok n m f'"
    using inv by (auto simp: module_inv_def)
  have bok: "blocks_ok m'" using ok(1) bh by (auto simp: blocks_ok_def block_init_def)
  have ids: "ids m' (blocks f') = ids m (blocks f')" if "function_of m h = Inr f'" for h f'
    by (rule ids_other [OF ok(1)]) (use ok(2) [OF that] bh in \<open>auto simp: function_ok_def nth_append\<close>)
  have new: "ids m' (blocks f @ [k]) = ids m (blocks f)"
    using ids [OF f] bh k by (simp add: ids_def block_init_def)
  have fok: "function_ok n m' (f\<lparr>blocks := blocks f @ [k]\<rparr>)"
    using ok(2) [OF f] new bh(1) k by (auto simp: function_ok_def)
  have oth: "function_ok n m' f'" if "function_of m h = Inr f'" for h f'
    using ok(2) [OF that] ids [OF that] bh(1) by (auto simp: function_ok_def)
  have "k \<notin> set (blocks f')" if "function_of m h = Inr f'" for h f'
    using ok(2) [OF that] k by (auto simp: function_ok_def)
  then show ?thesis
    using inv bok fok oth f fo by (auto simp: module_inv_def split: if_splits)
qed

lemma add_global_inv:
  assumes "module_inv n m" "initializer glob = None"
  shows "module_inv n (m\<lparr>globals := globals m @ [glob]\<rparr>) \<and>
    (\<forall>g f. function_of m g = Inr f \<longrightarrow> function_of (m\<lparr>globals := globals m @ [glob]\<rparr>) g = Inr f)"
proof -
  let ?m = "m\<lparr>globals := globals m @ [glob]\<rparr>"
  have "function_of ?m g = Inr f \<longleftrightarrow> function_of m g = Inr f" for g f
    using assms(2) by (auto simp: function_of_def at_def nth_append split: if_splits)
  moreover have "ids ?m = ids m" "blocks_ok ?m = blocks_ok m"
    by (auto simp: ids_def blocks_ok_def fun_eq_iff)
  ultimately show ?thesis using assms(1) by (auto simp: module_inv_def function_ok_def)
qed

lemma set_body_inv:
  assumes "module_inv n m" "g < length (globals m)" "initializer (globals m ! g) = None"
  shows "module_inv n (set_function m g \<lparr>blocks = [], curr_instr_id = 0\<rparr>)"
proof -
  let ?m = "set_function m g \<lparr>blocks = [], curr_instr_id = 0\<rparr>"
  have "ids ?m = ids m" "blocks_ok ?m = blocks_ok m" by (auto simp: ids_def blocks_ok_def fun_eq_iff)
  moreover have "function_ok n m \<lparr>blocks = [], curr_instr_id = 0\<rparr>" by (simp add: function_ok_def ids_def)
  ultimately show ?thesis
    using assms by (auto simp: module_inv_def function_ok_def split: if_splits)
qed

lemma phi_set_param_inv:
  assumes inv: "builder_inv n b" and p: "phi_set_param b phi index k v = Inr b'"
  shows "builder_inv n b'"
proof -
  obtain i args where i: "i < length (instr_heap (module b))"
    "b' = b\<lparr>module := (module b)\<lparr>instr_heap := (instr_heap (module b))
       [i := (instr_heap (module b) ! i)\<lparr>operands := args\<rparr>]\<rparr>\<rparr>"
    using p by (auto simp: phi_set_param_def Let_def split: if_splits ir_value_kind.splits ir_operands.splits)
  have eq: "instr_id (instr_heap (module b') ! j) = instr_id (instr_heap (module b) ! j)" for j
    using i by (cases "j = i") simp_all
  have "ids (module b') = ids (module b)" unfolding ids_def eq using i(2) by (simp add: fun_eq_iff)
  moreover have "blocks_ok (module b') = blocks_ok (module b)"
    using i(2) by (simp add: blocks_ok_def)
  ultimately show ?thesis
    using inv i(2) by (simp add: builder_inv_def module_inv_def function_ok_def)
qed

lemma builder_step_inv:
  assumes "builder_step b b'" "builder_inv n b" "Suc n < 2 ^ 32"
  shows "builder_inv (Suc n) b'"
proof -
  have "builder_inv (Suc n) b' \<or> builder_inv n b'" using assms
  proof (cases rule: builder_step.cases)
    case step_build
    then show ?thesis using assms builds_inv by blast
  next
    case (step_block name k)
    then obtain g m where g: "current_function b = Some g" "add_block_to_function (module b) g name = Inr (k, m)"
      "b' = b\<lparr>module := m\<rparr>"
      by (auto simp: add_block_def)
    then obtain f where f: "function_of (module b) g = Inr f" by (auto simp: add_block_to_function_def)
    show ?thesis
      using add_block_inv [OF _ f g(2)] g assms(2) f by (auto simp: builder_inv_def)
  next
    case step_move
    then show ?thesis using assms(2) by (auto simp: builder_inv_def)
  next
    case step_param
    then show ?thesis using assms(2) phi_set_param_inv by blast
  next
    case (step_var name t g m)
    then show ?thesis using assms(2) add_global_inv [of n "module b"]
      by (fastforce simp: builder_inv_def ir_module_add_var_def Let_def)
  next
    case (step_function name ret va args g m)
    then show ?thesis using assms(2) add_global_inv [of n "module b"]
      by (fastforce simp: builder_inv_def ir_module_add_function_def Let_def)
  next
    case (step_body g m)
    let ?m = "set_function (module b) g \<lparr>blocks = [], curr_instr_id = 0\<rparr>"
    obtain k where k: "add_block_to_function ?m g ''entry'' = Inr (k, m)"
      using step_body by (auto simp: add_init_to_function_def Let_def)
    have none: "function_of (module b) g \<noteq> Inr f" for f using step_body by (auto simp: function_of_def)
    have m: "module_inv n ?m" using set_body_inv step_body assms(2) by (auto simp: builder_inv_def)
    have f: "function_of ?m g = Inr \<lparr>blocks = [], curr_instr_id = 0\<rparr>" using step_body by simp
    have "function_of m h = Inr f'" if "function_of (module b) h = Inr f'" for h f'
      using add_block_inv [OF m f k] step_body(2) that none by auto
    then show ?thesis
      using add_block_inv [OF m f k] step_body(1) assms(2) by (fastforce simp: builder_inv_def)
  next
    case step_enter
    then show ?thesis using assms(2) by (auto simp: builder_inv_def)
  qed
  then show ?thesis using builder_inv_mono by auto
qed

lemma builder_steps_inv:
  "(builder_step ^^ n) b b' \<Longrightarrow> builder_inv 0 b \<Longrightarrow> n < 2 ^ 32 \<Longrightarrow> builder_inv n b'"
proof (induction n arbitrary: b')
  case (Suc n)
  then obtain c where "(builder_step ^^ n) b c" "builder_step c b'" by auto
  then show ?case using Suc builder_step_inv by simp
qed simp

lemma builder_init_inv: "builder_inv 0 (builder_init ir_module_init)"
  by (simp add: builder_inv_def builder_init_def ir_module_init_def module_inv_def blocks_ok_def
    function_of_def at_def)

section \<open>Constant folding at the width of the type\<close>

text \<open>
  Constants are folded at 64 bits whatever their type. The reference is the same operation
  on words of the width of the type. The operations whose low bits depend only on the low
  bits of the arguments agree with it.
\<close>

fun word_op :: "ir_op \<Rightarrow> 'w::len word \<Rightarrow> 'w word \<Rightarrow> 'w word option" where
  "word_op OP_ADD x y = Some (x + y)"
| "word_op OP_SUB x y = Some (x - y)"
| "word_op OP_MUL x y = Some (x * y)"
| "word_op OP_BIT_XOR x y = Some (x XOR y)"
| "word_op OP_BIT_AND x y = Some (x AND y)"
| "word_op OP_BIT_OR x y = Some (x OR y)"
| "word_op OP_SHL x y = Some (push_bit (unat y) x)"
| "word_op _ x y = None"

lemma of_int_take_bit_narrow:
  "LENGTH('w::len) \<le> 64 \<Longrightarrow> (word_of_int (take_bit 64 k) :: 'w word) = word_of_int k"
  by (rule word_uint_eqI) (simp add: uint_word_of_int_eq take_bit_take_bit min_absorb1)

lemma ucast_word_of_int: "ucast (x :: u64) = (word_of_int (uint x) :: 'w::len word)"
  by transfer simp

lemma ucast_of_int_narrow:
  assumes w: "LENGTH('w::len) \<le> 64"
  shows "ucast (word_of_int k :: u64) = (word_of_int k :: 'w word)"
  by (simp add: ucast_word_of_int uint_word_of_int_eq of_int_take_bit_narrow [OF w])

lemma ucast_narrow:
  fixes x y :: u64
  assumes w: "LENGTH('w::len) \<le> 64"
  shows "(ucast (x + y) :: 'w word) = ucast x + ucast y"
    "(ucast (x - y) :: 'w word) = ucast x - ucast y"
    "(ucast (x * y) :: 'w word) = ucast x * ucast y"
    "(ucast (- x) :: 'w word) = - ucast x"
  using ucast_of_int_narrow [OF w, of "uint x + uint y"] ucast_of_int_narrow [OF w, of "uint x - uint y"]
    ucast_of_int_narrow [OF w, of "uint x * uint y"] ucast_of_int_narrow [OF w, of "- uint x"]
  by (simp_all only: of_int_add of_int_diff of_int_mult of_int_minus of_int_uint ucast_id)

lemma ucast_bitwise:
  fixes x y :: u64
  assumes w: "LENGTH('w::len) \<le> 64"
  shows "(ucast (x XOR y) :: 'w word) = ucast x XOR ucast y"
    "(ucast (x AND y) :: 'w word) = ucast x AND ucast y"
    "(ucast (x OR y) :: 'w word) = ucast x OR ucast y"
    "(ucast (push_bit n x) :: 'w word) = push_bit n (ucast x)"
    "(ucast (NOT x) :: 'w word) = NOT (ucast x)"
  using w by (auto intro!: bit_word_eqI
    simp: bit_unsigned_iff bit_xor_iff bit_and_iff bit_or_iff bit_push_bit_iff bit_not_iff)

section \<open>Properties\<close>

text \<open>
  C12. Numbering: after any sequence of fewer than \<open>2 ^ 32\<close> builder steps from the empty
  module, the instructions of a function have distinct numbers, and every block it lists
  exists and holds only instructions that exist.
\<close>

theorem instr_ids_unique:
  assumes "(builder_step ^^ n) (builder_init ir_module_init) b" "n < 2 ^ 32"
    and "function_of (module b) g = Inr f"
  shows "distinct (ids (module b) (blocks f)) \<and>
    (\<forall>k\<in>set (blocks f). k < length (block_heap (module b)) \<and>
       (\<forall>i\<in>set (instrs (block_heap (module b) ! k)). i < length (instr_heap (module b))))"
proof -
  have "builder_inv n b" using builder_steps_inv [OF assms(1) builder_init_inv assms(2)] .
  then have "blocks_ok (module b)" "function_ok n (module b) f"
    using assms(3) by (auto simp: builder_inv_def module_inv_def)
  then show ?thesis by (auto simp: function_ok_def dest: blocks_okD)
qed

text \<open>A function \<open>main\<close> with two instructions in its entry block.\<close>

definition main_global :: "ir_function \<Rightarrow> ir_global" where
  "main_global f = \<lparr>global_name = ''main'', gtype = IR_FUNCTION IR_VOID [] False,
     linkage = IR_GLOBAL_LINKAGE, initializer = Some (Function_Const (IR_FUNCTION IR_VOID [] False) f)\<rparr>"

definition main_instr :: "u32 \<Rightarrow> ir_type \<Rightarrow> ir_op \<Rightarrow> ir_operands \<Rightarrow> ir_instr" where
  "main_instr i t op args = \<lparr>instr_id = i, itype = t, iop = op, vreg_number = -1, operands = args\<rparr>"

definition main_builder :: "u32 \<Rightarrow> ir_instr list \<Rightarrow> ir_builder" where
  "main_builder n is = \<lparr>module = \<lparr>globals = [main_global \<lparr>blocks = [0], curr_instr_id = n\<rparr>], types = [],
       block_heap = [\<lparr>block_id = 0, block_name = ''entry'', instrs = [0..<length is]\<rparr>], instr_heap = is\<rparr>,
     current_function = Some 0, current_block = Some 0\<rparr>"

definition main_start :: ir_builder where
  "main_start = (main_builder 0 [])\<lparr>current_function := None, current_block := None\<rparr>"

lemma main_start_steps: "(builder_step ^^ 2) (builder_init ir_module_init) main_start"
proof -
  let ?b = "builder_init ir_module_init"
  let ?m = "snd (ir_module_add_function ir_module_init ''main'' IR_VOID False [])"
  have "builder_step ?b (?b\<lparr>module := ?m\<rparr>)"
    by (rule step_function [of _ "''main''" IR_VOID False "[]" 0])
      (simp add: builder_init_def ir_module_add_function_def ir_module_init_def)
  moreover have "builder_step (?b\<lparr>module := ?m\<rparr>) main_start"
  proof -
    have "main_start = ?b\<lparr>module := ?m, module := module main_start\<rparr>"
      by (simp add: main_start_def main_builder_def builder_init_def)
    moreover have "builder_step (?b\<lparr>module := ?m\<rparr>) (?b\<lparr>module := ?m, module := module main_start\<rparr>)"
      by (rule step_body [of 0])
        (simp_all add: ir_module_add_function_def ir_module_init_def builder_init_def main_start_def
          main_builder_def main_global_def add_init_to_function_def add_block_to_function_def at_def
          set_function_def function_of_def block_init_def)
    ultimately show ?thesis by simp
  qed
  ultimately show ?thesis by (auto simp: numeral_2_eq_2)
qed

lemma main_emit_step:
  assumes "length is < 1000"
  shows "builder_step (main_builder n is) (main_builder (n + 1) (is @ [main_instr n t op args]))"
proof -
  have "append_instr (main_builder n is) op t args =
      Inr (length is, main_builder (n + 1) (is @ [main_instr n t op args]))"
    by (simp add: append_instr_def main_builder_def function_of_def at_def main_global_def
      set_function_def main_instr_def Let_def)
  then show ?thesis by (intro step_build) (auto simp: builds_def)
qed

lemma builder_one_more:
  "(builder_step ^^ n) a b \<Longrightarrow> builder_step b c \<Longrightarrow> k = Suc n \<Longrightarrow> (builder_step ^^ k) a c"
  by auto

theorem instr_ids_unique_witness:
  "\<exists>b f. (builder_step ^^ 5) (builder_init ir_module_init) b \<and> function_of (module b) 0 = Inr f \<and>
    ids (module b) (blocks f) = [0, 1] \<and> distinct (ids (module b) (blocks f))"
proof -
  let ?l = "main_instr 0 IR_POINTER OP_LOCAL (Local_Of (IR_INT 32) 0)"
  let ?b = "main_builder 2 [?l, main_instr 1 IR_VOID OP_RET_VOID No_Operand]"
  have "main_builder 0 [] = main_start\<lparr>current_function := Some 0, current_block := Some 0\<rparr>"
    by (simp add: main_start_def main_builder_def)
  moreover have "builder_step main_start (main_start\<lparr>current_function := Some 0, current_block := Some 0\<rparr>)"
    by (rule step_enter [where ks = "[]" and f = "\<lparr>blocks = [0], curr_instr_id = 0\<rparr>"])
      (simp_all add: main_start_def main_builder_def function_of_def at_def main_global_def)
  ultimately have "(builder_step ^^ 3) (builder_init ir_module_init) (main_builder 0 [])"
    using builder_one_more [OF main_start_steps, of _ 3] by simp
  then have "(builder_step ^^ 4) (builder_init ir_module_init) (main_builder 1 [?l])"
    by (rule builder_one_more) (use main_emit_step [of "[]" 0] in simp_all)
  then have st: "(builder_step ^^ 5) (builder_init ir_module_init) ?b"
    by (rule builder_one_more) (use main_emit_step [of "[?l]" 1] in simp_all)
  moreover have f: "function_of (module ?b) 0 = Inr \<lparr>blocks = [0], curr_instr_id = 2\<rparr>"
    by (simp add: main_builder_def function_of_def at_def main_global_def)
  moreover have "ids (module ?b) [0] = [0, 1]" by (simp add: ids_def main_builder_def main_instr_def)
  ultimately show ?thesis
    using instr_ids_unique [OF st _ f] by auto
qed




end
