(* ===== verification/Naive_AST.thy ===== *)
theory Naive_AST
  imports Naive_Prelude
begin

text \<open>
  Tokens (\<^verbatim>\<open>src/src/syntax/lex.h\<close>) and the specifiers of declarations (\<^verbatim>\<open>src/src/syntax/ast.h\<close>).

  A tagged union is a datatype with the source's tags as constructors; lists linked by
  \<^verbatim>\<open>next\<close> pointers are lists (a null list is the empty list); a \<^verbatim>\<open>String\<close> that may be
  invalid is an option.
\<close>

section \<open>Tokens\<close>

type_synonym numeric_suffix = u32

definition NO_SUFFIX :: numeric_suffix where "NO_SUFFIX = 0"
definition UNSIGNED_SUFFIX :: numeric_suffix where "UNSIGNED_SUFFIX = 1"
definition LONG_SUFFIX :: numeric_suffix where "LONG_SUFFIX = 2"
definition LONG_LONG_SUFFIX :: numeric_suffix where "LONG_LONG_SUFFIX = 4"
definition FLOAT_SUFFIX :: numeric_suffix where "FLOAT_SUFFIX = 8"

lemmas suffix_defs = NO_SUFFIX_def UNSIGNED_SUFFIX_def LONG_SUFFIX_def LONG_LONG_SUFFIX_def FLOAT_SUFFIX_def

record int_literal =
  int_value :: u64
  int_suffix :: numeric_suffix

record float_literal =
  float_value :: u64
  float_suffix :: numeric_suffix

datatype token =
    TOK_INVALID
  | TOK_INT_LITERAL int_literal
  | TOK_FLOAT_LITERAL float_literal
  | TOK_STRING_LITERAL string
  | TOK_SYMBOL string
  | TOK_PLUS | TOK_INCREMENT | TOK_PLUS_ASSIGN
  | TOK_MINUS | TOK_DECREMENT | TOK_MINUS_ASSIGN | TOK_ARROW
  | TOK_ASTERISK | TOK_MULTIPLY_ASSIGN
  | TOK_DIVIDE | TOK_DIVIDE_ASSIGN
  | TOK_MODULO | TOK_MODULO_ASSIGN
  | TOK_AMPERSAND | TOK_LOGICAL_AND | TOK_BIT_AND_ASSIGN
  | TOK_BIT_OR | TOK_LOGICAL_OR | TOK_BIT_OR_ASSIGN
  | TOK_BIT_XOR | TOK_BIT_XOR_ASSIGN
  | TOK_ASSIGN | TOK_EQUAL
  | TOK_LOGICAL_NOT | TOK_NOT_EQUAL
  | TOK_LESS_THAN | TOK_LESS_THAN_OR_EQUAL | TOK_LEFT_SHIFT | TOK_LEFT_SHIFT_ASSIGN
  | TOK_GREATER_THAN | TOK_GREATER_THAN_OR_EQUAL | TOK_RIGHT_SHIFT | TOK_RIGHT_SHIFT_ASSIGN
  | TOK_DOUBLE_HASH
  | TOK_DOT | TOK_ELLIPSIS
  | TOK_BIT_NOT | TOK_QUESTION_MARK | TOK_COLON | TOK_SEMICOLON | TOK_COMMA
  | TOK_LCURLY | TOK_RCURLY | TOK_LROUND | TOK_RROUND | TOK_LSQUARE | TOK_RSQUARE

section \<open>Declaration specifiers\<close>

text \<open>
  The specifiers of a declaration, over the types of expressions \<open>'e\<close> and of structure
  field declarations \<open>'f\<close> they contain.
\<close>

datatype ast_storage_class =
  TYPEDEF_SPECIFIER | EXTERN_SPECIFIER | STATIC_SPECIFIER | AUTO_SPECIFIER | REGISTER_SPECIFIER

datatype ast_type_qualifier = CONST_QUALIFIER | RESTRICT_QUALIFIER | VOLATILE_QUALIFIER

datatype ast_function_specifier = INLINE_SPECIFIER

datatype 'e ast_enumerator = Enumerator string "'e option"

datatype ('e, 'f) ast_type_specifier =
    NAMED_TYPE_SPECIFIER string
  | STRUCT_TYPE_SPECIFIER "string option" "'f list" "string option"
  | UNION_TYPE_SPECIFIER "string option" "'f list" "string option"
  | ENUM_TYPE_SPECIFIER "string option" "'e ast_enumerator list"

datatype ('e, 'f) ast_decl_specifier =
    STORAGE_CLASS_SPECIFIER ast_storage_class
  | TYPE_SPECIFIER "('e, 'f) ast_type_specifier"
  | TYPE_QUALIFIER ast_type_qualifier
  | FUNCTION_SPECIFIER ast_function_specifier

end
