(* ===== verification/Naive_CType.thy ===== *)
theory Naive_CType
  imports Naive_AST Naive_IR Naive_Maths
begin

text \<open>
  C types and the type environment (\<^verbatim>\<open>src/src/ir_gen/c_type.h\<close>, \<^verbatim>\<open>c_type.c\<close>), with the
  layout of structures and unions (\<^verbatim>\<open>src/src/ir_gen/decl.c\<close>).

  C types are compared by identity and updated in place (an array gets its length, a
  structure its fields), so they live in a store: a \<^verbatim>\<open>CType *\<close> is an index into \<open>ctypes\<close>.
  The types that are members of \<^verbatim>\<open>TypeEnv\<close> are its first entries. The IR type an array
  points to is in the store \<open>array_ir_types\<close>, that of a structure in the module's \<open>types\<close>.
\<close>

section \<open>Types\<close>

datatype int_kind = BOOL | CHAR_K | SHORT | INT_K | LONG | LONG_LONG

datatype float_kind = FLOAT | DOUBLE | LONG_DOUBLE

type_synonym ctype_ref = nat

record c_decl =
  decl_name :: "string option"
  decl_type :: ctype_ref

datatype c_type =
    VOID_TYPE
  | INTEGER_TYPE int_kind bool
  | FLOAT_TYPE float_kind
  | FUNCTION_TYPE ctype_ref "ctype_ref list" bool
  | STRUCT_TYPE bool "c_decl list" nat
  | POINTER_TYPE ctype_ref
  | ARRAY_TYPE ctype_ref bool u64 nat

record type_env =
  ctypes :: "c_type list"
  array_ir_types :: "ir_type list"
  struct_types :: "(string \<times> ctype_ref) list"
  union_types :: "(string \<times> ctype_ref) list"
  enum_types :: "(string \<times> ctype_ref) list"
  typedef_types :: "(string \<times> ctype_ref) list"

definition void_type :: ctype_ref where "void_type = 0"
definition char_type :: ctype_ref where "char_type = 1"
definition unsigned_char_type :: ctype_ref where "unsigned_char_type = 2"
definition bool_type :: ctype_ref where "bool_type = 3"
definition int_type :: ctype_ref where "int_type = 4"
definition unsigned_int_type :: ctype_ref where "unsigned_int_type = 5"
definition short_type :: ctype_ref where "short_type = 6"
definition unsigned_short_type :: ctype_ref where "unsigned_short_type = 7"
definition long_type :: ctype_ref where "long_type = 8"
definition unsigned_long_type :: ctype_ref where "unsigned_long_type = 9"
definition long_long_type :: ctype_ref where "long_long_type = 10"
definition unsigned_long_long_type :: ctype_ref where "unsigned_long_long_type = 11"
definition float_type :: ctype_ref where "float_type = 12"
definition double_type :: ctype_ref where "double_type = 13"
definition long_double_type :: ctype_ref where "long_double_type = 14"

definition size_type :: ctype_ref where "size_type = unsigned_long_type"
definition int_ptr_type :: ctype_ref where "int_ptr_type = unsigned_long_type"

lemmas builtin_refs = void_type_def char_type_def unsigned_char_type_def bool_type_def int_type_def
  unsigned_int_type_def short_type_def unsigned_short_type_def long_type_def unsigned_long_type_def
  long_long_type_def unsigned_long_long_type_def float_type_def double_type_def long_double_type_def

definition init_type_env :: type_env where
  "init_type_env =
     \<lparr>ctypes =
        [VOID_TYPE,
         INTEGER_TYPE CHAR_K True, INTEGER_TYPE CHAR_K False, INTEGER_TYPE BOOL False,
         INTEGER_TYPE INT_K True, INTEGER_TYPE INT_K False,
         INTEGER_TYPE SHORT True, INTEGER_TYPE SHORT False,
         INTEGER_TYPE LONG True, INTEGER_TYPE LONG False,
         INTEGER_TYPE LONG_LONG True, INTEGER_TYPE LONG_LONG False,
         FLOAT_TYPE FLOAT, FLOAT_TYPE DOUBLE, FLOAT_TYPE LONG_DOUBLE],
      array_ir_types = [], struct_types = [], union_types = [], enum_types = [], typedef_types = []\<rparr>"

section \<open>Equality\<close>

text \<open>
  \<^verbatim>\<open>c_type_eq\<close> follows pointers between types. Its recursion is cut off by fuel, and running
  out of it stands for exhausting the stack; the number of types in the store is enough fuel
  when types refer to older types only. The arguments of functions are compared in order.
\<close>

fun c_type_eq_fuel :: "nat \<Rightarrow> type_env \<Rightarrow> ctype_ref \<Rightarrow> ctype_ref \<Rightarrow> bool run"
  and c_types_eq_fuel :: "nat \<Rightarrow> type_env \<Rightarrow> ctype_ref list \<Rightarrow> ctype_ref list \<Rightarrow> bool run" where
  "c_type_eq_fuel 0 env a b = undefined_behaviour"
| "c_type_eq_fuel (Suc n) env a b =
     rbind (at (ctypes env) a) (\<lambda>ta. rbind (at (ctypes env) b) (\<lambda>tb.
       case (ta, tb) of
         (VOID_TYPE, VOID_TYPE) \<Rightarrow> Inr True
       | (INTEGER_TYPE k s, INTEGER_TYPE k' s') \<Rightarrow> Inr (k = k' \<and> s = s')
       | (FLOAT_TYPE k, FLOAT_TYPE k') \<Rightarrow> Inr (k = k')
       | (FUNCTION_TYPE ret args _, FUNCTION_TYPE ret' args' _) \<Rightarrow>
           if length args \<noteq> length args' then Inr False
           else rbind (c_type_eq_fuel n env ret ret') (\<lambda>same.
             if \<not> same then Inr False else c_types_eq_fuel n env args args')
       | (STRUCT_TYPE inc _ ir, STRUCT_TYPE inc' _ ir') \<Rightarrow>
           Inr (if inc \<noteq> inc' then False else if inc then a = b else ir = ir')
       | (POINTER_TYPE p, POINTER_TYPE p') \<Rightarrow>
           if a = p \<or> b = p' then exit_ice else c_type_eq_fuel n env p p'
       | (ARRAY_TYPE e inc sz _, ARRAY_TYPE e' inc' sz' _) \<Rightarrow>
           if inc \<and> inc' \<or> sz = sz' then c_type_eq_fuel n env e e' else Inr False
       | _ \<Rightarrow> Inr False))"
| "c_types_eq_fuel n env (a # as) (b # bs) =
     rbind (c_type_eq_fuel n env a b) (\<lambda>same. if \<not> same then Inr False else c_types_eq_fuel n env as bs)"
| "c_types_eq_fuel n env _ _ = Inr True"

definition c_type_eq :: "type_env \<Rightarrow> ctype_ref \<Rightarrow> ctype_ref \<Rightarrow> bool run" where
  "c_type_eq env = c_type_eq_fuel (length (ctypes env)) env"

section \<open>Conversion to IR types\<close>

text \<open>
  Of the IR type of a function only the tag is set. \<^verbatim>\<open>emit_fatal_error_no_loc\<close> ends the
  compilation with the code of an internal error.
\<close>

fun int_bit_width :: "int_kind \<Rightarrow> u8" where
  "int_bit_width BOOL = 8"
| "int_bit_width CHAR_K = 8"
| "int_bit_width SHORT = 16"
| "int_bit_width INT_K = 32"
| "int_bit_width LONG = 64"
| "int_bit_width LONG_LONG = 64"

fun float_kind_bits :: "float_kind \<Rightarrow> ir_float_bits" where
  "float_kind_bits FLOAT = IR_FLOAT_32"
| "float_kind_bits DOUBLE = IR_FLOAT_64"
| "float_kind_bits LONG_DOUBLE = IR_FLOAT_80"

definition c_type_to_ir_type :: "ir_module \<Rightarrow> type_env \<Rightarrow> ctype_ref \<Rightarrow> ir_type run" where
  "c_type_to_ir_type m env c = rbind (at (ctypes env) c) (\<lambda>t.
     case t of
       VOID_TYPE \<Rightarrow> Inr IR_VOID
     | INTEGER_TYPE k _ \<Rightarrow> Inr (IR_INT (int_bit_width k))
     | FLOAT_TYPE k \<Rightarrow> Inr (IR_FLOAT (float_kind_bits k))
     | POINTER_TYPE _ \<Rightarrow> Inr IR_POINTER
     | ARRAY_TYPE _ _ _ ir \<Rightarrow> at (array_ir_types env) ir
     | FUNCTION_TYPE _ _ _ \<Rightarrow> Inr (IR_FUNCTION IR_VOID [] False)
     | STRUCT_TYPE inc _ ir \<Rightarrow> if inc then exit_ice else at (types m) ir)"

definition c_type_rank :: "type_env \<Rightarrow> ctype_ref \<Rightarrow> u8 run" where
  "c_type_rank env c = rbind (at (ctypes env) c) (\<lambda>t.
     case t of
       INTEGER_TYPE k _ \<Rightarrow>
         Inr (case k of BOOL \<Rightarrow> 0 | CHAR_K \<Rightarrow> 1 | SHORT \<Rightarrow> 2 | INT_K \<Rightarrow> 3 | LONG \<Rightarrow> 4 | LONG_LONG \<Rightarrow> 5)
     | _ \<Rightarrow> exit_ice)"

definition c_type_size :: "ir_module \<Rightarrow> type_env \<Rightarrow> ctype_ref \<Rightarrow> u32 run" where
  "c_type_size m env c = rbind (c_type_to_ir_type m env c) (\<lambda>t. run_of (size_of_ir_type t))"

section \<open>Making types\<close>

fun search :: "(string \<times> ctype_ref) list \<Rightarrow> string \<Rightarrow> ctype_ref option" where
  "search [] name = None"
| "search ((n, c) # es) name = (if string_eq n name then Some c else search es name)"

definition new_c_type :: "type_env \<Rightarrow> c_type \<Rightarrow> ctype_ref \<times> type_env" where
  "new_c_type env t = (length (ctypes env), env\<lparr>ctypes := ctypes env @ [t]\<rparr>)"

definition pointer_type :: "type_env \<Rightarrow> ctype_ref \<Rightarrow> ctype_ref \<times> type_env" where
  "pointer_type env c = new_c_type env (POINTER_TYPE c)"

definition decay_to_pointer :: "type_env \<Rightarrow> ctype_ref \<Rightarrow> (ctype_ref \<times> type_env) run" where
  "decay_to_pointer env c = rbind (at (ctypes env) c) (\<lambda>t.
     case t of ARRAY_TYPE e _ _ _ \<Rightarrow> Inr (pointer_type env e) | _ \<Rightarrow> Inr (c, env))"

text \<open>
  A new array type has no length yet. Its IR type is flat: an array of arrays is an IR array
  of the innermost element type. The size field of the C type is not initialised; the model
  takes what the pool's memory holds there as an argument.
\<close>

definition array_type :: "ir_module \<Rightarrow> type_env \<Rightarrow> u64 \<Rightarrow> ctype_ref \<Rightarrow> (ctype_ref \<times> type_env) run" where
  "array_type m env junk c = rbind (c_type_to_ir_type m env c) (\<lambda>elem.
     let ir_array = (case elem of IR_ARRAY e n \<Rightarrow> IR_ARRAY e n | _ \<Rightarrow> IR_ARRAY elem 0);
         ir = length (array_ir_types env);
         env = env\<lparr>array_ir_types := array_ir_types env @ [ir_array]\<rparr>
     in Inr (new_c_type env (ARRAY_TYPE c True junk ir)))"

definition set_array_type_length :: "type_env \<Rightarrow> ctype_ref \<Rightarrow> u64 \<Rightarrow> type_env run" where
  "set_array_type_length env c sz = rbind (at (ctypes env) c) (\<lambda>t.
     case t of
       ARRAY_TYPE e inc old ir \<Rightarrow>
         rbind (at (ctypes env) e) (\<lambda>te.
         rbind (case te of
                  ARRAY_TYPE _ _ _ ire \<Rightarrow>
                    rbind (at (array_ir_types env) ire) (\<lambda>it. Inr (sz * array_size it))
                | _ \<Rightarrow> Inr sz) (\<lambda>ir_size.
         rbind (at (array_ir_types env) ir) (\<lambda>it.
           Inr (env\<lparr>ctypes := (ctypes env)[c := ARRAY_TYPE e False sz ir],
                    array_ir_types := (array_ir_types env)[ir := IR_ARRAY (elem_type it) ir_size]\<rparr>))))
     | _ \<Rightarrow> exit_ice)"

text \<open>The IR type of an incomplete structure is not initialised, here it is 0.\<close>

definition struct_type :: "type_env \<Rightarrow> string option \<Rightarrow> ctype_ref \<times> type_env" where
  "struct_type env name =
     (let (c, env) = new_c_type env (STRUCT_TYPE True [] 0);
          n = (if is_valid name then the name else ''<anonymous struct>'')
      in (c, env\<lparr>struct_types := struct_types env @ [(n, c)]\<rparr>))"

definition c_type_num_fields :: "type_env \<Rightarrow> ctype_ref \<Rightarrow> u32 run" where
  "c_type_num_fields env c = rbind (at (ctypes env) c) (\<lambda>t.
     case t of
       STRUCT_TYPE _ fs _ \<Rightarrow> Inr (of_nat (length fs))
     | ARRAY_TYPE _ _ sz _ \<Rightarrow> Inr (ucast sz)
     | _ \<Rightarrow> exit_ice)"

section \<open>Types of literals\<close>

text \<open>
  The limits are computed as 64-bit words and compared as signed numbers. (For a signed
  64-bit type the negation of the minimum overflows; two's complement gives the minimum.)
\<close>

definition value_fits_in_type :: "ir_module \<Rightarrow> type_env \<Rightarrow> ctype_ref \<Rightarrow> u64 \<Rightarrow> bool run" where
  "value_fits_in_type m env c v = rbind (at (ctypes env) c) (\<lambda>t.
     case t of
       INTEGER_TYPE _ is_signed \<Rightarrow>
         rbind (c_type_size m env c) (\<lambda>size_bytes.
           let int_width = size_bytes * 8 in
           if is_signed then
             (let lo = - (push_bit (unat (int_width - 1)) 1 :: u64);
                  hi = push_bit (unat (int_width - 1)) 1 - 1 :: u64
              in Inr (sint v \<ge> sint lo \<and> sint v \<le> sint hi))
           else if int_width = 64 then Inr True
           else (let hi = push_bit (unat int_width) 1 - 1 :: u64
                 in Inr (sint v \<ge> 0 \<and> sint v \<le> sint hi)))
     | _ \<Rightarrow> exit_ice)"

fun type_that_fits :: "ir_module \<Rightarrow> type_env \<Rightarrow> ctype_ref list \<Rightarrow> u64 \<Rightarrow> ctype_ref run" where
  "type_that_fits m env [] v = exit_ice"
| "type_that_fits m env (c # cs) v = rbind (value_fits_in_type m env c v)
     (\<lambda>fits. if fits then Inr c else type_that_fits m env cs v)"

definition type_of_int_literal :: "ir_module \<Rightarrow> type_env \<Rightarrow> int_literal \<Rightarrow> ctype_ref run" where
  "type_of_int_literal m env lit =
     (let v = int_value lit; suffix = int_suffix lit;
          u_suffix = (suffix AND UNSIGNED_SUFFIX \<noteq> 0);
          l_suffix = (suffix AND LONG_SUFFIX \<noteq> 0);
          ll_suffix = (suffix AND LONG_LONG_SUFFIX \<noteq> 0)
      in if l_suffix \<and> ll_suffix then exit_ice
         else if suffix = NO_SUFFIX then type_that_fits m env [int_type, long_type, long_long_type] v
         else if u_suffix \<and> \<not> l_suffix \<and> \<not> ll_suffix then
           type_that_fits m env [unsigned_int_type, unsigned_long_type, unsigned_long_long_type] v
         else if \<not> u_suffix \<and> l_suffix then type_that_fits m env [long_type, long_long_type] v
         else if u_suffix \<and> l_suffix then
           type_that_fits m env [unsigned_long_type, unsigned_long_long_type] v
         else if \<not> u_suffix \<and> ll_suffix then type_that_fits m env [long_long_type] v
         else if u_suffix \<and> ll_suffix then type_that_fits m env [unsigned_long_long_type] v
         else exit_ice)"

definition type_of_float_literal :: "float_literal \<Rightarrow> ctype_ref" where
  "type_of_float_literal lit =
     (if float_suffix lit = FLOAT_SUFFIX then float_type
      else if float_suffix lit = LONG_SUFFIX then long_double_type
      else double_type)"

section \<open>Named types\<close>

text \<open>
  The specifiers are matched word by word; one that is not a type specifier stops the
  compiler when the match reaches it.
\<close>

fun matches_sequence :: "('e, 'f) ast_decl_specifier list \<Rightarrow> string list \<Rightarrow> bool run" where
  "matches_sequence specs [] = Inr (specs = [])"
| "matches_sequence [] (w # ws) = Inr False"
| "matches_sequence (spec # specs) (w # ws) =
     (case spec of
        TYPE_SPECIFIER ts \<Rightarrow>
          (case ts of
             NAMED_TYPE_SPECIFIER name \<Rightarrow>
               if string_eq name w then matches_sequence specs ws else Inr False
           | _ \<Rightarrow> Inr False)
      | _ \<Rightarrow> exit_ice)"

text \<open>The disjunction of several matches stops at the first success.\<close>

fun matches_any :: "('e, 'f) ast_decl_specifier list \<Rightarrow> string list list \<Rightarrow> bool run" where
  "matches_any specs [] = Inr False"
| "matches_any specs (ws # wss) =
     rbind (matches_sequence specs ws) (\<lambda>ok. if ok then Inr True else matches_any specs wss)"

definition named_types :: "(string list list \<times> ctype_ref) list" where
  "named_types =
     [([[''void'']], void_type),
      ([[''char''], [''signed'', ''char'']], char_type),
      ([[''unsigned'', ''char'']], unsigned_char_type),
      ([[''_Bool'']], bool_type),
      ([[''short''], [''signed'', ''short''], [''short'', ''int''], [''signed'', ''short'', ''int'']], short_type),
      ([[''unsigned'', ''short''], [''unsigned'', ''short'', ''int'']], unsigned_short_type),
      ([[''int''], [''signed''], [''signed'', ''int'']], int_type),
      ([[''unsigned''], [''unsigned'', ''int'']], unsigned_int_type),
      ([[''long''], [''signed'', ''long''], [''long'', ''int''], [''signed'', ''long'', ''int'']], long_type),
      ([[''unsigned'', ''long''], [''unsigned'', ''long'', ''int'']], unsigned_long_type),
      ([[''long'', ''long''], [''signed'', ''long'', ''long''], [''long'', ''long'', ''int''],
        [''signed'', ''long'', ''long'', ''int'']], long_long_type),
      ([[''unsigned'', ''long'', ''long''], [''unsigned'', ''long'', ''long'', ''int'']], unsigned_long_long_type),
      ([[''float'']], float_type),
      ([[''double'']], double_type),
      ([[''long'', ''double'']], long_double_type)]"

fun first_match :: "('e, 'f) ast_decl_specifier list \<Rightarrow> (string list list \<times> ctype_ref) list \<Rightarrow> ctype_ref option run" where
  "first_match specs [] = Inr None"
| "first_match specs ((wss, c) # rest) =
     rbind (matches_any specs wss) (\<lambda>ok. if ok then Inr (Some c) else first_match specs rest)"

definition named_type_specifier_to_ctype ::
  "type_env \<Rightarrow> ('e, 'f) ast_decl_specifier list \<Rightarrow> ctype_ref run" where
  "named_type_specifier_to_ctype env specs =
     (case specs of
        TYPE_SPECIFIER (NAMED_TYPE_SPECIFIER name) # _ \<Rightarrow>
          rbind (first_match specs named_types) (\<lambda>r.
            case r of
              Some c \<Rightarrow> Inr c
            | None \<Rightarrow> (case search (typedef_types env) name of Some c \<Rightarrow> Inr c | None \<Rightarrow> exit_ice))
      | TYPE_SPECIFIER _ # _ \<Rightarrow> exit_ice
      | _ \<Rightarrow> undefined_behaviour)"

definition is_arithmetic_type :: "type_env \<Rightarrow> ctype_ref \<Rightarrow> bool run" where
  "is_arithmetic_type env c = rbind (at (ctypes env) c) (\<lambda>t.
     Inr (case t of INTEGER_TYPE _ _ \<Rightarrow> True | FLOAT_TYPE _ \<Rightarrow> True | _ \<Rightarrow> False))"

definition fatal_error_if_not_int :: "type_env \<Rightarrow> ctype_ref \<Rightarrow> unit run" where
  "fatal_error_if_not_int env c = rbind (at (ctypes env) c) (\<lambda>t.
     case t of INTEGER_TYPE _ _ \<Rightarrow> Inr () | _ \<Rightarrow> exit_ice)"

definition fatal_error_if_type_not_eq :: "type_env \<Rightarrow> ctype_ref \<Rightarrow> ctype_ref \<Rightarrow> unit run" where
  "fatal_error_if_type_not_eq env actual expected =
     rbind (c_type_eq env actual expected) (\<lambda>same. if same then Inr () else exit_ice)"

section \<open>Layout of structures and unions\<close>

text \<open>
  The loop of \<^verbatim>\<open>decl_specifier_list_to_c_type\<close> over the fields: their offsets, the running
  offset and the largest size and alignment. The alignment of the type is stored in a byte.
\<close>

record layout =
  field_offsets :: "u32 list"
  current_offset :: u32
  max_field_size :: u32
  max_field_align :: u32

definition layout_field :: "bool \<Rightarrow> bool \<Rightarrow> layout \<Rightarrow> ir_type \<Rightarrow> layout res" where
  "layout_field is_struct is_packed l t =
     rbind (size_of_ir_type t) (\<lambda>field_size. rbind (align_of_ir_type t) (\<lambda>field_align.
       let l = l\<lparr>max_field_size := max_u32 (max_field_size l) field_size,
                 max_field_align := max_u32 (max_field_align l) field_align\<rparr>
       in if is_struct then
            (let off = (if \<not> is_packed then align_to (current_offset l) field_align else current_offset l)
             in Inr (l\<lparr>field_offsets := field_offsets l @ [off], current_offset := off + field_size\<rparr>))
          else Inr (l\<lparr>field_offsets := field_offsets l @ [0]\<rparr>)))"

fun layout_fields :: "bool \<Rightarrow> bool \<Rightarrow> layout \<Rightarrow> ir_type list \<Rightarrow> layout res" where
  "layout_fields is_struct is_packed l [] = Inr l"
| "layout_fields is_struct is_packed l (t # ts) =
     rbind (layout_field is_struct is_packed l t) (\<lambda>l. layout_fields is_struct is_packed l ts)"

definition struct_layout :: "bool \<Rightarrow> bool \<Rightarrow> string \<Rightarrow> ir_type list \<Rightarrow> ir_type res" where
  "struct_layout is_struct is_packed name ts =
     rbind (layout_fields is_struct is_packed
              \<lparr>field_offsets = [], current_offset = 0, max_field_size = 0, max_field_align = 0\<rparr> ts) (\<lambda>l.
       let align = (if is_packed then 1 else max_field_align l);
           total = align_to (if is_struct then current_offset l else max_field_size l) align
       in Inr (IR_STRUCT name (zip ts (field_offsets l)) total (ucast align)))"

end
