(* ===== verification/Naive_CType_Properties.thy ===== *)
theory Naive_CType_Properties
  imports Naive_CType
begin

text \<open>
  Correctness of the type environment: equality of C types decides equality of the type
  trees they denote, literals get the types of the C99 table, the words that name a type are
  unambiguous, and structures and unions are laid out without overlap.
\<close>

section \<open>Equality as equality of trees\<close>

text \<open>
  A type may refer to types created before it only. Below each type hangs the finite tree of
  the types it refers to; a structure is a leaf known by its IR type, an incomplete one by
  its place in the store.
\<close>

fun refs :: "c_type \<Rightarrow> ctype_ref set" where
  "refs (FUNCTION_TYPE r as _) = insert r (set as)"
| "refs (POINTER_TYPE p) = {p}"
| "refs (ARRAY_TYPE e _ _ _) = {e}"
| "refs _ = {}"

definition refs_ok :: "c_type list \<Rightarrow> bool" where
  "refs_ok ts = (\<forall>i<length ts. \<forall>r\<in>refs (ts ! i). r < i)"

datatype c_tree =
    T_Void
  | T_Int int_kind bool
  | T_Float float_kind
  | T_Function c_tree "c_tree list"
  | T_Struct nat
  | T_Incomplete nat
  | T_Pointer c_tree
  | T_Array c_tree u64

function type_tree :: "c_type list \<Rightarrow> ctype_ref \<Rightarrow> c_tree" where
  "type_tree ts a =
     (case ts ! a of
        VOID_TYPE \<Rightarrow> T_Void
      | INTEGER_TYPE k s \<Rightarrow> T_Int k s
      | FLOAT_TYPE k \<Rightarrow> T_Float k
      | FUNCTION_TYPE r as _ \<Rightarrow>
          T_Function (if r < a then type_tree ts r else T_Void)
            (map (\<lambda>x. if x < a then type_tree ts x else T_Void) as)
      | STRUCT_TYPE inc _ ir \<Rightarrow> if inc then T_Incomplete a else T_Struct ir
      | POINTER_TYPE p \<Rightarrow> T_Pointer (if p < a then type_tree ts p else T_Void)
      | ARRAY_TYPE e _ n _ \<Rightarrow> T_Array (if e < a then type_tree ts e else T_Void) n)"
  by pat_completeness auto
termination by (relation "measure snd") auto

declare type_tree.simps [simp del]

definition complete_arrays :: "c_type list \<Rightarrow> bool" where
  "complete_arrays ts = (\<forall>t\<in>set ts. case t of ARRAY_TYPE _ inc _ _ \<Rightarrow> \<not> inc | _ \<Rightarrow> True)"

lemma c_types_eq_fuel_trees:
  assumes "\<And>x y. x \<in> set as \<Longrightarrow> y \<in> set bs \<Longrightarrow> c_type_eq_fuel n env x y = Inr (f x = f y)"
    and "length as = length bs"
  shows "c_types_eq_fuel n env as bs = Inr (map f as = map f bs)"
  using assms(2,1) by (induction as bs rule: list_induct2) auto

lemma c_type_eq_fuel_trees:
  assumes "refs_ok (ctypes env)" "complete_arrays (ctypes env)"
    and "a < n" "b < n" "a < length (ctypes env)" "b < length (ctypes env)"
  shows "c_type_eq_fuel n env a b = Inr (type_tree (ctypes env) a = type_tree (ctypes env) b)"
  using assms(3-)
proof (induction n arbitrary: a b)
  case (Suc n)
  let ?ts = "ctypes env"
  have lt: "r < c \<and> r < n \<and> r < length ?ts" if "r \<in> refs (?ts ! c)" "c \<in> {a, b}" for r c
  proof -
    have "r < c" "c < Suc n" "c < length ?ts" using assms(1) Suc.prems that by (auto simp: refs_ok_def)
    then show ?thesis by simp
  qed
  have arr: "\<not> inc" if "?ts ! c = ARRAY_TYPE e inc k ir" "c \<in> {a, b}" for c e inc k ir
    using assms(2) Suc.prems that by (force simp: complete_arrays_def dest: nth_mem)
  have IH: "c_type_eq_fuel n env x y = Inr (type_tree ?ts x = type_tree ?ts y)"
    if "x \<in> refs (?ts ! a)" "y \<in> refs (?ts ! b)" for x y
    using Suc.IH [of x y] lt [of x a] lt [of y b] that by simp
  show ?case
  proof (cases "?ts ! a"; cases "?ts ! b")
    fix r as va r' as' va'
    assume f: "?ts ! a = FUNCTION_TYPE r as va" "?ts ! b = FUNCTION_TYPE r' as' va'"
    have args: "c_types_eq_fuel n env as as' = Inr (map (type_tree ?ts) as = map (type_tree ?ts) as')"
      if "length as = length as'"
      by (rule c_types_eq_fuel_trees [OF _ that]) (use IH f in auto)
    have "\<forall>x\<in>insert r (set as). x < a" "\<forall>x\<in>insert r' (set as'). x < b"
      using lt [of _ a] lt [of _ b] f by auto
    note below = this
    have "type_tree ?ts a = T_Function (type_tree ?ts r) (map (type_tree ?ts) as)"
      using below(1) f(1) by (auto simp: type_tree.simps [of ?ts a])
    moreover have "type_tree ?ts b = T_Function (type_tree ?ts r') (map (type_tree ?ts) as')"
      using below(2) f(2) by (auto simp: type_tree.simps [of ?ts b])
    moreover have "c_type_eq_fuel n env r r' = Inr (type_tree ?ts r = type_tree ?ts r')"
      using IH f by simp
    ultimately show ?thesis
      using Suc.prems f args by (auto simp: at_def dest: map_eq_imp_length_eq)
  qed (use Suc.prems IH lt [of _ a] lt [of _ b] arr [of a] arr [of b] in \<open>auto simp: type_tree.simps [of ?ts a] type_tree.simps [of ?ts b] at_def\<close>)
qed simp

section \<open>Literals\<close>

definition builtins_ok :: "type_env \<Rightarrow> bool" where
  "builtins_ok env = (take 15 (ctypes env) = ctypes init_type_env)"

lemma builtin_at:
  assumes "builtins_ok env" "i < 15"
  shows "at (ctypes env) i = Inr (ctypes init_type_env ! i)"
proof -
  have "length (take 15 (ctypes env)) = 15"
    using assms(1) by (simp add: builtins_ok_def init_type_env_def del: length_take)
  then have len: "15 \<le> length (ctypes env)" by simp
  have "ctypes env ! i = take 15 (ctypes env) ! i" using assms(2) by simp
  then show ?thesis using assms len unfolding builtins_ok_def at_def by (metis less_le_trans)
qed

lemma sint_small:
  fixes v :: u64
  assumes "unat v < 2 ^ 63"
  shows "sint v = uint v"
proof -
  have "uint v = int (unat v)" by simp
  moreover have "int (unat v) < int (2 ^ 63)" using assms by (simp only: of_nat_less_iff)
  ultimately have "uint v < 2 ^ 63" by simp
  moreover have "- (2 ^ 63) \<le> uint v" by (rule order_trans [OF _ uint_ge_0]) simp
  ultimately have "signed_take_bit 63 (uint v) = uint v" by (intro signed_take_bit_int_eq_self) simp_all
  then show ?thesis by (simp add: sint_uint)
qed

lemma value_fits_builtin:
  assumes "builtins_ok env" "unat v < 2 ^ 63"
  shows "value_fits_in_type m env int_type v = Inr (unat v < 2 ^ 31)"
    "value_fits_in_type m env long_type v = Inr True"
    "value_fits_in_type m env long_long_type v = Inr True"
    "value_fits_in_type m env unsigned_int_type v = Inr (unat v < 2 ^ 32)"
    "value_fits_in_type m env unsigned_long_type v = Inr True"
    "value_fits_in_type m env unsigned_long_long_type v = Inr True"
proof -
  have u: "uint v = int (unat v)" "0 \<le> uint v" by simp_all
  show "value_fits_in_type m env int_type v = Inr (unat v < 2 ^ 31)"
    "value_fits_in_type m env long_type v = Inr True"
    "value_fits_in_type m env long_long_type v = Inr True"
    "value_fits_in_type m env unsigned_int_type v = Inr (unat v < 2 ^ 32)"
    "value_fits_in_type m env unsigned_long_type v = Inr True"
    "value_fits_in_type m env unsigned_long_long_type v = Inr True"
    using assms(2)
    by (simp_all add: value_fits_in_type_def c_type_size_def c_type_to_ir_type_def builtin_refs
        builtin_at [OF assms(1)] init_type_env_def sint_small [OF assms(2)])
      (use u in linarith)+
qed

section \<open>Named types\<close>

definition spec_words :: "string list \<Rightarrow> ('e, 'f) ast_decl_specifier list" where
  "spec_words ws = map (\<lambda>w. TYPE_SPECIFIER (NAMED_TYPE_SPECIFIER w)) ws"

lemma matches_words:
  "\<forall>w\<in>set vs. CHR 0x00 \<notin> set w \<Longrightarrow> matches_sequence (spec_words vs) ws = Inr (vs = ws)"
proof (induction vs arbitrary: ws)
  case Nil
  then show ?case by (cases ws) (auto simp: spec_words_def)
next
  case (Cons v vs)
  then show ?case by (cases ws) (auto simp: spec_words_def string_eq_iff)
qed

lemma matches_any_words:
  "\<forall>w\<in>set vs. CHR 0x00 \<notin> set w \<Longrightarrow> matches_any (spec_words vs) wss = Inr (vs \<in> set wss)"
  by (induction wss) (auto simp: matches_words)

lemma first_match_words:
  assumes "\<forall>w\<in>set vs. CHR 0x00 \<notin> set w"
  shows "first_match (spec_words vs) table =
    Inr (map_option snd (find (\<lambda>(wss, c). vs \<in> set wss) table))"
  using assms by (induction table) (auto simp: matches_any_words)

lemma find_named_type:
  assumes "distinct (concat (map fst table))" "(wss, c) \<in> set table" "ws \<in> set wss"
  shows "find (\<lambda>(wss, c). ws \<in> set wss) table = Some (wss, c)"
  using assms
proof (induction table)
  case (Cons e table)
  show ?case
  proof (cases "(wss, c) \<in> set table")
    case True
    then have "ws \<notin> set (fst e)" using Cons.prems by force
    then show ?thesis using Cons True by (cases e) auto
  next
    case False
    then show ?thesis using Cons.prems by auto
  qed
qed simp

lemma named_types_distinct: "distinct (concat (map fst named_types))"
  by (simp add: named_types_def)

lemma named_types_words:
  "(wss, c) \<in> set named_types \<Longrightarrow> ws \<in> set wss \<Longrightarrow> ws \<noteq> [] \<and> (\<forall>w\<in>set ws. CHR 0x00 \<notin> set w)"
  by (auto simp: named_types_def)

section \<open>Layout\<close>

text \<open>
  A field whose size is exact and whose alignment is a power of two up to 128, which is what
  fits the byte that holds the alignment.
\<close>

definition byte_align :: "ir_type \<Rightarrow> nat" where
  "byte_align t = (case align_of_ir_type t of Inr a \<Rightarrow> unat a | Inl _ \<Rightarrow> 0)"

definition field_ok :: "ir_type \<Rightarrow> bool" where
  "field_ok t = (sized t \<and> byte_size t < 2 ^ 32 \<and> (\<exists>k\<le>7. align_of_ir_type t = Inr (2 ^ k)))"

lemma field_okE:
  assumes "field_ok t"
  obtains s k where "size_of_ir_type t = Inr s" "unat s = byte_size t" "k \<le> 7"
    "align_of_ir_type t = Inr (2 ^ k)" "byte_align t = 2 ^ k"
proof -
  obtain k where k: "k \<le> 7" "align_of_ir_type t = Inr (2 ^ k)" using assms by (auto simp: field_ok_def)
  have "unat (2 ^ k :: u32) = 2 ^ k" using k(1) by (intro unat_exp2) simp
  then show thesis
    using that size_of_sized [of t] assms k by (auto simp: field_ok_def byte_align_def)
qed

text \<open>\<open>placed e ts os e'\<close>: fields of these types at these offsets, the first at or after \<open>e\<close>,
  each after the end of the previous one, aligned, with less than an alignment of padding,
  and \<open>e'\<close> the end of the last.\<close>

fun placed :: "nat \<Rightarrow> ir_type list \<Rightarrow> u32 list \<Rightarrow> nat \<Rightarrow> bool" where
  "placed e [] [] e' = (e' = e)"
| "placed e (t # ts) (off # os) e' =
     (e \<le> unat off \<and> byte_align t dvd unat off \<and> unat off < e + byte_align t \<and>
      placed (unat off + byte_size t) ts os e')"
| "placed _ _ _ _ = False"

definition room :: "ir_type list \<Rightarrow> nat" where
  "room ts = (\<Sum>t\<leftarrow>ts. byte_size t + 128)"

lemma room_simps [simp]: "room [] = 0" "room (t # ts) = byte_size t + 128 + room ts"
  by (simp_all add: room_def)

lemma round_up_bounds:
  fixes n a :: nat
  assumes "0 < a"
  shows "n \<le> (n + (a - 1)) div a * a" "(n + (a - 1)) div a * a < n + a"
proof -
  have "n + (a - 1) < (n + (a - 1)) div a * a + a"
    by (subst add.commute) (rule dividend_less_div_times [OF assms])
  then show "n \<le> (n + (a - 1)) div a * a" using assms by linarith
  have "(n + (a - 1)) div a * a \<le> n + (a - 1)" by simp
  then show "(n + (a - 1)) div a * a < n + a" using assms by linarith
qed

lemma align_to_facts:
  assumes "k \<le> 7" "unat n + 128 \<le> 2 ^ 32"
  shows "unat n \<le> unat (align_to n (2 ^ k))" "2 ^ k dvd unat (align_to n (2 ^ k))"
    "unat (align_to n (2 ^ k)) < unat n + 2 ^ k"
proof -
  have "(2::nat) ^ k \<le> 2 ^ 7" using assms(1) by (intro power_increasing) auto
  then have eq: "unat (align_to n (2 ^ k)) = (unat n + (2 ^ k - 1)) div 2 ^ k * 2 ^ k"
    using assms by (intro align_to_unat) auto
  show "unat n \<le> unat (align_to n (2 ^ k))" "unat (align_to n (2 ^ k)) < unat n + 2 ^ k"
    unfolding eq by (rule round_up_bounds, simp)+
  show "2 ^ k dvd unat (align_to n (2 ^ k))" unfolding eq by simp
qed

lemma dvd_max_pow2:
  assumes "j \<le> 7" "M = 0 \<or> (\<exists>k\<le>7. M = 2 ^ k)"
  shows "\<exists>k\<le>7. max_u32 M (2 ^ j) = (2 ^ k :: u32) \<and> 2 ^ j dvd (2::nat) ^ k \<and> (M = 0 \<or> unat M dvd 2 ^ k)"
proof -
  have u: "unat (2 ^ k :: u32) = 2 ^ k" if "k \<le> 7" for k using that by (intro unat_exp2) simp
  consider "M = 0" | k where "k \<le> 7" "M = 2 ^ k" using assms(2) by blast
  then show ?thesis
  proof cases
    case 1
    then have "max_u32 M (2 ^ j) = 2 ^ j" using u [OF assms(1)] by (simp add: max_u32_def word_less_nat_alt)
    then show ?thesis using assms(1) 1 by (intro exI [of _ j]) simp
  next
    case 2
    have "max_u32 M (2 ^ j) = (if k < j then 2 ^ j else 2 ^ k)"
      using 2 u [OF assms(1)] u [OF 2(1)] by (simp add: max_u32_def word_less_nat_alt)
    then show ?thesis
      using assms(1) 2 u [OF 2(1)] by (intro exI [of _ "if k < j then j else k"]) (auto simp: le_imp_power_dvd)
  qed
qed

lemma layout_struct_placed:
  assumes "list_all field_ok ts" "unat (current_offset l) + room ts + 128 \<le> 2 ^ 32"
    and "max_field_align l = 0 \<or> (\<exists>k\<le>7. max_field_align l = 2 ^ k)"
  shows "\<exists>l' os. layout_fields True False l ts = Inr l' \<and> field_offsets l' = field_offsets l @ os \<and>
    placed (unat (current_offset l)) ts os (unat (current_offset l')) \<and>
    unat (current_offset l') \<le> unat (current_offset l) + room ts \<and>
    (max_field_align l' = max_field_align l \<and> ts = [] \<or> (\<exists>k\<le>7. max_field_align l' = 2 ^ k)) \<and>
    (max_field_align l = 0 \<or> unat (max_field_align l) dvd unat (max_field_align l')) \<and>
    (\<forall>t\<in>set ts. byte_align t dvd unat (max_field_align l'))"
  using assms
proof (induction ts arbitrary: l)
  case Nil
  then show ?case by auto
next
  case (Cons t ts)
  obtain s k where t: "size_of_ir_type t = Inr s" "unat s = byte_size t" "k \<le> 7"
    "align_of_ir_type t = Inr (2 ^ k)" "byte_align t = 2 ^ k"
    using Cons.prems(1) by (auto elim: field_okE)
  let ?off = "align_to (current_offset l) (2 ^ k)"
  note al = align_to_facts [of k "current_offset l", OF t(3)]
  have p7: "(2::nat) ^ k \<le> 2 ^ 7" using t(3) by (intro power_increasing) auto
  have o: "unat (current_offset l) \<le> unat ?off" "2 ^ k dvd unat ?off" "unat ?off < unat (current_offset l) + 2 ^ k"
    using al Cons.prems(2) by simp_all
  have sum: "unat (?off + s) = unat ?off + byte_size t"
    using o p7 Cons.prems(2) t(2) by (subst unat_add_no_wrap) simp_all
  obtain j where j: "j \<le> 7" "max_u32 (max_field_align l) (2 ^ k) = 2 ^ j" "2 ^ k dvd (2::nat) ^ j"
    "max_field_align l = 0 \<or> unat (max_field_align l) dvd 2 ^ j"
    using dvd_max_pow2 [OF t(3) Cons.prems(3)] by blast
  have uj: "unat (2 ^ j :: u32) = 2 ^ j" using j(1) by (intro unat_exp2) simp
  let ?l = "l\<lparr>max_field_size := max_u32 (max_field_size l) s, max_field_align := 2 ^ j,
    field_offsets := field_offsets l @ [?off], current_offset := ?off + s\<rparr>"
  have step: "layout_field True False l t = Inr ?l"
    using t(1,4) j(2) by (simp add: layout_field_def Let_def)
  obtain l' os where r: "layout_fields True False ?l ts = Inr l'" "field_offsets l' = field_offsets ?l @ os"
    "placed (unat (?off + s)) ts os (unat (current_offset l'))"
    "unat (current_offset l') \<le> unat (?off + s) + room ts"
    "max_field_align l' = 2 ^ j \<and> ts = [] \<or> (\<exists>k\<le>7. max_field_align l' = 2 ^ k)"
    "(2 ^ j :: u32) = 0 \<or> unat (2 ^ j :: u32) dvd unat (max_field_align l')"
    "\<forall>t\<in>set ts. byte_align t dvd unat (max_field_align l')"
    using Cons.IH [of ?l] Cons.prems j(1) sum o(3) p7 by auto
  have "layout_fields True False l (t # ts) = Inr l'" using step r(1) by simp
  moreover have "field_offsets l' = field_offsets l @ (?off # os)" using r(2) by simp
  moreover have "placed (unat (current_offset l)) (t # ts) (?off # os) (unat (current_offset l'))"
    using o t(5) r(3) sum by simp
  moreover have "unat (current_offset l') \<le> unat (current_offset l) + room (t # ts)"
    using r(4) sum o(3) p7 by simp
  moreover have "\<exists>k\<le>7. max_field_align l' = 2 ^ k" using r(5) j(1) by blast
  moreover have "(2 ^ j :: u32) \<noteq> 0" using uj by (metis power_not_zero unat_0 zero_neq_numeral)
  then have dv: "2 ^ j dvd unat (max_field_align l')" using r(6) unfolding uj by blast
  moreover have "byte_align t dvd unat (max_field_align l')"
    "max_field_align l = 0 \<or> unat (max_field_align l) dvd unat (max_field_align l')"
    using j(3,4) t(5) dvd_trans [OF _ dv] by auto
  ultimately show ?case using r(7) by (intro exI [of _ l'] exI [of _ "?off # os"]) auto
qed

text \<open>In a union every field is at offset 0 and no field is larger than the largest.\<close>

lemma layout_union_fields:
  assumes "list_all field_ok ts" "max_field_align l = 0 \<or> (\<exists>k\<le>7. max_field_align l = 2 ^ k)"
  shows "\<exists>l'. layout_fields False False l ts = Inr l' \<and>
    field_offsets l' = field_offsets l @ replicate (length ts) 0 \<and>
    unat (max_field_size l) \<le> unat (max_field_size l') \<and>
    (\<forall>t\<in>set ts. byte_size t \<le> unat (max_field_size l')) \<and>
    (max_field_size l' = max_field_size l \<or> unat (max_field_size l') \<in> byte_size ` set ts) \<and>
    (max_field_align l' = max_field_align l \<and> ts = [] \<or> (\<exists>k\<le>7. max_field_align l' = 2 ^ k))"
  using assms
proof (induction ts arbitrary: l)
  case (Cons t ts)
  obtain s k where t: "size_of_ir_type t = Inr s" "unat s = byte_size t" "k \<le> 7"
    "align_of_ir_type t = Inr (2 ^ k)" "byte_align t = 2 ^ k"
    using Cons.prems(1) by (auto elim: field_okE)
  obtain j where j: "j \<le> 7" "max_u32 (max_field_align l) (2 ^ k) = 2 ^ j"
    using dvd_max_pow2 [OF t(3) Cons.prems(2)] by blast
  let ?l = "l\<lparr>max_field_size := max_u32 (max_field_size l) s, max_field_align := 2 ^ j,
    field_offsets := field_offsets l @ [0]\<rparr>"
  have step: "layout_field False False l t = Inr ?l"
    using t(1,4) j(2) by (simp add: layout_field_def Let_def)
  obtain l' where r: "layout_fields False False ?l ts = Inr l'"
    "field_offsets l' = field_offsets ?l @ replicate (length ts) 0"
    "unat (max_field_size ?l) \<le> unat (max_field_size l')"
    "\<forall>t\<in>set ts. byte_size t \<le> unat (max_field_size l')"
    "max_field_size l' = max_field_size ?l \<or> unat (max_field_size l') \<in> byte_size ` set ts"
    "max_field_align l' = 2 ^ j \<and> ts = [] \<or> (\<exists>k\<le>7. max_field_align l' = 2 ^ k)"
    using Cons.IH [of ?l] Cons.prems j(1) by auto
  have mx: "unat (max_field_size l) \<le> unat (max_field_size ?l)" "byte_size t \<le> unat (max_field_size ?l)"
    "max_field_size ?l = max_field_size l \<or> unat (max_field_size ?l) = byte_size t"
    using t(2) by (auto simp: max_u32_def word_less_nat_alt)
  have "layout_fields False False l (t # ts) = Inr l'" using step r(1) by simp
  moreover have "field_offsets l' = field_offsets l @ replicate (length (t # ts)) 0" using r(2) by simp
  moreover have "\<exists>k\<le>7. max_field_align l' = 2 ^ k" using r(6) j(1) by blast
  moreover have "max_field_size l' = max_field_size l \<or> unat (max_field_size l') \<in> byte_size ` set (t # ts)"
    using r(5) mx(3) by auto
  ultimately show ?case using r(3,4) mx(1,2) by (intro exI [of _ l']) auto
qed auto

lemma placed_length: "placed e ts os e' \<Longrightarrow> length os = length ts"
  by (induction e ts os e' rule: placed.induct) auto

lemma placed_end: "placed e ts os e' \<Longrightarrow> e \<le> e'"
  by (induction e ts os e' rule: placed.induct) auto

lemma placed_field:
  "placed e ts os e' \<Longrightarrow> i < length ts \<Longrightarrow>
   e \<le> unat (os ! i) \<and> byte_align (ts ! i) dvd unat (os ! i) \<and> unat (os ! i) + byte_size (ts ! i) \<le> e'"
proof (induction e ts os e' arbitrary: i rule: placed.induct)
  case (2 e t ts off os e')
  then show ?case by (cases i) (force dest: placed_end)+
qed auto

lemma placed_order:
  "placed e ts os e' \<Longrightarrow> i < j \<Longrightarrow> j < length ts \<Longrightarrow> unat (os ! i) + byte_size (ts ! i) \<le> unat (os ! j)"
proof (induction e ts os e' arbitrary: i j rule: placed.induct)
  case (2 e t ts off os e')
  then show ?case by (cases i; cases j) (auto dest: placed_field)
qed auto

section \<open>Arrays\<close>

fun is_c_array :: "c_type \<Rightarrow> bool" where
  "is_c_array (ARRAY_TYPE _ _ _ _) = True"
| "is_c_array _ = False"

fun is_ir_array :: "ir_type \<Rightarrow> bool" where
  "is_ir_array (IR_ARRAY _ _) = True"
| "is_ir_array _ = False"

fun flat_length :: "ir_type \<Rightarrow> nat" where
  "flat_length (IR_ARRAY _ n) = unat n"
| "flat_length _ = 1"

section \<open>Properties\<close>

text \<open>
  C11. Equality of C types: in a type environment whose types refer to earlier types only and
  whose arrays have lengths, \<^verbatim>\<open>c_type_eq\<close> returns, and returns whether the two types denote
  the same tree of types (so it is an equivalence). The variadic flag of functions plays no
  part.
\<close>

theorem c_type_eq_trees:
  assumes "refs_ok (ctypes env)" "complete_arrays (ctypes env)"
    and "a < length (ctypes env)" "b < length (ctypes env)"
  shows "c_type_eq env a b = Inr (type_tree (ctypes env) a = type_tree (ctypes env) b)"
  unfolding c_type_eq_def by (rule c_type_eq_fuel_trees) (use assms in auto)

theorem c_type_eq_trees_witness:
  "c_type_eq (snd (pointer_type (snd (pointer_type init_type_env char_type)) char_type)) 15 16 = Inr True"
proof -
  let ?e = "snd (pointer_type (snd (pointer_type init_type_env char_type)) char_type)"
  have len: "length (ctypes init_type_env) = 15" by (simp add: init_type_env_def)
  have ct: "ctypes ?e = ctypes init_type_env @ [POINTER_TYPE 1, POINTER_TYPE 1]"
    by (simp add: pointer_type_def new_c_type_def char_type_def)
  have "refs (ctypes init_type_env ! i) = {}" if "i < 15" for i
    using that by (auto simp: init_type_env_def less_Suc_eq numeral_eq_Suc)
  moreover have "i < 15 \<or> i = 15 \<or> i = 16" if "i < 17" for i :: nat using that by auto
  ultimately have "refs_ok (ctypes ?e)" unfolding ct refs_ok_def
    by (fastforce simp: len nth_append)
  moreover have "complete_arrays (ctypes ?e)" unfolding ct
    by (simp add: complete_arrays_def init_type_env_def)
  ultimately have "c_type_eq ?e 15 16 = Inr (type_tree (ctypes ?e) 15 = type_tree (ctypes ?e) 16)"
    by (rule c_type_eq_trees) (simp_all add: ct len)
  moreover have "type_tree (ctypes ?e) 15 = T_Pointer (type_tree (ctypes ?e) 1)"
    "type_tree (ctypes ?e) 16 = T_Pointer (type_tree (ctypes ?e) 1)"
    by (subst type_tree.simps, simp add: ct nth_append len)+
  ultimately show ?thesis by simp
qed

text \<open>
  C21. Types of integer literals: a literal below \<open>2 ^ 63\<close> gets the first type of the C99
  table for decimal literals that represents its value.
\<close>

theorem int_literal_types:
  assumes "builtins_ok env" "unat v < 2 ^ 63"
  shows "type_of_int_literal m env \<lparr>int_value = v, int_suffix = NO_SUFFIX\<rparr> =
       Inr (if unat v < 2 ^ 31 then int_type else long_type) \<and>
     type_of_int_literal m env \<lparr>int_value = v, int_suffix = UNSIGNED_SUFFIX\<rparr> =
       Inr (if unat v < 2 ^ 32 then unsigned_int_type else unsigned_long_type) \<and>
     type_of_int_literal m env \<lparr>int_value = v, int_suffix = LONG_SUFFIX\<rparr> = Inr long_type \<and>
     type_of_int_literal m env \<lparr>int_value = v, int_suffix = UNSIGNED_SUFFIX OR LONG_SUFFIX\<rparr> =
       Inr unsigned_long_type \<and>
     type_of_int_literal m env \<lparr>int_value = v, int_suffix = LONG_LONG_SUFFIX\<rparr> = Inr long_long_type \<and>
     type_of_int_literal m env \<lparr>int_value = v, int_suffix = UNSIGNED_SUFFIX OR LONG_LONG_SUFFIX\<rparr> =
       Inr unsigned_long_long_type"
  by (simp add: type_of_int_literal_def suffix_defs value_fits_builtin [OF assms])

theorem int_literal_types_witness:
  "type_of_int_literal ir_module_init init_type_env \<lparr>int_value = 3000000000, int_suffix = NO_SUFFIX\<rparr> =
     Inr long_type"
  using int_literal_types [of init_type_env 3000000000 ir_module_init]
  by (simp add: builtins_ok_def init_type_env_def)


text \<open>
  The words of a declaration name their type: every word list of the table is found, and
  since no list occurs twice the order of the tests does not matter.
\<close>

theorem named_types_found:
  assumes "(wss, c) \<in> set named_types" "ws \<in> set wss"
  shows "named_type_specifier_to_ctype env (spec_words ws) = Inr c"
proof -
  have w: "ws \<noteq> []" "\<forall>w\<in>set ws. CHR 0x00 \<notin> set w" using named_types_words [OF assms] by auto
  have "first_match (spec_words ws) named_types = Inr (Some c)"
    using find_named_type [OF named_types_distinct assms] by (simp add: first_match_words [OF w(2)])
  then show ?thesis
    using w(1) by (cases ws) (auto simp: named_type_specifier_to_ctype_def spec_words_def)
qed

text \<open>
  C9. Layout of a structure: with sized fields whose alignments are powers of two up to 128
  and whose sizes leave room in 32 bits, every field is aligned, lies behind all earlier
  fields and inside the structure, and the size of the structure is a multiple of its
  alignment, which is a multiple of every field's.
\<close>

theorem struct_layout_sound:
  assumes "list_all field_ok ts" "ts \<noteq> []" "room ts + 256 \<le> 2 ^ 32"
  shows "\<exists>os total align. struct_layout True False name ts = Inr (IR_STRUCT name (zip ts os) total align) \<and>
    length os = length ts \<and> align \<noteq> 0 \<and> unat align dvd unat total \<and>
    (\<forall>i<length ts. byte_align (ts ! i) dvd unat (os ! i) \<and> byte_align (ts ! i) dvd unat align \<and>
       unat (os ! i) + byte_size (ts ! i) \<le> unat total \<and>
       (\<forall>j<i. unat (os ! j) + byte_size (ts ! j) \<le> unat (os ! i)))"
proof -
  let ?l = "\<lparr>field_offsets = [], current_offset = 0, max_field_size = 0, max_field_align = 0\<rparr>"
  obtain l os k where l: "layout_fields True False ?l ts = Inr l" "field_offsets l = os"
    "placed 0 ts os (unat (current_offset l))" "unat (current_offset l) \<le> room ts"
    "k \<le> 7" "max_field_align l = 2 ^ k" "\<forall>t\<in>set ts. byte_align t dvd unat (max_field_align l)"
    using layout_struct_placed [of ts ?l] assms by auto
  let ?total = "align_to (current_offset l) (2 ^ k)"
  have u: "unat (2 ^ k :: u32) = 2 ^ k" using l(5) by (intro unat_exp2) simp
  have "(2::nat) ^ k \<le> 2 ^ 7" using l(5) by (intro power_increasing) auto
  then have "(2::nat) ^ k < 2 ^ LENGTH(8)" by simp
  then have u8: "unat (ucast (2 ^ k :: u32) :: u8) = 2 ^ k"
    unfolding unsigned_ucast_eq u by (rule take_bit_nat_eq_self)
  have tot: "unat (current_offset l) \<le> unat ?total" "2 ^ k dvd unat ?total"
    using align_to_facts [OF l(5), of "current_offset l"] l(4) assms(3) by simp_all
  have "struct_layout True False name ts =
      Inr (IR_STRUCT name (zip ts os) ?total (ucast (2 ^ k :: u32)))"
    using l(1,2,6) by (simp add: struct_layout_def Let_def)
  moreover have "(ucast (2 ^ k :: u32) :: u8) \<noteq> 0" using u8 by (metis power_not_zero unat_0 zero_neq_numeral)
  moreover have "unat (os ! i) + byte_size (ts ! i) \<le> unat ?total \<and> byte_align (ts ! i) dvd unat (os ! i) \<and>
      byte_align (ts ! i) dvd 2 ^ k" if "i < length ts" for i
    using placed_field [OF l(3) that] tot(1) l(6,7) u nth_mem [OF that] by auto
  ultimately show ?thesis
    using placed_order [OF l(3)] placed_length [OF l(3)] tot(2) u8
    by (intro exI [of _ os] exI [of _ ?total] exI [of _ "ucast (2 ^ k :: u32)"]) auto
qed

theorem struct_layout_sound_witness:
  "\<exists>os total align. struct_layout True False ''s'' [IR_INT 8, IR_INT 64] =
     Inr (IR_STRUCT ''s'' (zip [IR_INT 8, IR_INT 64] os) total align) \<and> unat align dvd unat total"
proof -
  have "\<exists>k\<le>7. align_of_ir_type (IR_INT 8) = Inr (2 ^ k)" by (intro exI [of _ 0]) simp
  moreover have "\<exists>k\<le>7. align_of_ir_type (IR_INT 64) = Inr (2 ^ k)" by (intro exI [of _ 3]) simp
  ultimately have "list_all field_ok [IR_INT 8, IR_INT 64]" by (simp add: field_ok_def)
  then show ?thesis using struct_layout_sound [of "[IR_INT 8, IR_INT 64]" "''s''"] by auto
qed

text \<open>
  C24. Layout of a union: every field is at offset 0 and fits in the union, whose size is a
  multiple of its alignment.
\<close>

theorem union_layout_sound:
  assumes "list_all field_ok ts" "ts \<noteq> []" "\<forall>t\<in>set ts. byte_size t + 256 \<le> 2 ^ 32"
  shows "\<exists>total align. struct_layout False False name ts =
      Inr (IR_STRUCT name (zip ts (replicate (length ts) 0)) total align) \<and>
    align \<noteq> 0 \<and> unat align dvd unat total \<and> (\<forall>t\<in>set ts. byte_size t \<le> unat total)"
proof -
  let ?l = "\<lparr>field_offsets = [], current_offset = 0, max_field_size = 0, max_field_align = 0\<rparr>"
  obtain l k where l: "layout_fields False False ?l ts = Inr l" "field_offsets l = replicate (length ts) 0"
    "\<forall>t\<in>set ts. byte_size t \<le> unat (max_field_size l)"
    "max_field_size l = 0 \<or> unat (max_field_size l) \<in> byte_size ` set ts"
    "k \<le> 7" "max_field_align l = 2 ^ k"
    using layout_union_fields [of ts ?l] assms by auto
  let ?total = "align_to (max_field_size l) (2 ^ k)"
  have "unat (max_field_size l) + 256 \<le> 2 ^ 32" using l(4) assms(3) by auto
  then have tot: "unat (max_field_size l) \<le> unat ?total" "2 ^ k dvd unat ?total"
    using align_to_facts [OF l(5), of "max_field_size l"] by simp_all
  have u: "unat (2 ^ k :: u32) = 2 ^ k" using l(5) by (intro unat_exp2) simp
  have "(2::nat) ^ k \<le> 2 ^ 7" using l(5) by (intro power_increasing) auto
  then have "(2::nat) ^ k < 2 ^ LENGTH(8)" by simp
  then have u8: "unat (ucast (2 ^ k :: u32) :: u8) = 2 ^ k"
    unfolding unsigned_ucast_eq u by (rule take_bit_nat_eq_self)
  have "struct_layout False False name ts =
      Inr (IR_STRUCT name (zip ts (replicate (length ts) 0)) ?total (ucast (2 ^ k :: u32)))"
    using l(1,2,6) by (simp add: struct_layout_def Let_def)
  moreover have "(ucast (2 ^ k :: u32) :: u8) \<noteq> 0" using u8 by (metis power_not_zero unat_0 zero_neq_numeral)
  ultimately show ?thesis using l(3) tot u8 by (metis (no_types, lifting) order_trans)
qed

theorem union_layout_sound_witness:
  "\<exists>total align. struct_layout False False ''u'' [IR_FLOAT IR_FLOAT_80, IR_POINTER] =
     Inr (IR_STRUCT ''u'' (zip [IR_FLOAT IR_FLOAT_80, IR_POINTER] [0, 0]) total align) \<and>
     unat align dvd unat total \<and> 16 \<le> unat total"
proof -
  have "\<exists>k\<le>7. align_of_ir_type (IR_FLOAT IR_FLOAT_80) = Inr (2 ^ k)" by (intro exI [of _ 4]) simp
  moreover have "\<exists>k\<le>7. align_of_ir_type IR_POINTER = Inr (2 ^ k)" by (intro exI [of _ 3]) simp
  ultimately have "list_all field_ok [IR_FLOAT IR_FLOAT_80, IR_POINTER]" by (simp add: field_ok_def)
  then show ?thesis using union_layout_sound [of "[IR_FLOAT IR_FLOAT_80, IR_POINTER]" "''u''"] by auto
qed

text \<open>
  Array types: giving a new array type its length makes its IR type the flat array whose
  size in bytes is the length times the size of the element type, also for arrays of arrays
  (whose IR type is an array exactly when the C type is), as long as the number of elements
  fits 64 bits.
\<close>

theorem array_type_layout:
  assumes "c_type_to_ir_type m env c = Inr t" "is_c_array (ctypes env ! c) = is_ir_array t"
    and "unat n * flat_length t < 2 ^ 64"
  shows "\<exists>a env1 env2 t'. array_type m env junk c = Inr (a, env1) \<and>
    set_array_type_length env1 a n = Inr env2 \<and> c_type_to_ir_type m env2 a = Inr t' \<and>
    byte_size t' = unat n * byte_size t"
proof -
  have c: "c < length (ctypes env)" using assms(1) by (auto simp: c_type_to_ir_type_def)
  show ?thesis
  proof (cases "is_ir_array t")
    case True
    then obtain e k where t: "t = IR_ARRAY e k" by (cases t) auto
    obtain ce inc sz ir where ca: "ctypes env ! c = ARRAY_TYPE ce inc sz ir"
      using assms(2) True by (cases "ctypes env ! c") auto
    then have ir: "ir < length (array_ir_types env)" "array_ir_types env ! ir = IR_ARRAY e k"
      using assms(1) c t by (auto simp: c_type_to_ir_type_def)
    have "unat (n * k) = unat n * unat k" using assms(3) t by (intro unat_mult_no_wrap) simp
    then show ?thesis using assms(1) t ca c ir
      by (simp add: array_type_def new_c_type_def set_array_type_length_def c_type_to_ir_type_def at_def
        nth_append mult.assoc)
  next
    case False
    then have "\<not> is_c_array (ctypes env ! c)" using assms(2) by simp
    then have "(case ctypes env ! c of ARRAY_TYPE _ _ _ ire \<Rightarrow> f ire | _ \<Rightarrow> r) = r" for f and r :: "u64 run"
      by (cases "ctypes env ! c") auto
    moreover have "(case t of IR_ARRAY e k \<Rightarrow> IR_ARRAY e k | _ \<Rightarrow> IR_ARRAY t 0) = IR_ARRAY t 0"
      using False by (cases t) auto
    ultimately show ?thesis using assms(1) c
      by (simp add: array_type_def new_c_type_def set_array_type_length_def at_def nth_append)
        (simp add: c_type_to_ir_type_def at_def)
  qed
qed

end
