(* ===== verification/Naive_Convert.thy ===== *)
theory Naive_Convert
  imports Naive_CType Naive_IR_Steps
begin

text \<open>
  Conversions between C types (\<^verbatim>\<open>src/src/ir_gen/convert.c\<close>) and scopes
  (\<^verbatim>\<open>src/src/ir_gen/context.c\<close>).

  A \<^verbatim>\<open>Term\<close> pairs a C type with an IR value. A conversion appends at most the instructions
  it needs to the builder's current block; the usual arithmetic conversions append those for
  each operand in the block where the operand was computed and then go back.
\<close>

section \<open>Operations\<close>

record c_term =
  ctype :: ctype_ref
  tvalue :: ir_value

definition ir_bit_width :: "ir_module \<Rightarrow> type_env \<Rightarrow> ctype_ref \<Rightarrow> u8 run" where
  "ir_bit_width m env c = rbind (c_type_to_ir_type m env c) (\<lambda>t.
     case t of IR_INT w \<Rightarrow> Inr w | _ \<Rightarrow> undefined_behaviour)"

definition ir_float_width :: "ir_module \<Rightarrow> type_env \<Rightarrow> ctype_ref \<Rightarrow> u32 run" where
  "ir_float_width m env c = rbind (c_type_to_ir_type m env c) (\<lambda>t.
     case t of IR_FLOAT w \<Rightarrow> Inr (float_bits w) | _ \<Rightarrow> undefined_behaviour)"

definition is_function_pointer :: "type_env \<Rightarrow> c_type \<Rightarrow> c_type \<Rightarrow> ctype_ref \<Rightarrow> bool run" where
  "is_function_pointer env target source c =
     (case (target, source) of
        (POINTER_TYPE p, FUNCTION_TYPE _ _ _) \<Rightarrow> c_type_eq env p c
      | _ \<Rightarrow> Inr False)"

definition convert_value :: "type_env \<Rightarrow> ir_builder \<Rightarrow> c_term \<Rightarrow> ctype_ref \<Rightarrow> (ir_value \<times> ir_builder) run" where
  "convert_value env b t target =
     rbind (at (ctypes env) (ctype t)) (\<lambda>source_type.
     rbind (at (ctypes env) target) (\<lambda>target_type.
       case (source_type, target_type) of
         (INTEGER_TYPE _ is_signed, INTEGER_TYPE _ _) \<Rightarrow>
           rbind (c_type_to_ir_type (module b) env target) (\<lambda>ir.
           rbind (ir_bit_width (module b) env target) (\<lambda>target_width.
           rbind (ir_bit_width (module b) env (ctype t)) (\<lambda>source_width.
             if source_width > target_width then build_type_instr b OP_TRUNC (tvalue t) ir
             else if is_signed then build_type_instr b OP_SEXT (tvalue t) ir
             else build_type_instr b OP_ZEXT (tvalue t) ir)))
       | (FLOAT_TYPE _, FLOAT_TYPE _) \<Rightarrow>
           rbind (c_type_to_ir_type (module b) env target) (\<lambda>ir.
           rbind (ir_float_width (module b) env target) (\<lambda>target_width.
           rbind (ir_float_width (module b) env (ctype t)) (\<lambda>source_width.
             if source_width > target_width then build_type_instr b OP_TRUNCF (tvalue t) ir
             else build_type_instr b OP_EXTF (tvalue t) ir)))
       | (INTEGER_TYPE _ is_signed, FLOAT_TYPE _) \<Rightarrow>
           rbind (c_type_to_ir_type (module b) env target) (\<lambda>ir.
             build_type_instr b (if is_signed then OP_SINT_TO_FLOAT else OP_UINT_TO_FLOAT) (tvalue t) ir)
       | (FLOAT_TYPE _, INTEGER_TYPE _ target_signed) \<Rightarrow>
           rbind (c_type_to_ir_type (module b) env target) (\<lambda>ir.
             if \<not> target_signed then exit_unimplemented
             else build_type_instr b OP_FLOAT_TO_SINT (tvalue t) ir)
       | (INTEGER_TYPE _ _, POINTER_TYPE _) \<Rightarrow>
           rbind (ir_bit_width (module b) env (ctype t)) (\<lambda>width.
           rbind (if width < 64 then build_type_instr b OP_ZEXT (tvalue t) (IR_INT 64)
                  else if width \<noteq> 64 then exit_unimplemented
                  else Inr (tvalue t, b)) (\<lambda>(v, b).
           rbind (c_type_to_ir_type (module b) env target) (\<lambda>ir. build_type_instr b OP_CAST v ir)))
       | (POINTER_TYPE _, INTEGER_TYPE _ _) \<Rightarrow>
           rbind (c_type_to_ir_type (module b) env target) (\<lambda>ir. build_type_instr b OP_CAST (tvalue t) ir)
       | (POINTER_TYPE _, POINTER_TYPE _) \<Rightarrow> Inr (tvalue t, b)
       | (ARRAY_TYPE _ _ _ _, POINTER_TYPE _) \<Rightarrow>
           if vtype (tvalue t) \<noteq> IR_POINTER then exit_ice else Inr (tvalue t, b)
       | _ \<Rightarrow>
           rbind (is_function_pointer env target_type source_type (ctype t)) (\<lambda>fp.
             if fp then Inr (tvalue t, b)
             else if target_type = VOID_TYPE then Inr (tvalue t, b)
             else exit_unimplemented)))"

definition convert_type :: "type_env \<Rightarrow> ir_builder \<Rightarrow> c_term \<Rightarrow> ctype_ref \<Rightarrow> (c_term \<times> ir_builder) run" where
  "convert_type env b t target =
     rbind (c_type_eq env (ctype t) target) (\<lambda>same.
       if same then Inr (t, b)
       else rbind (convert_value env b t target) (\<lambda>(v, b). Inr (\<lparr>ctype = target, tvalue = v\<rparr>, b)))"

fun is_float :: "c_type \<Rightarrow> bool" where
  "is_float (FLOAT_TYPE _) = True"
| "is_float _ = False"

fun is_signed_int :: "c_type \<Rightarrow> bool" where
  "is_signed_int (INTEGER_TYPE _ s) = s"
| "is_signed_int _ = False"

fun float_priority :: "c_type \<Rightarrow> int" where
  "float_priority (FLOAT_TYPE FLOAT) = 0"
| "float_priority (FLOAT_TYPE DOUBLE) = 1"
| "float_priority (FLOAT_TYPE LONG_DOUBLE) = 2"
| "float_priority _ = -1"

text \<open>
  The conversion of one operand in its own block. The operands are returned as a pair, the
  left one first.
\<close>

definition convert_in_block ::
  "type_env \<Rightarrow> ir_builder \<Rightarrow> block_ref option \<Rightarrow> c_term \<Rightarrow> ctype_ref \<Rightarrow> (c_term \<times> ir_builder) run" where
  "convert_in_block env b block t target = convert_type env (b\<lparr>current_block := block\<rparr>) t target"

definition do_arithmetic_conversions_with_blocks ::
  "type_env \<Rightarrow> ir_builder \<Rightarrow> c_term \<Rightarrow> block_ref option \<Rightarrow> c_term \<Rightarrow> block_ref option \<Rightarrow>
   (c_term \<times> c_term \<times> ir_builder) run" where
  "do_arithmetic_conversions_with_blocks env b left left_block right right_block =
     rbind (is_arithmetic_type env (ctype left)) (\<lambda>la.
     rbind (if la then is_arithmetic_type env (ctype right) else Inr False) (\<lambda>ra.
     if \<not> (la \<and> ra) then exit_ice
     else
     rbind (at (ctypes env) (ctype left)) (\<lambda>tl.
     rbind (at (ctypes env) (ctype right)) (\<lambda>tr.
       let original_block = current_block b;
           any_float = (is_float tl \<or> is_float tr)
       in rbind
         (if any_float \<or> is_signed_int tl = is_signed_int tr then
            rbind (if any_float then Inr (float_priority tl, float_priority tr)
                   else rbind (c_type_rank env (ctype left)) (\<lambda>rl.
                        rbind (c_type_rank env (ctype right)) (\<lambda>rr. Inr (uint rl, uint rr))))
              (\<lambda>(lp, rp).
                 if lp \<noteq> rp then
                   (if lp < rp
                    then rbind (convert_in_block env b left_block left (ctype right))
                           (\<lambda>(t, b). Inr (t, right, b))
                    else rbind (convert_in_block env b right_block right (ctype left))
                           (\<lambda>(t, b). Inr (left, t, b)))
                 else Inr (left, right, b))
          else
            rbind (c_type_rank env (ctype left)) (\<lambda>rl.
            rbind (c_type_rank env (ctype right)) (\<lambda>rr.
              if is_signed_int tl then
                (if rr \<ge> rl
                 then rbind (convert_in_block env b left_block left (ctype right))
                        (\<lambda>(t, b). Inr (t, right, b))
                 else rbind (convert_in_block env b right_block right (ctype left))
                        (\<lambda>(t, b). Inr (left, t, b)))
              else
                (if rl \<ge> rr
                 then rbind (convert_in_block env b right_block right (ctype left))
                        (\<lambda>(t, b). Inr (left, t, b))
                 else rbind (convert_in_block env b left_block left (ctype right))
                        (\<lambda>(t, b). Inr (t, right, b))))))
         (\<lambda>(l, r, b). Inr (l, r, b\<lparr>current_block := original_block\<rparr>))))))"

definition do_arithmetic_conversions ::
  "type_env \<Rightarrow> ir_builder \<Rightarrow> c_term \<Rightarrow> c_term \<Rightarrow> (c_term \<times> c_term \<times> ir_builder) run" where
  "do_arithmetic_conversions env b left right =
     do_arithmetic_conversions_with_blocks env b left (current_block b) right (current_block b)"

section \<open>Scopes\<close>

record binding =
  bind_name :: string
  is_constant :: bool
  bind_term :: c_term

text \<open>A scope and its parents, innermost first.\<close>

type_synonym scope = "binding list list"

fun find_binding :: "binding list \<Rightarrow> string \<Rightarrow> binding option" where
  "find_binding [] name = None"
| "find_binding (x # xs) name = (if string_eq (bind_name x) name then Some x else find_binding xs name)"

text \<open>The innermost scope is read before the test whether it has a parent.\<close>

fun binding_for_name :: "scope \<Rightarrow> string \<Rightarrow> binding option run" where
  "binding_for_name [] name = undefined_behaviour"
| "binding_for_name (s # ss) name =
     (case find_binding s name of
        Some x \<Rightarrow> Inr (Some x)
      | None \<Rightarrow> if ss \<noteq> [] then binding_for_name ss name else Inr None)"

definition push_scope :: "scope \<Rightarrow> scope" where
  "push_scope s = [] # s"

fun pop_scope :: "scope \<Rightarrow> scope run" where
  "pop_scope [] = exit_ice"
| "pop_scope (s # ss) = Inr ss"

section \<open>Conversions between arithmetic types\<close>

fun arithmetic :: "c_type \<Rightarrow> bool" where
  "arithmetic (INTEGER_TYPE _ _) = True"
| "arithmetic (FLOAT_TYPE _) = True"
| "arithmetic _ = False"

fun scalar_ir :: "c_type \<Rightarrow> ir_type" where
  "scalar_ir (INTEGER_TYPE k _) = IR_INT (int_bit_width k)"
| "scalar_ir (FLOAT_TYPE k) = IR_FLOAT (float_kind_bits k)"
| "scalar_ir _ = IR_VOID"

definition has_type :: "type_env \<Rightarrow> ctype_ref \<Rightarrow> c_type \<Rightarrow> bool" where
  "has_type env c t = (c < length (ctypes env) \<and> ctypes env ! c = t)"

text \<open>A term of arithmetic type whose value has the IR type of its C type.\<close>

definition arith_term :: "type_env \<Rightarrow> c_term \<Rightarrow> c_type \<Rightarrow> bool" where
  "arith_term env t ct = (arithmetic ct \<and> has_type env (ctype t) ct \<and> vtype (tvalue t) = scalar_ir ct)"

text \<open>A builder that can append to the given block.\<close>

definition can_append :: "ir_builder \<Rightarrow> block_ref option \<Rightarrow> bool" where
  "can_append b k = (\<exists>k' g f. k = Some k' \<and> k' < length (block_heap (module b)) \<and>
     current_function b = Some g \<and> function_of (module b) g = Inr f)"

lemma has_type_at: "has_type env c t \<Longrightarrow> at (ctypes env) c = Inr t"
  by (simp add: has_type_def)

lemma arithmetic_ir:
  "arithmetic t \<Longrightarrow> has_type env c t \<Longrightarrow> c_type_to_ir_type m env c = Inr (scalar_ir t)"
  by (cases t) (auto simp: c_type_to_ir_type_def has_type_at)

lemma c_type_eq_arithmetic:
  assumes "arithmetic s" "arithmetic t" "has_type env a s" "has_type env b t"
  shows "c_type_eq env a b = Inr (s = t)"
proof -
  obtain n where "length (ctypes env) = Suc n" using assms(3) by (cases "ctypes env") (auto simp: has_type_def)
  then show ?thesis using assms
    by (cases s; cases t) (auto simp: c_type_eq_def has_type_at)
qed

lemma ir_type_eq_scalar: "arithmetic t \<Longrightarrow> ir_type_eq u (scalar_ir t) \<Longrightarrow> u = scalar_ir t"
  by (cases t; cases u) auto

lemma emit_succeeds:
  assumes "can_append b (current_block b)"
  shows "\<exists>b'. emit b op t args =
    Inr (\<lparr>vtype = t, vkind = IR_VALUE_INSTR (length (instr_heap (module b)))\<rparr>, b') \<and> builds b b'"
proof -
  obtain b' where "emit b op t args =
      Inr (\<lparr>vtype = t, vkind = IR_VALUE_INSTR (length (instr_heap (module b)))\<rparr>, b')"
    using assms
    by (auto simp: emit_def append_instr_def value_instr_def can_append_def Let_def at_def)
  then show ?thesis using emit_builds by blast
qed

lemma build_type_instr_scalar:
  assumes "can_append b (current_block b)" "arithmetic t"
  shows "\<exists>w b'. build_type_instr b op v (scalar_ir t) = Inr (w, b') \<and> vtype w = scalar_ir t \<and> builds b b'"
  using emit_succeeds [OF assms(1), of op "scalar_ir t" "Arg v"] assms(2) ir_type_eq_scalar [of t "vtype v"]
  by (cases t; cases "vkind v")
    (auto simp: build_type_instr_def value_const_int_def value_const_float_def)

lemma convert_arithmetic:
  assumes t: "arith_term env t s" and u: "arithmetic u" "has_type env target u"
    and ok: "\<not> (is_float s \<and> \<not> is_float u)" and b: "can_append b (current_block b)"
  shows "\<exists>t' b'. convert_type env b t target = Inr (t', b') \<and> arith_term env t' u \<and> builds b b'"
proof (cases "s = u")
  case True
  then show ?thesis using t u c_type_eq_arithmetic [of s u env "ctype t" target]
    by (auto simp: convert_type_def arith_term_def)
next
  case False
  have at: "at (ctypes env) (ctype t) = Inr s" "at (ctypes env) target = Inr u" "arithmetic s"
    "has_type env (ctype t) s"
    using t u by (auto simp: arith_term_def has_type_def)
  have ir: "c_type_to_ir_type (module b) env target = Inr (scalar_ir u)"
    "c_type_to_ir_type (module b) env (ctype t) = Inr (scalar_ir s)"
    using arithmetic_ir u at by blast+
  have "\<exists>op. convert_value env b t target = build_type_instr b op (tvalue t) (scalar_ir u)"
    unfolding convert_value_def ir_bit_width_def ir_float_width_def ir at(1,2) rbind.simps
    using at(3) ok u(1) by (cases s; cases u) auto
  then obtain op where cv: "convert_value env b t target = build_type_instr b op (tvalue t) (scalar_ir u)" ..
  obtain w b' where w: "build_type_instr b op (tvalue t) (scalar_ir u) = Inr (w, b')"
    "vtype w = scalar_ir u" "builds b b'"
    using build_type_instr_scalar [OF b u(1)] by blast
  have "convert_type env b t target = Inr (\<lparr>ctype = target, tvalue = w\<rparr>, b')"
    using c_type_eq_arithmetic [OF at(3) u(1) at(4) u(2)] False cv w(1) by (simp add: convert_type_def)
  then show ?thesis using u w(2,3) by (auto simp: arith_term_def)
qed

section \<open>The usual arithmetic conversions\<close>

fun int_rank :: "c_type \<Rightarrow> u8" where
  "int_rank (INTEGER_TYPE k _) =
     (case k of BOOL \<Rightarrow> 0 | CHAR_K \<Rightarrow> 1 | SHORT \<Rightarrow> 2 | INT_K \<Rightarrow> 3 | LONG \<Rightarrow> 4 | LONG_LONG \<Rightarrow> 5)"
| "int_rank _ = 0"

text \<open>The type both operands get.\<close>

definition common_type :: "c_type \<Rightarrow> c_type \<Rightarrow> c_type" where
  "common_type s t =
     (if is_float s \<or> is_float t then (if float_priority s < float_priority t then t else s)
      else if is_signed_int s = is_signed_int t then (if int_rank s < int_rank t then t else s)
      else if int_rank s = int_rank t then (if is_signed_int s then t else s)
      else if int_rank s < int_rank t then t else s)"

lemma c_type_rank_int: "arithmetic t \<Longrightarrow> \<not> is_float t \<Longrightarrow> has_type env c t \<Longrightarrow> c_type_rank env c = Inr (int_rank t)"
  by (cases t) (auto simp: c_type_rank_def has_type_at)

lemma int_rank_inject:
  "arithmetic s \<Longrightarrow> arithmetic t \<Longrightarrow> \<not> is_float s \<Longrightarrow> \<not> is_float t \<Longrightarrow> int_rank s = int_rank t \<Longrightarrow>
   is_signed_int s = is_signed_int t \<Longrightarrow> s = t"
  by (cases s; cases t) (auto split: int_kind.splits)

lemma float_priority_simps [simp]:
  "float_priority (FLOAT_TYPE k) = float_priority (FLOAT_TYPE j) \<longleftrightarrow> k = j"
  "float_priority (FLOAT_TYPE k) \<noteq> -1" "- 1 \<noteq> float_priority (FLOAT_TYPE k)"
  "- 1 < float_priority (FLOAT_TYPE k)" "\<not> float_priority (FLOAT_TYPE k) < -1"
  by (cases k; cases j; simp)+

lemma float_priority_inject:
  "arithmetic s \<Longrightarrow> arithmetic t \<Longrightarrow> is_float s \<or> is_float t \<Longrightarrow> float_priority s = float_priority t \<Longrightarrow> s = t"
  by (cases s; cases t) auto

lemma float_priority_less:
  "arithmetic s \<Longrightarrow> arithmetic t \<Longrightarrow> float_priority s < float_priority t \<Longrightarrow> is_float t"
  by (cases s; cases t) auto

lemma builds_current_block: "builds b b' \<Longrightarrow> current_block b' = current_block b"
  by (auto simp: builds_def append_instr_def Let_def)

text \<open>Converting the operand whose type is not the common one, in its block.\<close>

lemma convert_left:
  assumes l: "arith_term env left s" and r: "arith_term env right t" and ok: "is_float s \<longrightarrow> is_float t"
    and b: "can_append b block"
  obtains l' b' where "convert_in_block env b block left (ctype right) = Inr (l', b')"
    "arith_term env l' t" "builds (b\<lparr>current_block := block\<rparr>) b'"
proof -
  have "can_append (b\<lparr>current_block := block\<rparr>) (current_block (b\<lparr>current_block := block\<rparr>))"
    using b by (simp add: can_append_def)
  then show thesis
    using convert_arithmetic [OF l, of t "ctype right" "b\<lparr>current_block := block\<rparr>"] r ok that
    by (auto simp: arith_term_def convert_in_block_def)
qed

lemma arithmetic_conversions:
  assumes l: "arith_term env left s" and r: "arith_term env right t"
    and lb: "can_append b left_block" and rb: "can_append b right_block"
  shows "\<exists>l' r' b'. do_arithmetic_conversions_with_blocks env b left left_block right right_block = Inr (l', r', b') \<and>
    arith_term env l' (common_type s t) \<and> arith_term env r' (common_type s t) \<and>
    current_block b' = current_block b"
proof -
  have a: "arithmetic s" "arithmetic t" "has_type env (ctype left) s" "has_type env (ctype right) t"
    using l r by (auto simp: arith_term_def)
  note at = has_type_at [OF a(3)] has_type_at [OF a(4)]
  have ar: "is_arithmetic_type env (ctype left) = Inr True" "is_arithmetic_type env (ctype right) = Inr True"
    using a at by (cases s; cases t; simp add: is_arithmetic_type_def)+
  have rank: "c_type_rank env (ctype left) = Inr (int_rank s)" "c_type_rank env (ctype right) = Inr (int_rank t)"
    if "\<not> is_float s" "\<not> is_float t" using that a c_type_rank_int by auto
  have conv: "\<exists>l' b'. convert_in_block env b left_block left (ctype right) = Inr (l', b') \<and> arith_term env l' t"
      if "is_float s \<longrightarrow> is_float t"
    using convert_left [OF l r that lb] by blast
  have conv': "\<exists>r' b'. convert_in_block env b right_block right (ctype left) = Inr (r', b') \<and> arith_term env r' s"
      if "is_float t \<longrightarrow> is_float s"
    using convert_left [OF r l that rb] by blast
  consider (fl) "is_float s \<or> is_float t" | (same) "\<not> is_float s" "\<not> is_float t" "is_signed_int s = is_signed_int t"
    | (mixed) "\<not> is_float s" "\<not> is_float t" "is_signed_int s \<noteq> is_signed_int t" by blast
  then show ?thesis
  proof cases
    case fl
    then show ?thesis
      using a l r conv conv' float_priority_inject [OF a(1,2)] float_priority_less [OF a(1,2)]
        float_priority_less [OF a(2,1)]
      by (cases "float_priority s" "float_priority t" rule: linorder_cases)
        (auto simp: do_arithmetic_conversions_with_blocks_def common_type_def Let_def at ar)
  next
    case same
    then show ?thesis
      using a l r conv conv' int_rank_inject [OF a(1,2)]
      by (cases "int_rank s" "int_rank t" rule: linorder_cases)
        (auto simp: do_arithmetic_conversions_with_blocks_def common_type_def Let_def at ar rank word_less_alt)
  next
    case mixed
    then show ?thesis
      using l r conv conv'
      by (cases "int_rank s" "int_rank t" rule: linorder_cases)
        (auto simp: do_arithmetic_conversions_with_blocks_def common_type_def Let_def at ar rank)
  qed
qed

lemma common_type_rank:
  "common_type s t = s \<or> common_type s t = t"
  "\<not> is_float s \<Longrightarrow> \<not> is_float t \<Longrightarrow>
     int_rank s \<le> int_rank (common_type s t) \<and> int_rank t \<le> int_rank (common_type s t)"
  by (auto simp: common_type_def)

section \<open>Scopes as maps\<close>

text \<open>
  What a user of nested scopes relies on: a name bound in the innermost scope for the first
  time is found there, other names keep their meaning, and leaving a scope restores the
  meanings from before it was entered.
\<close>

locale nested_scopes =
  fixes look :: "'s \<Rightarrow> 'k \<Rightarrow> 'v option"
    and enter :: "'s \<Rightarrow> 's"
    and leave :: "'s \<Rightarrow> 's"
    and bind :: "'s \<Rightarrow> 'k \<Rightarrow> 'v \<Rightarrow> 's"
    and local :: "'s \<Rightarrow> 'k \<Rightarrow> bool"
    and name_ok :: "'k \<Rightarrow> bool"
  assumes look_enter: "look (enter s) k = look s k"
    and leave_enter: "leave (enter s) = s"
    and local_enter: "\<not> local (enter s) k"
    and look_bind: "name_ok k \<Longrightarrow> \<not> local s k \<Longrightarrow> look (bind s k v) k = Some v"
    and look_bind_other: "name_ok k \<Longrightarrow> k \<noteq> j \<Longrightarrow> look (bind s k v) j = look s j"
    and local_bind: "name_ok k \<Longrightarrow> local (bind s k v) j \<longleftrightarrow> local s j \<or> j = k"
    and leave_bind: "leave (bind s k v) = leave s"
begin

primrec bind_all :: "'s \<Rightarrow> ('k \<times> 'v) list \<Rightarrow> 's" where
  "bind_all s [] = s"
| "bind_all s (kv # kvs) = bind_all (bind s (fst kv) (snd kv)) kvs"

lemma leave_bind_all: "leave (bind_all s kvs) = leave s"
  by (induction kvs arbitrary: s) (auto simp: leave_bind)

lemma leave_block: "leave (bind_all (enter s) kvs) = s"
  by (simp add: leave_bind_all leave_enter)

lemma look_bind_all_other:
  "\<forall>k\<in>fst ` set kvs. name_ok k \<and> k \<noteq> j \<Longrightarrow> look (bind_all s kvs) j = look s j"
  by (induction kvs arbitrary: s) (auto simp: look_bind_other)

lemma look_bind_all:
  "distinct (map fst kvs) \<Longrightarrow> \<forall>k\<in>fst ` set kvs. name_ok k \<and> \<not> local s k \<Longrightarrow> (k, v) \<in> set kvs \<Longrightarrow>
   look (bind_all s kvs) k = Some v"
proof (induction kvs arbitrary: s)
  case (Cons kv kvs)
  show ?case
  proof (cases "kv = (k, v)")
    case True
    then have "look (bind_all (bind s k v) kvs) k = look (bind s k v) k"
      using Cons.prems by (intro look_bind_all_other) auto
    then show ?thesis using Cons.prems True look_bind by auto
  next
    case False
    then have "(k, v) \<in> set kvs" using Cons.prems(3) by simp
    then show ?thesis using Cons.prems Cons.IH [of "bind s (fst kv) (snd kv)"]
      by (auto simp: local_bind image_iff) metis
  qed
qed simp

end

text \<open>
  The scopes of the program: a name is bound by appending to the innermost scope, lookups go
  through \<^verbatim>\<open>binding_for_name\<close>. There is always an innermost scope; the list is that of the
  scopes around it.
\<close>

type_synonym scopes = "binding list \<times> scope"

definition scopes_look :: "scopes \<Rightarrow> string \<Rightarrow> (bool \<times> c_term) option" where
  "scopes_look s name = (case binding_for_name (fst s # snd s) name of
     Inr r \<Rightarrow> map_option (\<lambda>x. (is_constant x, bind_term x)) r | Inl _ \<Rightarrow> None)"

definition scopes_enter :: "scopes \<Rightarrow> scopes" where
  "scopes_enter s = (hd (push_scope (fst s # snd s)), tl (push_scope (fst s # snd s)))"

definition scopes_leave :: "scopes \<Rightarrow> scopes" where
  "scopes_leave s = (case pop_scope (fst s # snd s) of Inr (t # ts) \<Rightarrow> (t, ts) | _ \<Rightarrow> ([], []))"

definition scopes_bind :: "scopes \<Rightarrow> string \<Rightarrow> bool \<times> c_term \<Rightarrow> scopes" where
  "scopes_bind s name v =
     (fst s @ [\<lparr>bind_name = name, is_constant = fst v, bind_term = snd v\<rparr>], snd s)"

definition scopes_local :: "scopes \<Rightarrow> string \<Rightarrow> bool" where
  "scopes_local s name = (\<exists>x\<in>set (fst s). string_eq (bind_name x) name)"

definition proper_name :: "string \<Rightarrow> bool" where
  "proper_name name = (CHR 0x00 \<notin> set name)"

lemma find_binding_append:
  "find_binding (xs @ ys) name = (case find_binding xs name of Some x \<Rightarrow> Some x | None \<Rightarrow> find_binding ys name)"
  by (induction xs) auto

lemma find_binding_None: "find_binding xs name = None \<longleftrightarrow> (\<forall>x\<in>set xs. \<not> string_eq (bind_name x) name)"
  by (induction xs) auto

interpretation sc: nested_scopes scopes_look scopes_enter scopes_leave scopes_bind scopes_local proper_name
proof
  fix s :: scopes and k j :: string and v :: "bool \<times> c_term"
  show "scopes_look (scopes_enter s) k = scopes_look s k"
    by (simp add: scopes_look_def scopes_enter_def push_scope_def)
  show "scopes_leave (scopes_enter s) = s"
    by (simp add: scopes_leave_def scopes_enter_def push_scope_def)
  show "\<not> scopes_local (scopes_enter s) k"
    by (simp add: scopes_local_def scopes_enter_def push_scope_def)
  show "proper_name k \<Longrightarrow> \<not> scopes_local s k \<Longrightarrow> scopes_look (scopes_bind s k v) k = Some v"
    using find_binding_None [of "fst s" k]
    by (simp add: scopes_look_def scopes_bind_def scopes_local_def find_binding_append)
  show "proper_name k \<Longrightarrow> k \<noteq> j \<Longrightarrow> scopes_look (scopes_bind s k v) j = scopes_look s j"
    by (simp add: scopes_look_def scopes_bind_def find_binding_append proper_name_def string_eq_iff
      split: option.splits)
  show "proper_name k \<Longrightarrow> scopes_local (scopes_bind s k v) j \<longleftrightarrow> scopes_local s j \<or> j = k"
    by (auto simp: scopes_local_def scopes_bind_def proper_name_def string_eq_iff)
  show "scopes_leave (scopes_bind s k v) = scopes_leave s"
    by (simp add: scopes_leave_def scopes_bind_def)
qed

section \<open>Properties\<close>

text \<open>
  C19. The usual arithmetic conversions succeed on any two terms of arithmetic type whose values
  have the IR types of their C types, give both the same C type, that of the operand with the
  greater rank (the unsigned one when ranks are equal and signs differ) or the greater floating
  type, and the same IR type, and leave the builder in the block it was in.
\<close>

theorem arithmetic_conversions_agree:
  assumes "arith_term env left s" "arith_term env right t" "can_append b (current_block b)"
  shows "\<exists>l r b'. do_arithmetic_conversions env b left right = Inr (l, r, b') \<and>
    arith_term env l (common_type s t) \<and> arith_term env r (common_type s t) \<and>
    vtype (tvalue l) = vtype (tvalue r) \<and> current_block b' = current_block b \<and>
    (is_float s \<or> is_float t \<or>
     int_rank s \<le> int_rank (common_type s t) \<and> int_rank t \<le> int_rank (common_type s t))"
  using arithmetic_conversions [OF assms(1,2,3,3)] common_type_rank(2) [of s t]
  by (auto simp: do_arithmetic_conversions_def arith_term_def)

theorem arithmetic_conversions_agree_witness:
  "\<exists>l r b'. do_arithmetic_conversions init_type_env (main_builder 0 [])
      \<lparr>ctype = int_type, tvalue = value_arg 0 (IR_INT 32)\<rparr>
      \<lparr>ctype = unsigned_long_type, tvalue = value_arg 1 (IR_INT 64)\<rparr> = Inr (l, r, b') \<and>
    vtype (tvalue l) = vtype (tvalue r) \<and> arith_term init_type_env l (INTEGER_TYPE LONG False)"
proof -
  have "arith_term init_type_env \<lparr>ctype = int_type, tvalue = value_arg 0 (IR_INT 32)\<rparr> (INTEGER_TYPE INT_K True)"
    "arith_term init_type_env \<lparr>ctype = unsigned_long_type, tvalue = value_arg 1 (IR_INT 64)\<rparr> (INTEGER_TYPE LONG False)"
    by (simp_all add: arith_term_def has_type_def int_type_def unsigned_long_type_def value_arg_def init_type_env_def)
  moreover have "can_append (main_builder 0 []) (current_block (main_builder 0 []))"
    by (simp add: can_append_def main_builder_def function_of_def at_def main_global_def)
  moreover have "common_type (INTEGER_TYPE INT_K True) (INTEGER_TYPE LONG False) = INTEGER_TYPE LONG False"
    by (simp add: common_type_def)
  ultimately show ?thesis using arithmetic_conversions_agree by (metis (no_types, lifting))
qed

text \<open>
  C25. Block structure of names: the names declared in a block, each once and none with a zero
  character, are found with the meanings given there, other names keep the meanings they had
  outside, and leaving the block restores the scopes that were there before it.
\<close>

theorem block_scope_names:
  assumes "distinct (map fst decls)" "\<forall>k\<in>fst ` set decls. proper_name k"
  shows "(\<forall>k v. (k, v) \<in> set decls \<longrightarrow> scopes_look (sc.bind_all (scopes_enter s) decls) k = Some v) \<and>
    (\<forall>j. j \<notin> fst ` set decls \<longrightarrow> scopes_look (sc.bind_all (scopes_enter s) decls) j = scopes_look s j) \<and>
    scopes_leave (sc.bind_all (scopes_enter s) decls) = s"
proof (intro conjI allI impI)
  fix k v assume "(k, v) \<in> set decls"
  then show "scopes_look (sc.bind_all (scopes_enter s) decls) k = Some v"
    using assms sc.local_enter by (intro sc.look_bind_all) auto
next
  fix j assume "j \<notin> fst ` set decls"
  then have "scopes_look (sc.bind_all (scopes_enter s) decls) j = scopes_look (scopes_enter s) j"
    using assms by (intro sc.look_bind_all_other) auto
  then show "scopes_look (sc.bind_all (scopes_enter s) decls) j = scopes_look s j"
    by (simp add: sc.look_enter)
qed (rule sc.leave_block)

theorem block_scope_names_witness:
  "scopes_look (sc.bind_all (scopes_enter ([], []))
     [(''x'', False, \<lparr>ctype = int_type, tvalue = value_const_int (IR_INT 32) 1\<rparr>),
      (''y'', True, \<lparr>ctype = int_type, tvalue = value_const_int (IR_INT 32) 2\<rparr>)]) ''y'' =
   Some (True, \<lparr>ctype = int_type, tvalue = value_const_int (IR_INT 32) 2\<rparr>)"
  using block_scope_names [of "[(''x'', False, \<lparr>ctype = int_type, tvalue = value_const_int (IR_INT 32) 1\<rparr>),
      (''y'', True, \<lparr>ctype = int_type, tvalue = value_const_int (IR_INT 32) 2\<rparr>)]" "([], [])"]
  by (simp add: proper_name_def)

end
