(* ===== verification/Naive_Asm.thy ===== *)
theory Naive_Asm
  imports Naive_Strings
begin

text \<open>
  Assembly modules (\<^verbatim>\<open>src/src/backend/asm.h\<close>, \<^verbatim>\<open>asm.c\<close>): registers, operands,
  instructions, symbols, fixups, the encoding of one instruction and the assembly of a
  module.

  Symbols are shared by reference, so they live in a store and a \<^verbatim>\<open>AsmSymbol *\<close> is an index
  into \<open>symbol_heap\<close>; every fixup is appended to the module's list when it is allocated and a
  \<^verbatim>\<open>Fixup *\<close> is its index there. The choice of an encoding for an instruction is generated
  from a table by the build; it is a parameter of \<open>assemble\<close>.
\<close>

section \<open>Registers, operands, instructions\<close>

datatype reg_class =
    INVALID_REG_CLASS
  | REG_CLASS_A | REG_CLASS_B | REG_CLASS_C | REG_CLASS_D | REG_CLASS_DI | REG_CLASS_SI
  | REG_CLASS_BP | REG_CLASS_SP | REG_CLASS_R8 | REG_CLASS_R9 | REG_CLASS_R10 | REG_CLASS_R11
  | REG_CLASS_R12 | REG_CLASS_R13 | REG_CLASS_R14 | REG_CLASS_R15 | REG_CLASS_IP
  | REG_CLASS_XMM0 | REG_CLASS_XMM1 | REG_CLASS_XMM2 | REG_CLASS_XMM3 | REG_CLASS_XMM4
  | REG_CLASS_XMM5 | REG_CLASS_XMM6 | REG_CLASS_XMM7

text \<open>The position of a class in its enumeration.\<close>

definition reg_classes :: "reg_class list" where
  "reg_classes =
     [INVALID_REG_CLASS, REG_CLASS_A, REG_CLASS_B, REG_CLASS_C, REG_CLASS_D, REG_CLASS_DI, REG_CLASS_SI,
      REG_CLASS_BP, REG_CLASS_SP, REG_CLASS_R8, REG_CLASS_R9, REG_CLASS_R10, REG_CLASS_R11,
      REG_CLASS_R12, REG_CLASS_R13, REG_CLASS_R14, REG_CLASS_R15, REG_CLASS_IP,
      REG_CLASS_XMM0, REG_CLASS_XMM1, REG_CLASS_XMM2, REG_CLASS_XMM3, REG_CLASS_XMM4,
      REG_CLASS_XMM5, REG_CLASS_XMM6, REG_CLASS_XMM7]"

fun position :: "'a list \<Rightarrow> 'a \<Rightarrow> nat" where
  "position [] y = 0"
| "position (x # xs) y = (if x = y then 0 else Suc (position xs y))"

definition reg_class_number :: "reg_class \<Rightarrow> nat" where
  "reg_class_number r = position reg_classes r"

datatype reg_type = REG_TYPE_INTEGER | REG_TYPE_FLOAT

datatype reg_id = PHYS_REG reg_class | V_REG u32

record register =
  reg_width :: u8
  value_width :: u8
  reg_id :: reg_id

type_synonym symbol_ref = nat

datatype asm_const =
    ASM_CONST_IMMEDIATE u64
  | ASM_CONST_FIXED_IMMEDIATE u64 u32
  | ASM_CONST_SYMBOL symbol_ref

datatype asm_operand =
    ASM_VALUE_REGISTER register
  | ASM_VALUE_OFFSET_REGISTER register asm_const
  | ASM_VALUE_CONST asm_const

record asm_value =
  is_deref :: bool
  operand :: asm_operand

datatype asm_op =
    NOP | MOV | MOVSX | MOVZX | MOVSS | MOVSD | MOVAPS | RET | CALL | XOR_I | AND_I | OR_I | NOT_I | NEG
  | SHL | SHR | ADD | SUB | PUSH | POP | IMUL | IDIV | CDQ | CQO | CVTSI2SS | CVTSI2SD | CVTSS2SI
  | CVTSD2SI | CVTSS2SD | CVTSD2SS | MULSS | MULSD | CMP | SETE | SETNE | SETG | SETGE | SETL | SETLE
  | SETA | SETAE | SETB | SETBE | TEST | UCOMISS | UCOMISD | JMP | JE | JNE | JG | JGE | JL | JLE | JA
  | JAE | JB | JBE | ADDSS | ADDSD | ADC | SBB | SYSCALL

record asm_instr =
  aop :: asm_op
  args :: "asm_value list"
  vreg_deps :: "u32 list"
  label :: "symbol_ref option"

datatype asm_linkage = ASM_GLOBAL_LINKAGE | ASM_LOCAL_LINKAGE

datatype asm_symbol_section = UNKNOWN_SECTION | TEXT_SECTION | DATA_SECTION | BSS_SECTION

record pred =
  dest_offset :: u32
  src_offset :: u32

record asm_symbol =
  symbol_name :: string
  symbol_section :: asm_symbol_section
  symbol_defined :: bool
  symbol_linkage :: asm_linkage
  symtab_index :: u32
  symbol_offset :: u32
  symbol_size :: u32
  preds :: "pred list"

datatype fixup_type = FIXUP_RELATIVE | FIXUP_ABSOLUTE

record fixup =
  fixup_kind :: fixup_type
  fixup_section :: asm_symbol_section
  fixup_offset :: u32
  next_instr_offset :: u32
  size_bytes :: u32
  fixup_symbol :: symbol_ref

record asm_module =
  input_file_name :: string
  text_instrs :: "asm_instr list"
  text_bytes :: "u8 list"
  data_bytes :: "u8 list"
  bss_size :: u32
  symbol_heap :: "asm_symbol list"
  symbols :: "symbol_ref list"
  fixups :: "fixup list"

definition init_asm_module :: "string \<Rightarrow> asm_module" where
  "init_asm_module file =
     \<lparr>input_file_name = file, text_instrs = [], text_bytes = [], data_bytes = [], bss_size = 0,
      symbol_heap = [], symbols = [], fixups = []\<rparr>"

section \<open>Making operands\<close>

definition asm_const_imm :: "u64 \<Rightarrow> asm_const" where
  "asm_const_imm v = ASM_CONST_IMMEDIATE v"

definition asm_const_fixed_imm :: "u64 \<Rightarrow> u32 \<Rightarrow> asm_const" where
  "asm_const_fixed_imm v w = ASM_CONST_FIXED_IMMEDIATE v w"

definition asm_const_symbol :: "symbol_ref \<Rightarrow> asm_const" where
  "asm_const_symbol s = ASM_CONST_SYMBOL s"

definition reg_class_is_gpr :: "reg_class \<Rightarrow> bool" where
  "reg_class_is_gpr r = (reg_class_number r \<ge> reg_class_number REG_CLASS_A \<and>
     reg_class_number r < reg_class_number REG_CLASS_IP)"

definition asm_vreg :: "u32 \<Rightarrow> u8 \<Rightarrow> asm_value run" where
  "asm_vreg n w = (if w = 0 then exit_ice
     else Inr \<lparr>is_deref = False, operand = ASM_VALUE_REGISTER \<lparr>reg_width = w, value_width = w, reg_id = V_REG n\<rparr>\<rparr>)"

definition asm_float_vreg :: "u32 \<Rightarrow> u8 \<Rightarrow> asm_value run" where
  "asm_float_vreg n w = (if w = 0 then exit_ice
     else Inr \<lparr>is_deref = False, operand = ASM_VALUE_REGISTER \<lparr>reg_width = 128, value_width = w, reg_id = V_REG n\<rparr>\<rparr>)"

definition asm_phys_reg :: "reg_class \<Rightarrow> u8 \<Rightarrow> asm_value run" where
  "asm_phys_reg r w = (if w = 0 then exit_ice
     else Inr \<lparr>is_deref = False, operand = ASM_VALUE_REGISTER
       \<lparr>reg_width = (if reg_class_is_gpr r then w else 128), value_width = w, reg_id = PHYS_REG r\<rparr>\<rparr>)"

definition asm_deref :: "asm_value \<Rightarrow> asm_value" where
  "asm_deref v = v\<lparr>is_deref := True\<rparr>"

definition value_reg :: "asm_value \<Rightarrow> register option" where
  "value_reg v = (case operand v of
     ASM_VALUE_REGISTER r \<Rightarrow> Some r | ASM_VALUE_OFFSET_REGISTER r _ \<Rightarrow> Some r | _ \<Rightarrow> None)"

definition asm_offset_reg :: "reg_class \<Rightarrow> u8 \<Rightarrow> asm_const \<Rightarrow> asm_value run" where
  "asm_offset_reg r w offset =
     (if offset = ASM_CONST_IMMEDIATE 0 then asm_phys_reg r w
      else Inr \<lparr>is_deref = False, operand = ASM_VALUE_OFFSET_REGISTER
        \<lparr>reg_width = w, value_width = 0, reg_id = PHYS_REG r\<rparr> offset\<rparr>)"

definition asm_imm :: "u64 \<Rightarrow> asm_value" where
  "asm_imm v = \<lparr>is_deref = False, operand = ASM_VALUE_CONST (asm_const_imm v)\<rparr>"

definition asm_fixed_imm :: "u64 \<Rightarrow> u32 \<Rightarrow> asm_value" where
  "asm_fixed_imm v w = \<lparr>is_deref = False, operand = ASM_VALUE_CONST (asm_const_fixed_imm v w)\<rparr>"

definition asm_symbol_value :: "symbol_ref \<Rightarrow> asm_value" where
  "asm_symbol_value s = \<lparr>is_deref = False, operand = ASM_VALUE_CONST (ASM_CONST_SYMBOL s)\<rparr>"

section \<open>Immediates\<close>

definition is_sign_extending_op :: "asm_op \<Rightarrow> bool" where
  "is_sign_extending_op op = (op = ADD \<or> op = AND_I \<or> op = ADC \<or> op = CMP \<or> op = IMUL \<or> op = MOV \<or>
     op = OR_I \<or> op = SBB \<or> op = SUB \<or> op = TEST)"

definition is_sign_extending_instr :: "asm_instr \<Rightarrow> bool" where
  "is_sign_extending_instr i = is_sign_extending_op (aop i)"

text \<open>
  Whether a constant fits an immediate of \<^verbatim>\<open>imm_width\<close> bits that the processor extends to
  \<^verbatim>\<open>ext_width\<close>. Shifts by 64 or more, for widths the instruction table does not use, are
  undefined in C.
\<close>

definition is_const_and_fits :: "asm_value \<Rightarrow> nat \<Rightarrow> nat \<Rightarrow> bool \<Rightarrow> bool run" where
  "is_const_and_fits v ext_width imm_width sext =
     (if ext_width < imm_width then exit_ice
      else case operand v of
        ASM_VALUE_CONST c \<Rightarrow>
          (case c of
             ASM_CONST_IMMEDIATE imm \<Rightarrow>
               if imm_width = 64 then Inr True
               else if ext_width > 64 \<or> imm_width = 0 then undefined_behaviour
               else
                 let ext_trunc_bits = drop_bit ext_width imm;
                     too_wide = (ext_width \<noteq> 64 \<and> ext_trunc_bits \<noteq> 0 \<and>
                       \<not> (ext_trunc_bits = push_bit (64 - ext_width) 1 - 1 \<and>
                          drop_bit (ext_width - 1) imm AND 1 = 1))
                 in if too_wide then Inr False
                    else
                      let canonical_value = (if ext_width = 64 then imm else imm AND (push_bit ext_width 1 - 1));
                          truncated = imm AND (push_bit imm_width 1 - 1);
                          extended = (if sext \<and> truncated AND push_bit (imm_width - 1) 1 \<noteq> 0
                            then truncated OR push_bit imm_width (push_bit (ext_width - imm_width) 1 - 1)
                            else truncated)
                      in Inr (canonical_value = extended)
           | ASM_CONST_FIXED_IMMEDIATE _ w \<Rightarrow> Inr (imm_width = unat w)
           | ASM_CONST_SYMBOL _ \<Rightarrow> Inr (imm_width = 64))
      | _ \<Rightarrow> Inr False)"

section \<open>Writing bytes\<close>

text \<open>
  The output is the list of bytes written so far. Writing past its end extends it; bytes
  between the old end and the place written to are whatever the buffer held, an argument of
  the model.
\<close>

definition write_u8 :: "u8 list \<Rightarrow> u8 \<Rightarrow> u8 list" where
  "write_u8 output x = output @ [x]"

definition int_byte :: "u64 \<Rightarrow> nat \<Rightarrow> u8" where
  "int_byte x n = ucast (drop_bit (n * 8) x AND 0xFF)"

definition write_int_at :: "(nat \<Rightarrow> u8) \<Rightarrow> u8 list \<Rightarrow> nat \<Rightarrow> u64 \<Rightarrow> nat \<Rightarrow> u8 list" where
  "write_int_at junk output offset x sz =
     (let buf = output @ map junk [length output..<offset + sz] in
      fold (\<lambda>n out. out[offset + n := int_byte x n]) [0..<sz] buf)"

definition write_int :: "u8 list \<Rightarrow> u64 \<Rightarrow> nat \<Rightarrow> u8 list" where
  "write_int output x sz = write_int_at (\<lambda>_. 0) output (length output) x sz"

section \<open>Encoding one instruction\<close>

definition get_reg_class :: "asm_value \<Rightarrow> reg_class run" where
  "get_reg_class v =
     (case value_reg v of
        None \<Rightarrow> exit_ice
      | Some r \<Rightarrow> (case reg_id r of PHYS_REG c \<Rightarrow> Inr c | V_REG _ \<Rightarrow> exit_ice))"

fun encoded_register_number :: "reg_class \<Rightarrow> u8 run" where
  "encoded_register_number INVALID_REG_CLASS = exit_ice"
| "encoded_register_number REG_CLASS_A = Inr 0"
| "encoded_register_number REG_CLASS_C = Inr 1"
| "encoded_register_number REG_CLASS_D = Inr 2"
| "encoded_register_number REG_CLASS_B = Inr 3"
| "encoded_register_number REG_CLASS_SP = Inr 4"
| "encoded_register_number REG_CLASS_BP = Inr 5"
| "encoded_register_number REG_CLASS_SI = Inr 6"
| "encoded_register_number REG_CLASS_DI = Inr 7"
| "encoded_register_number REG_CLASS_R8 = Inr 8"
| "encoded_register_number REG_CLASS_R9 = Inr 9"
| "encoded_register_number REG_CLASS_R10 = Inr 10"
| "encoded_register_number REG_CLASS_R11 = Inr 11"
| "encoded_register_number REG_CLASS_R12 = Inr 12"
| "encoded_register_number REG_CLASS_R13 = Inr 13"
| "encoded_register_number REG_CLASS_R14 = Inr 14"
| "encoded_register_number REG_CLASS_R15 = Inr 15"
| "encoded_register_number REG_CLASS_IP = exit_ice"
| "encoded_register_number REG_CLASS_XMM0 = Inr 0"
| "encoded_register_number REG_CLASS_XMM1 = Inr 1"
| "encoded_register_number REG_CLASS_XMM2 = Inr 2"
| "encoded_register_number REG_CLASS_XMM3 = Inr 3"
| "encoded_register_number REG_CLASS_XMM4 = Inr 4"
| "encoded_register_number REG_CLASS_XMM5 = Inr 5"
| "encoded_register_number REG_CLASS_XMM6 = Inr 6"
| "encoded_register_number REG_CLASS_XMM7 = Inr 7"

text \<open>
  \<^verbatim>\<open>EncodedInstr\<close>. A size of \<open>-1\<close> and a null fixup pointer are \<open>None\<close>; the opcode bytes in
  use are a list.
\<close>

record encoded_instr =
  rex_prefix :: u8
  has_oso :: bool
  opcode :: "u8 list"
  opcode_extension :: u8
  has_modrm :: bool
  enc_mod :: u8
  enc_reg :: u8
  enc_rm :: u8
  has_sib :: bool
  enc_scale :: u8
  enc_index :: u8
  enc_base :: u8
  displacement_size :: "nat option"
  displacement :: u64
  disp_fixup :: "nat option"
  immediate_size :: "nat option"
  immediate :: u64
  imm_fixup :: "nat option"

text \<open>Appending a fixup whose offsets are filled in when the bytes are written.\<close>

definition new_fixup :: "asm_module \<Rightarrow> fixup_type \<Rightarrow> symbol_ref \<Rightarrow> nat \<times> asm_module" where
  "new_fixup m kind s =
     (length (fixups m),
      m\<lparr>fixups := fixups m @ [\<lparr>fixup_kind = kind, fixup_section = TEXT_SECTION, fixup_offset = 0,
         next_instr_offset = 0, size_bytes = 4, fixup_symbol = s\<rparr>]\<rparr>)"

definition add_register_arg :: "encoded_instr \<Rightarrow> reg_class \<Rightarrow> bool \<Rightarrow> encoded_instr run" where
  "add_register_arg e class deref =
     rbind (encoded_register_number class) (\<lambda>n.
       Inr (if deref then
              (if class \<in> {REG_CLASS_SP, REG_CLASS_R12} then
                 e\<lparr>enc_mod := 0, enc_rm := 4, has_sib := True, enc_scale := 0, enc_index := 4, enc_base := n\<rparr>
               else if class \<in> {REG_CLASS_BP, REG_CLASS_R13} then
                 e\<lparr>enc_mod := 1, enc_rm := n, displacement_size := Some 1, displacement := 0\<rparr>
               else e\<lparr>enc_mod := 0, enc_rm := n\<rparr>)
            else e\<lparr>enc_mod := 3, enc_rm := n\<rparr>))"

text \<open>
  The displacement of a memory operand: a symbol is patched later, an immediate takes one
  byte if it is that byte sign-extended, four bytes if its upper half is zero.
\<close>

definition add_displacement ::
  "asm_module \<Rightarrow> encoded_instr \<Rightarrow> asm_const \<Rightarrow> reg_class \<Rightarrow> fixup_type \<Rightarrow>
   (u64 \<times> encoded_instr \<times> asm_module) run" where
  "add_displacement m e c reg kind =
     (case c of
        ASM_CONST_SYMBOL s \<Rightarrow>
          (let (f, m) = new_fixup m (if reg = REG_CLASS_IP then FIXUP_RELATIVE else kind) s
           in Inr (0, e\<lparr>enc_mod := 2, disp_fixup := Some f\<rparr>, m))
      | ASM_CONST_IMMEDIATE offset \<Rightarrow>
          (let e = e\<lparr>displacement := offset\<rparr> in
           if sint (ucast offset :: u8) = sint offset then
             Inr (offset, e\<lparr>enc_mod := 1, displacement_size := Some 1\<rparr>, m)
           else if offset AND 0xFFFFFFFF = offset then
             Inr (offset, e\<lparr>enc_mod := 2, displacement_size := Some 4\<rparr>, m)
           else exit_ice)
      | ASM_CONST_FIXED_IMMEDIATE _ _ \<Rightarrow> exit_ice)"

definition add_base_register :: "encoded_instr \<Rightarrow> u64 \<Rightarrow> reg_class \<Rightarrow> encoded_instr run" where
  "add_base_register e offset reg =
     (if reg \<in> {REG_CLASS_A, REG_CLASS_C, REG_CLASS_D, REG_CLASS_B, REG_CLASS_BP, REG_CLASS_SI, REG_CLASS_DI,
                REG_CLASS_R8, REG_CLASS_R9, REG_CLASS_R10, REG_CLASS_R11, REG_CLASS_R13, REG_CLASS_R14,
                REG_CLASS_R15} then
        rbind (encoded_register_number reg) (\<lambda>n. Inr (e\<lparr>enc_rm := n\<rparr>))
      else if reg \<in> {REG_CLASS_R12, REG_CLASS_SP} then
        rbind (encoded_register_number reg) (\<lambda>n.
          Inr (e\<lparr>enc_rm := n, has_sib := True, enc_scale := 0, enc_index := 4, enc_base := 4,
                 displacement_size := Some (if enc_mod e = 1 then 1 else 4), displacement := offset\<rparr>))
      else if reg = REG_CLASS_IP then
        Inr (e\<lparr>enc_mod := 0, enc_rm := 5, displacement_size := Some 4, displacement := 0\<rparr>)
      else exit_unimplemented)"

definition add_mod_rm_arg ::
  "asm_module \<Rightarrow> encoded_instr \<Rightarrow> asm_value \<Rightarrow> fixup_type \<Rightarrow> (encoded_instr \<times> asm_module) run" where
  "add_mod_rm_arg m e v kind =
     (let e = e\<lparr>has_modrm := True\<rparr> in
      case operand v of
        ASM_VALUE_REGISTER _ \<Rightarrow>
          rbind (get_reg_class v) (\<lambda>class.
          rbind (add_register_arg e class (is_deref v)) (\<lambda>e. Inr (e, m)))
      | ASM_VALUE_OFFSET_REGISTER _ c \<Rightarrow>
          if \<not> is_deref v then exit_ice
          else rbind (get_reg_class v) (\<lambda>reg.
               rbind (add_displacement m e c reg kind) (\<lambda>(offset, e, m).
               rbind (add_base_register e offset reg) (\<lambda>e. Inr (e, m))))
      | ASM_VALUE_CONST _ \<Rightarrow> exit_unimplemented)"

definition REX_B :: u8 where "REX_B = 1"
definition REX_X :: u8 where "REX_X = 2"
definition REX_R :: u8 where "REX_R = 4"
definition REX_W :: u8 where "REX_W = 8"
definition REX_HIGH :: u8 where "REX_HIGH = 0x40"

lemmas rex_defs = REX_B_def REX_X_def REX_R_def REX_W_def REX_HIGH_def

datatype arg_order = INVALID | RM | MR

text \<open>The register and memory operands by the order of the arguments.\<close>

definition split_operands :: "asm_instr \<Rightarrow> arg_order \<Rightarrow> (asm_value option \<times> asm_value) run" where
  "split_operands i order =
     (case order of
        RM \<Rightarrow> rbind (at (args i) 0) (\<lambda>r. rbind (at (args i) 1) (\<lambda>mem. Inr (Some r, mem)))
      | MR \<Rightarrow> rbind (at (args i) 0) (\<lambda>mem. rbind (at (args i) 1) (\<lambda>r. Inr (Some r, mem)))
      | INVALID \<Rightarrow> (case args i of [mem] \<Rightarrow> Inr (None, mem) | _ \<Rightarrow> exit_ice))"

fun needs_empty_rex :: "asm_value list \<Rightarrow> bool run" where
  "needs_empty_rex [] = Inr False"
| "needs_empty_rex (v # vs) =
     (case operand v of
        ASM_VALUE_REGISTER r \<Rightarrow>
          (case reg_id r of
             V_REG _ \<Rightarrow> exit_ice
           | PHYS_REG c \<Rightarrow>
               if reg_width r = 8 \<and> c \<in> {REG_CLASS_SP, REG_CLASS_BP, REG_CLASS_SI, REG_CLASS_DI}
               then Inr True else needs_empty_rex vs)
      | _ \<Rightarrow> needs_empty_rex vs)"

fun const_args :: "asm_value list \<Rightarrow> asm_const list" where
  "const_args [] = []"
| "const_args (v # vs) = (case operand v of ASM_VALUE_CONST c \<Rightarrow> c # const_args vs | _ \<Rightarrow> const_args vs)"

definition add_immediate ::
  "asm_module \<Rightarrow> encoded_instr \<Rightarrow> asm_instr \<Rightarrow> nat \<Rightarrow> fixup_type \<Rightarrow> (encoded_instr \<times> asm_module) run" where
  "add_immediate m e i sz kind =
     (let e = e\<lparr>immediate_size := Some sz\<rparr> in
      case const_args (args i) of
        [c] \<Rightarrow>
          (case c of
             ASM_CONST_SYMBOL s \<Rightarrow>
               (let (f, m) = new_fixup m kind s in Inr (e\<lparr>imm_fixup := Some f, immediate := 0\<rparr>, m))
           | ASM_CONST_IMMEDIATE x \<Rightarrow> Inr (e\<lparr>immediate := x\<rparr>, m)
           | ASM_CONST_FIXED_IMMEDIATE x _ \<Rightarrow> Inr (e\<lparr>immediate := x\<rparr>, m))
      | _ \<Rightarrow> exit_ice)"

text \<open>The extension bits of the REX prefix; each of its uses of bit B excludes the others.\<close>

definition add_rex_bits :: "encoded_instr \<Rightarrow> encoded_instr run" where
  "add_rex_bits e =
     (let rex = rex_prefix e;
          rex = (if has_modrm e \<and> enc_reg e \<ge> 8 then rex OR REX_R else rex);
          rex = (if has_modrm e \<and> enc_rm e \<ge> 8 then rex OR REX_B else rex);
          rex = (if has_sib e \<and> enc_index e \<ge> 8 then rex OR REX_X else rex)
      in if has_sib e \<and> enc_base e \<ge> 8 \<and> rex AND REX_B \<noteq> 0 then exit_ice
         else let rex = (if has_sib e \<and> enc_base e \<ge> 8 then rex OR REX_B else rex)
              in if opcode_extension e \<ge> 8 \<and> rex AND REX_B \<noteq> 0 then exit_ice
                 else let rex = (if opcode_extension e \<ge> 8 then rex OR REX_B else rex)
                      in Inr (e\<lparr>rex_prefix := rex\<rparr>))"

definition mod_rm_byte :: "encoded_instr \<Rightarrow> u8" where
  "mod_rm_byte e = push_bit 6 (enc_mod e AND 3) OR push_bit 3 (enc_reg e AND 7) OR (enc_rm e AND 7)"

definition sib_byte :: "encoded_instr \<Rightarrow> u8" where
  "sib_byte e = push_bit 6 (enc_scale e AND 3) OR push_bit 3 (enc_index e AND 7) OR (enc_base e AND 7)"

definition set_fixup :: "asm_module \<Rightarrow> nat option \<Rightarrow> (fixup \<Rightarrow> fixup) \<Rightarrow> asm_module" where
  "set_fixup m f g = (case f of None \<Rightarrow> m | Some k \<Rightarrow> m\<lparr>fixups := (fixups m)[k := g (fixups m ! k)]\<rparr>)"

definition write_encoded :: "u8 list \<Rightarrow> asm_module \<Rightarrow> encoded_instr \<Rightarrow> u8 list \<times> asm_module" where
  "write_encoded output m e =
     (let opc = (case opcode e of [] \<Rightarrow> [] | x # xs \<Rightarrow> (x OR (opcode_extension e AND 7)) # xs);
          mandatory = (case opc of [] \<Rightarrow> False | x # _ \<Rightarrow> x = 0xF2 \<or> x = 0xF3 \<or> x = 0x66);
          output = (if mandatory then write_u8 output (hd opc) else output);
          opc = (if mandatory then tl opc else opc);
          output = (if has_oso e then write_u8 output 0x66 else output);
          output = (if rex_prefix e \<noteq> 0 then write_u8 output (rex_prefix e OR REX_HIGH) else output);
          output = output @ opc;
          output = (if has_modrm e then write_u8 output (mod_rm_byte e) else output);
          output = (if has_sib e then write_u8 output (sib_byte e) else output);
          m = set_fixup m (disp_fixup e) (\<lambda>f. f\<lparr>fixup_offset := of_nat (length output)\<rparr>);
          output = (case displacement_size e of None \<Rightarrow> output | Some sz \<Rightarrow> write_int output (displacement e) sz);
          m = set_fixup m (imm_fixup e) (\<lambda>f. f\<lparr>fixup_offset := of_nat (length output)\<rparr>);
          output = (case immediate_size e of None \<Rightarrow> output | Some sz \<Rightarrow> write_int output (immediate e) sz);
          m = set_fixup m (disp_fixup e) (\<lambda>f. f\<lparr>next_instr_offset := of_nat (length output)\<rparr>);
          m = set_fixup m (imm_fixup e) (\<lambda>f. f\<lparr>next_instr_offset := of_nat (length output)\<rparr>)
      in (output, m))"

text \<open>The parameters of \<^verbatim>\<open>encode_instr\<close> that come from the table of encodings.\<close>

record encoding =
  order_of :: arg_order
  use_rex_w :: bool
  use_oso :: bool
  opcode_of :: "u8 list"
  reg_and_rm :: bool
  extension_of :: "u8 option"
  immediate_of :: "nat option"
  reg_in_opcode :: bool
  fixup_type_of :: fixup_type

definition start_encoding :: "asm_instr \<Rightarrow> encoding \<Rightarrow> encoded_instr run" where
  "start_encoding i enc =
     (let e = \<lparr>rex_prefix = (if use_rex_w enc then REX_W else 0), has_oso = use_oso enc, opcode = opcode_of enc,
        opcode_extension = 0, has_modrm = False, enc_mod = 0, enc_reg = 0, enc_rm = 0, has_sib = False,
        enc_scale = 0, enc_index = 0, enc_base = 0, displacement_size = None, displacement = 0,
        disp_fixup = None, immediate_size = None, immediate = 0, imm_fixup = None\<rparr>
      in if length (opcode_of enc) > 3 then undefined_behaviour
         else if reg_in_opcode enc then
           rbind (at (args i) 0) (\<lambda>v. rbind (get_reg_class v) (\<lambda>c. rbind (encoded_register_number c)
             (\<lambda>n. Inr (e\<lparr>opcode_extension := n\<rparr>))))
         else Inr e)"

definition add_operands ::
  "asm_module \<Rightarrow> encoded_instr \<Rightarrow> asm_instr \<Rightarrow> encoding \<Rightarrow> (encoded_instr \<times> asm_module) run" where
  "add_operands m e i enc =
     (if reg_and_rm enc then
        rbind (split_operands i (order_of enc)) (\<lambda>(r, mem).
        rbind (case r of None \<Rightarrow> Inr 0
               | Some v \<Rightarrow> rbind (get_reg_class v) encoded_register_number) (\<lambda>n.
          add_mod_rm_arg m (e\<lparr>enc_reg := n\<rparr>) mem (fixup_type_of enc)))
      else case extension_of enc of
        Some x \<Rightarrow> rbind (at (args i) 0) (\<lambda>v. add_mod_rm_arg m (e\<lparr>enc_reg := x\<rparr>) v (fixup_type_of enc))
      | None \<Rightarrow> Inr (e, m))"

definition encode_instr :: "u8 list \<Rightarrow> asm_module \<Rightarrow> asm_instr \<Rightarrow> encoding \<Rightarrow> (u8 list \<times> asm_module) run" where
  "encode_instr output m i enc =
     rbind (start_encoding i enc) (\<lambda>e.
     rbind (add_operands m e i enc) (\<lambda>(e, m).
     rbind (needs_empty_rex (args i)) (\<lambda>high.
     rbind (let e = (if high then e\<lparr>rex_prefix := rex_prefix e OR REX_HIGH\<rparr> else e) in
            case immediate_of enc of None \<Rightarrow> Inr (e, m)
            | Some sz \<Rightarrow> add_immediate m e i sz (fixup_type_of enc)) (\<lambda>(e, m).
     rbind (add_rex_bits e) (\<lambda>e. Inr (write_encoded output m e))))))"

section \<open>Assembling a module\<close>

text \<open>
  \<^verbatim>\<open>assemble\<close> encodes the instructions in order, gives each label the offset of its
  instruction, numbers the symbols and patches the relative fixups to symbols of the text
  section.
\<close>

type_synonym assembler = "u8 list \<Rightarrow> asm_module \<Rightarrow> asm_instr \<Rightarrow> (u8 list \<times> asm_module) run"

definition define_label :: "asm_module \<Rightarrow> symbol_ref option \<Rightarrow> nat \<Rightarrow> asm_module run" where
  "define_label m l instr_start =
     (case l of
        None \<Rightarrow> Inr m
      | Some s \<Rightarrow> rbind (at (symbol_heap m) s) (\<lambda>sym.
          if symbol_section sym \<noteq> TEXT_SECTION then exit_ice
          else if \<not> symbol_defined sym then exit_ice
          else Inr (m\<lparr>symbol_heap := (symbol_heap m)[s := sym\<lparr>symbol_offset := of_nat instr_start\<rparr>]\<rparr>)))"

fun assemble_instrs :: "assembler \<Rightarrow> asm_module \<Rightarrow> asm_instr list \<Rightarrow> asm_module run" where
  "assemble_instrs assemble_instr m [] = Inr m"
| "assemble_instrs assemble_instr m (i # is) =
     (let instr_start = length (text_bytes m) in
      rbind (assemble_instr (text_bytes m) m i) (\<lambda>(bytes, m).
      rbind (define_label (m\<lparr>text_bytes := bytes\<rparr>) (label i) instr_start) (\<lambda>m.
        assemble_instrs assemble_instr m is)))"

fun number_symbols :: "asm_symbol list \<Rightarrow> symbol_ref list \<Rightarrow> u32 \<Rightarrow> asm_symbol list" where
  "number_symbols heap [] i = heap"
| "number_symbols heap (s # ss) i =
     number_symbols (heap[s := (heap ! s)\<lparr>symtab_index := i + 1\<rparr>]) ss (i + 1)"

definition patch_fixup :: "(nat \<Rightarrow> u8) \<Rightarrow> asm_symbol list \<Rightarrow> u8 list \<Rightarrow> fixup \<Rightarrow> u8 list run" where
  "patch_fixup junk heap bytes f =
     rbind (at heap (fixup_symbol f)) (\<lambda>sym.
       Inr (if fixup_kind f = FIXUP_ABSOLUTE \<or> \<not> symbol_defined sym \<or> fixup_section f \<noteq> TEXT_SECTION \<or>
               symbol_section sym \<noteq> TEXT_SECTION
            then bytes
            else write_int_at junk bytes (unat (fixup_offset f))
                   (scast (symbol_offset sym - next_instr_offset f)) (unat (size_bytes f))))"

fun patch_fixups :: "(nat \<Rightarrow> u8) \<Rightarrow> asm_symbol list \<Rightarrow> u8 list \<Rightarrow> fixup list \<Rightarrow> u8 list run" where
  "patch_fixups junk heap bytes [] = Inr bytes"
| "patch_fixups junk heap bytes (f # fs) =
     rbind (patch_fixup junk heap bytes f) (\<lambda>bytes. patch_fixups junk heap bytes fs)"

definition assemble :: "(nat \<Rightarrow> u8) \<Rightarrow> assembler \<Rightarrow> asm_module \<Rightarrow> asm_module run" where
  "assemble junk assemble_instr m =
     rbind (assemble_instrs assemble_instr (m\<lparr>text_bytes := []\<rparr>) (text_instrs m)) (\<lambda>m.
       let m = m\<lparr>text_instrs := []\<rparr>;
           m = m\<lparr>symbol_heap := number_symbols (symbol_heap m) (symbols m) 0\<rparr>
       in rbind (patch_fixups junk (symbol_heap m) (text_bytes m) (fixups m)) (\<lambda>bytes.
            Inr (m\<lparr>text_bytes := bytes\<rparr>)))"

section \<open>Little-endian integers\<close>

definition read_int :: "u8 list \<Rightarrow> u64" where
  "read_int bs = foldr (\<lambda>b acc. ucast b OR push_bit 8 acc) bs 0"

lemma int_byte_bit: "bit (int_byte x n) i \<longleftrightarrow> i < 8 \<and> bit x (n * 8 + i)"
proof -
  have m: "(0xFF :: u64) = mask 8" by (simp add: mask_eq_exp_minus_1)
  have "bit (0xFF :: u64) i \<longleftrightarrow> i < 8" unfolding m by (auto simp: bit_mask_iff)
  then show ?thesis
    by (auto simp: int_byte_def bit_unsigned_iff bit_and_iff bit_drop_bit_eq dest: bit_imp_le_length)
qed

lemma read_int_bytes:
  "k + sz \<le> 8 \<Longrightarrow> read_int (map (int_byte x) [k..<k + sz]) = take_bit (sz * 8) (drop_bit (k * 8) x)"
proof (induction sz arbitrary: k)
  case (Suc sz)
  have "map (int_byte x) [k..<k + Suc sz] = int_byte x k # map (int_byte x) [Suc k..<Suc k + sz]"
    by (subst upt_rec) simp
  then have eq: "read_int (map (int_byte x) [k..<k + Suc sz]) =
      ucast (int_byte x k) OR push_bit 8 (take_bit (sz * 8) (drop_bit (Suc k * 8) x))"
    using Suc.IH [of "Suc k"] Suc.prems by (simp add: read_int_def)
  show ?case unfolding eq
  proof (rule bit_word_eqI)
    fix i assume i: "i < LENGTH(64)"
    have "i < 8 \<or> (8 \<le> i \<and> Suc k * 8 + (i - 8) = k * 8 + i)" by auto
    then show "bit (ucast (int_byte x k) OR push_bit 8 (take_bit (sz * 8) (drop_bit (Suc k * 8) x))) i =
        bit (take_bit (Suc sz * 8) (drop_bit (k * 8) x)) i"
      using i by (auto simp: bit_or_iff bit_unsigned_iff int_byte_bit bit_push_bit_iff bit_take_bit_iff
        bit_drop_bit_eq)
  qed
qed (simp add: read_int_def)

end
