(* ===== verification/Naive_Asm_Properties.thy ===== *)
theory Naive_Asm_Properties
  imports Naive_Asm
begin

text \<open>
  Correctness of the assembler: the memory operand decodes back from the bytes that encode it,
  immediates are accepted exactly when extension restores them, integers are written little
  endian, labels get the offsets of their instructions and relative fixups the distance to
  their symbol.
\<close>

section \<open>Writing integers\<close>

lemma fold_updates:
  "off + sz \<le> length buf \<Longrightarrow>
   fold (\<lambda>n out. out[off + n := f n]) [0..<sz] buf = take off buf @ map f [0..<sz] @ drop (off + sz) buf"
proof (induction sz)
  case (Suc sz)
  then have "fold (\<lambda>n out. out[off + n := f n]) [0..<Suc sz] buf =
      (take off buf @ map f [0..<sz] @ drop (off + sz) buf)[off + sz := f sz]" by simp
  also have "\<dots> = take off buf @ map f [0..<Suc sz] @ drop (off + Suc sz) buf"
    using Suc.prems by (simp add: list_update_append Cons_nth_drop_Suc [symmetric])
  finally show ?case .
qed simp

lemma write_int_at_inside:
  "off + sz \<le> length out \<Longrightarrow>
   write_int_at junk out off x sz = take off out @ map (int_byte x) [0..<sz] @ drop (off + sz) out"
  by (simp add: write_int_at_def fold_updates)

lemma write_int_append: "write_int out x sz = out @ map (int_byte x) [0..<sz]"
  by (simp add: write_int_def write_int_at_def fold_updates)

section \<open>Decoding memory operands\<close>

text \<open>
  The addressing forms of the processor: \<^verbatim>\<open>mod\<close> and \<^verbatim>\<open>r/m\<close> of the ModR/M byte, the SIB byte
  when \<^verbatim>\<open>r/m\<close> is 4, and the extension bits of the REX prefix. Scaled index registers are not
  decoded, the encoder uses none.
\<close>

datatype rm_operand =
    Rm_Register nat
  | Rm_Memory nat int
  | Rm_Ip_Relative

definition decode_operand :: "bool \<Rightarrow> bool \<Rightarrow> nat \<Rightarrow> nat \<Rightarrow> u8 list \<Rightarrow> rm_operand option" where
  "decode_operand rex_b rex_x m rm rest =
     (let ext = (if rex_b then 8 else 0) in
      if m = 3 then Some (Rm_Register (rm + ext))
      else if m = 0 \<and> rm = 5 then Some Rm_Ip_Relative
      else
        let sib = (rm = 4);
            base = (if sib then unat (hd rest AND 7) else rm);
            disp = (if sib then tl rest else rest)
        in if sib \<and> (rest = [] \<or> drop_bit 3 (hd rest) AND 7 \<noteq> 4 \<or> rex_x \<or> m = 0 \<and> base = 5)
           then None
           else if m = 0 then Some (Rm_Memory (base + ext) 0)
           else if m = 1 then Some (Rm_Memory (base + ext) (sint (ucast (read_int (take 1 disp)) :: u8)))
           else Some (Rm_Memory (base + ext) (sint (ucast (read_int (take 4 disp)) :: u32))))"

definition decode_modrm :: "u8 \<Rightarrow> u8 list \<Rightarrow> (nat \<times> rm_operand) option" where
  "decode_modrm rex bs =
     (case bs of
        [] \<Rightarrow> None
      | b # rest \<Rightarrow>
          map_option (Pair (unat (drop_bit 3 b AND 7) + (if rex AND REX_R \<noteq> 0 then 8 else 0)))
            (decode_operand (rex AND REX_B \<noteq> 0) (rex AND REX_X \<noteq> 0) (unat (drop_bit 6 b)) (unat (b AND 7)) rest))"

definition modrm_bytes :: "encoded_instr \<Rightarrow> u8 list" where
  "modrm_bytes e = mod_rm_byte e # (if has_sib e then [sib_byte e] else []) @
     (case displacement_size e of None \<Rightarrow> [] | Some sz \<Rightarrow> map (int_byte (displacement e)) [0..<sz])"

text \<open>What the operand denotes, with the number of the register in the processor's order.\<close>

definition gpr_number :: "reg_class \<Rightarrow> nat" where
  "gpr_number r = (case encoded_register_number r of Inr n \<Rightarrow> unat n | Inl _ \<Rightarrow> 0)"

definition denotes :: "asm_value \<Rightarrow> rm_operand \<Rightarrow> bool" where
  "denotes v d =
     (case operand v of
        ASM_VALUE_REGISTER r \<Rightarrow>
          (\<exists>c. reg_id r = PHYS_REG c \<and> reg_class_is_gpr c \<and>
             d = (if is_deref v then Rm_Memory (gpr_number c) 0 else Rm_Register (gpr_number c)))
      | ASM_VALUE_OFFSET_REGISTER r (ASM_CONST_IMMEDIATE x) \<Rightarrow>
          (\<exists>c. reg_id r = PHYS_REG c \<and> reg_class_is_gpr c \<and> is_deref v \<and>
             sint x \<in> {- 128..<2 ^ 31} \<and> d = Rm_Memory (gpr_number c) (sint x))
      | _ \<Rightarrow> False)"

lemma byte_fields:
  fixes a b c :: u8
  shows "drop_bit 6 (push_bit 6 (a AND 3) OR push_bit 3 (b AND 7) OR (c AND 7)) = a AND 3"
    "(push_bit 6 (a AND 3) OR push_bit 3 (b AND 7) OR (c AND 7)) AND 7 = c AND 7"
    "drop_bit 3 (push_bit 6 (a AND 3) OR push_bit 3 (b AND 7) OR (c AND 7)) AND 7 = b AND 7"
proof -
  have m: "(3 :: u8) = mask 2" "(7 :: u8) = mask 3" by (simp_all add: mask_eq_exp_minus_1)
  show "drop_bit 6 (push_bit 6 (a AND 3) OR push_bit 3 (b AND 7) OR (c AND 7)) = a AND 3"
    "(push_bit 6 (a AND 3) OR push_bit 3 (b AND 7) OR (c AND 7)) AND 7 = c AND 7"
    "drop_bit 3 (push_bit 6 (a AND 3) OR push_bit 3 (b AND 7) OR (c AND 7)) AND 7 = b AND 7"
    unfolding m
    by (rule bit_word_eqI; auto simp: bit_drop_bit_eq bit_or_iff bit_push_bit_iff bit_and_iff bit_mask_iff
        dest: bit_imp_le_length)+
qed

lemma gpr_cases:
  assumes "reg_class_is_gpr c"
  shows "c \<in> {REG_CLASS_A, REG_CLASS_B, REG_CLASS_C, REG_CLASS_D, REG_CLASS_DI, REG_CLASS_SI, REG_CLASS_BP,
    REG_CLASS_SP, REG_CLASS_R8, REG_CLASS_R9, REG_CLASS_R10, REG_CLASS_R11, REG_CLASS_R12, REG_CLASS_R13,
    REG_CLASS_R14, REG_CLASS_R15}"
  using assms by (cases c) (simp_all add: reg_class_is_gpr_def reg_class_number_def reg_classes_def)

lemma read_disp:
  "read_int [int_byte x 0] = take_bit 8 x" "read_int (map (int_byte x) [0..<4]) = take_bit 32 x"
  using read_int_bytes [of 0 1 x] read_int_bytes [of 0 4 x] by simp_all

lemma sint_word_bounds:
  fixes w :: u8
  shows "- 128 \<le> sint w" "sint w < 128"
  using sint_ge [of w] sint_lt [of w] by simp_all

lemma ucast_of_sint:
  "(ucast (x :: u64) :: u8) = word_of_int (sint x)" "(ucast x :: u32) = word_of_int (sint x)"
  by (rule bit_word_eqI; simp add: bit_unsigned_iff bit_signed_iff min_def)+

lemma sint_disp8:
  fixes x :: u64
  assumes "- 128 \<le> sint x" "sint x < 128"
  shows "sint (ucast x :: u8) = sint x"
proof -
  have "sint (ucast x :: u8) = signed_take_bit 7 (sint x)"
    by (simp only: ucast_of_sint sint_sbintrunc') simp
  also have "\<dots> = sint x" using assms by (intro signed_take_bit_int_eq_self) simp_all
  finally show ?thesis .
qed

lemma sint_disp32:
  fixes x :: u64
  assumes "0 \<le> sint x" "sint x < 2 ^ 31"
  shows "sint (ucast x :: u32) = sint x" "x AND 0xFFFFFFFF = x"
proof -
  have "sint (ucast x :: u32) = signed_take_bit 31 (sint x)"
    by (simp only: ucast_of_sint sint_sbintrunc') simp
  also have "\<dots> = sint x" using assms by (intro signed_take_bit_int_eq_self) simp_all
  finally show "sint (ucast x :: u32) = sint x" .
  have "uint x = take_bit 64 (sint x)" by (simp add: uint_sint)
  also have "\<dots> = sint x" using assms by (intro take_bit_int_eq_self) simp_all
  finally have u: "uint x < 2 ^ 32" using assms(2) by simp
  have "x AND 0xFFFFFFFF = x AND mask 32" by (simp add: mask_eq_exp_minus_1)
  also have "\<dots> = take_bit 32 x" by (simp add: take_bit_eq_mask)
  also have "\<dots> = x"
  proof (rule word_uint_eqI)
    show "uint (take_bit 32 x) = uint x"
      using u by (simp only: unsigned_take_bit_eq take_bit_int_eq_self unsigned_greater_eq)
  qed
  finally show "x AND 0xFFFFFFFF = x" .
qed

lemma ucast_take_bit:
  "(ucast (take_bit 8 (x :: u64)) :: u8) = ucast x" "(ucast (take_bit 32 x) :: u32) = ucast x"
  by (rule bit_word_eqI; simp add: bit_unsigned_iff bit_take_bit_iff)+

lemma mod_rm_fields:
  "drop_bit 6 (mod_rm_byte e) = enc_mod e AND 3" "mod_rm_byte e AND 7 = enc_rm e AND 7"
  "drop_bit 3 (mod_rm_byte e) AND 7 = enc_reg e AND 7"
  unfolding mod_rm_byte_def byte_fields by (rule refl)+

lemma sib_fields:
  "drop_bit 3 (sib_byte e) AND 7 = enc_index e AND 7" "sib_byte e AND 7 = enc_base e AND 7"
  unfolding sib_byte_def byte_fields by (rule refl)+

lemma ucast_scast: "ucast (scast (x :: u32) :: u64) = x"
proof (rule bit_word_eqI)
  fix n assume "n < LENGTH(32)"
  then have "n < 64" "min 31 n = n" by simp_all
  then show "bit (ucast (scast x :: u64) :: u32) n = bit x n" using \<open>n < LENGTH(32)\<close>
    by (simp add: bit_unsigned_iff bit_signed_iff)
qed

lemma decode_modrm_bytes:
  "decode_modrm rex (modrm_bytes e @ rest) =
     map_option (Pair (unat (enc_reg e AND 7) + (if rex AND REX_R \<noteq> 0 then 8 else 0)))
       (decode_operand (rex AND REX_B \<noteq> 0) (rex AND REX_X \<noteq> 0) (unat (enc_mod e AND 3))
          (unat (enc_rm e AND 7)) (tl (modrm_bytes e) @ rest))"
  by (simp add: decode_modrm_def modrm_bytes_def mod_rm_fields)

text \<open>The state in which \<^verbatim>\<open>encode_instr\<close> adds the memory operand.\<close>

definition before_operand :: "encoded_instr \<Rightarrow> bool" where
  "before_operand e = (rex_prefix e AND 7 = 0 \<and> opcode_extension e = 0 \<and> \<not> has_sib e \<and> enc_reg e < 16 \<and>
     displacement_size e = None \<and> disp_fixup e = None)"

lemma rex_flags:
  assumes "(r :: u8) AND 7 = 0"
  shows "r AND 1 = 0" "r AND 2 = 0" "r AND 4 = 0"
proof -
  have "r AND (7 AND k) = 0" for k using assms by (simp only: and.assoc [symmetric]) simp
  from this [of 1] this [of 2] this [of 4] show "r AND 1 = 0" "r AND 2 = 0" "r AND 4 = 0" by simp_all
qed

lemma reg_field:
  assumes "(n :: u8) < 16"
  shows "unat (n AND 7) + (if n \<ge> 8 then 8 else 0) = unat n"
proof -
  have "n AND 7 = n AND mask 3" by (simp add: mask_eq_exp_minus_1)
  then have "unat (n AND 7) = take_bit 3 (unat n)"
    by (simp only: take_bit_eq_mask [symmetric] unsigned_take_bit_eq)
  then have "unat (n AND 7) = unat n mod 8" by (simp add: take_bit_eq_mod)
  moreover have "unat n < 16" "8 \<le> n \<longleftrightarrow> 8 \<le> unat n" using assms by (simp_all add: word_nat_simps)
  moreover have "k mod 8 + (if 8 \<le> k then 8 else 0) = k" if "k < 16" for k :: nat
    using that by presburger
  ultimately show ?thesis by simp
qed

lemma add_rex_bits_flags:
  assumes "add_rex_bits e = Inr e'" "rex_prefix e AND 7 = 0" "opcode_extension e = 0" "has_modrm e"
    "enc_index e < 8"
  shows "e' = e\<lparr>rex_prefix := rex_prefix e'\<rparr>" "rex_prefix e' AND REX_R \<noteq> 0 \<longleftrightarrow> enc_reg e \<ge> 8"
    "rex_prefix e' AND REX_X = 0"
    "rex_prefix e' AND REX_B \<noteq> 0 \<longleftrightarrow> enc_rm e \<ge> 8 \<or> has_sib e \<and> enc_base e \<ge> 8"
  using assms rex_flags [OF assms(2)]
  by (auto simp: add_rex_bits_def Let_def rex_defs bit.conj_disj_distrib2 split: if_splits)

text \<open>Decoding an operand by its fields, the extension bits folded into the register numbers.\<close>

lemma decode_encoded:
  assumes "add_rex_bits e = Inr e'" "rex_prefix e AND 7 = 0" "opcode_extension e = 0" "has_modrm e"
    "enc_index e < 8" "enc_reg e < 16"
  shows "decode_modrm (rex_prefix e') (modrm_bytes e' @ rest) =
    map_option (Pair (unat (enc_reg e)))
      (decode_operand (enc_rm e \<ge> 8 \<or> has_sib e \<and> enc_base e \<ge> 8) False (unat (enc_mod e AND 3))
         (unat (enc_rm e AND 7)) (tl (modrm_bytes e) @ rest))"
proof -
  note flags = add_rex_bits_flags [OF assms(1-5)]
  have "enc_reg e' = enc_reg e" "enc_mod e' = enc_mod e" "enc_rm e' = enc_rm e" "tl (modrm_bytes e') = tl (modrm_bytes e)"
    by (subst flags(1), simp add: modrm_bytes_def sib_byte_def split: option.split)+
  then show ?thesis unfolding decode_modrm_bytes using reg_field [OF assms(6)] flags(2-4) by simp
qed

definition operand_added :: "encoded_instr \<Rightarrow> encoded_instr \<Rightarrow> rm_operand \<Rightarrow> bool" where
  "operand_added e e1 d = (rex_prefix e1 = rex_prefix e \<and> enc_reg e1 = enc_reg e \<and> has_modrm e1 = has_modrm e \<and>
    opcode_extension e1 = opcode_extension e \<and> opcode e1 = opcode e \<and> has_oso e1 = has_oso e \<and> enc_index e1 < 8 \<and>
    \<not> (enc_rm e1 \<ge> 8 \<and> has_sib e1 \<and> enc_base e1 \<ge> 8) \<and>
    (\<forall>rest. decode_operand (enc_rm e1 \<ge> 8 \<or> has_sib e1 \<and> enc_base e1 \<ge> 8) False (unat (enc_mod e1 AND 3))
      (unat (enc_rm e1 AND 7)) (tl (modrm_bytes e1) @ rest) = Some d))"

lemma byte_1_lt_8: "\<not> (8 :: u8) \<le> 1"
  by (simp add: word_le_nat_alt)

lemmas operand_eval = operand_added_def gpr_number_def decode_operand_def modrm_bytes_def sib_fields read_disp ucast_take_bit byte_1_lt_8

lemma register_arg_decodes:
  assumes "reg_class_is_gpr c" "\<not> has_sib e" "displacement_size e = None" "enc_index e < 8"
  shows "\<exists>e1. add_register_arg e c deref = Inr e1 \<and>
    operand_added e e1 (if deref then Rm_Memory (gpr_number c) 0 else Rm_Register (gpr_number c))"
  using gpr_cases [OF assms(1)] assms(2-)
  by (elim insertE emptyE; simp add: add_register_arg_def operand_eval)

lemma offset_arg_decodes:
  assumes "reg_class_is_gpr c" "\<not> has_sib e" "displacement_size e = None" "enc_index e < 8"
    "sint x \<in> {- 128..<2 ^ 31}"
  shows "\<exists>e1 e2. add_displacement m e (ASM_CONST_IMMEDIATE x) c kind = Inr (x, e1, m) \<and>
    add_base_register e1 x c = Inr e2 \<and> operand_added e e2 (Rm_Memory (gpr_number c) (sint x))"
proof (cases "sint x < 128")
  case True
  then have "sint (ucast x :: u8) = sint x" using assms(5) by (intro sint_disp8) simp_all
  then show ?thesis using gpr_cases [OF assms(1)] assms(2-4)
    by (elim insertE emptyE; simp add: add_displacement_def add_base_register_def operand_eval)
next
  case False
  then have x: "sint (ucast x :: u32) = sint x" "x AND 0xFFFFFFFF = x" using assms(5) by (auto intro: sint_disp32)
  moreover have "sint (ucast x :: u8) \<noteq> sint x" using False sint_word_bounds [of "ucast x"] by auto
  ultimately show ?thesis using gpr_cases [OF assms(1)] assms(2-4)
    by (elim insertE emptyE; simp add: add_displacement_def add_base_register_def operand_eval)
qed


lemma mod_rm_arg_decodes:
  assumes "before_operand e" "denotes v d" "enc_index e < 8"
  shows "\<exists>e1. add_mod_rm_arg m e v kind = Inr (e1, m) \<and> operand_added (e\<lparr>has_modrm := True\<rparr>) e1 d"
proof -
  let ?e = "e\<lparr>has_modrm := True\<rparr>"
  have e: "\<not> has_sib ?e" "displacement_size ?e = None" "enc_index ?e < 8"
    using assms(1,3) by (simp_all add: before_operand_def)
  consider r c where "operand v = ASM_VALUE_REGISTER r" "reg_id r = PHYS_REG c" "reg_class_is_gpr c"
      "d = (if is_deref v then Rm_Memory (gpr_number c) 0 else Rm_Register (gpr_number c))"
    | r x c where "operand v = ASM_VALUE_OFFSET_REGISTER r (ASM_CONST_IMMEDIATE x)" "reg_id r = PHYS_REG c"
      "reg_class_is_gpr c" "is_deref v" "sint x \<in> {- 128..<2 ^ 31}" "d = Rm_Memory (gpr_number c) (sint x)"
    using assms(2) by (auto simp: denotes_def split: asm_operand.splits asm_const.splits)
  then show ?thesis
  proof cases
    case 1
    then show ?thesis using register_arg_decodes [OF 1(3) e, of "is_deref v"]
      by (auto simp: add_mod_rm_arg_def get_reg_class_def value_reg_def)
  next
    case 2
    then show ?thesis using offset_arg_decodes [OF 2(3) e 2(5), of m kind]
      by (auto simp: add_mod_rm_arg_def get_reg_class_def value_reg_def)
  qed
qed

section \<open>Decoding an encoded instruction\<close>

text \<open>The bytes around the REX prefix.\<close>

definition legacy_prefixes :: "bool \<Rightarrow> u8 list \<Rightarrow> u8 list" where
  "legacy_prefixes oso opc =
     (case opc of x # _ \<Rightarrow> if x \<in> {0xF2, 0xF3, 0x66} then [x] else [] | [] \<Rightarrow> []) @
     (if oso then [0x66] else [])"

definition opcode_tail :: "u8 list \<Rightarrow> u8 list" where
  "opcode_tail opc =
     (case opc of x # xs \<Rightarrow> if x \<in> {0xF2, 0xF3, 0x66} then xs else x # xs | [] \<Rightarrow> [])"

text \<open>The operands of an instruction under an encoding, the register one by its number.\<close>

definition register_number :: "asm_value \<Rightarrow> nat option" where
  "register_number v =
     (case value_reg v of
        Some r \<Rightarrow> (case reg_id r of
            PHYS_REG c \<Rightarrow> (case encoded_register_number c of Inr n \<Rightarrow> Some (unat n) | Inl _ \<Rightarrow> None)
          | V_REG _ \<Rightarrow> None)
      | None \<Rightarrow> None)"

definition has_operands :: "asm_instr \<Rightarrow> encoding \<Rightarrow> nat \<Rightarrow> asm_value \<Rightarrow> bool" where
  "has_operands i enc reg mem =
     (\<not> reg_in_opcode enc \<and>
      (if reg_and_rm enc then
         (case (order_of enc, args i) of
            (RM, r # v # _) \<Rightarrow> v = mem \<and> register_number r = Some reg
          | (MR, v # r # _) \<Rightarrow> v = mem \<and> register_number r = Some reg
          | (INVALID, [v]) \<Rightarrow> v = mem \<and> reg = 0
          | _ \<Rightarrow> False)
       else (case (extension_of enc, args i) of
               (Some x, v # _) \<Rightarrow> v = mem \<and> x < 8 \<and> reg = unat x
             | _ \<Rightarrow> False)))"

lemma encoded_register_small: "encoded_register_number c = Inr n \<Longrightarrow> n < 16"
  by (cases c) auto

lemma register_number_run:
  assumes "register_number v = Some k"
  shows "\<exists>n. rbind (get_reg_class v) encoded_register_number = Inr n \<and> unat n = k \<and> n < 16"
  using assms encoded_register_small
  by (fastforce simp: register_number_def get_reg_class_def split: option.splits reg_id.splits sum.splits)


lemma start_encoding_fields:
  assumes "start_encoding i enc = Inr e" "\<not> reg_in_opcode enc"
  shows "before_operand e" "enc_index e = 0" "opcode e = opcode_of enc" "has_oso e = use_oso enc"
    "opcode_extension e = 0" "rex_prefix e AND 7 = 0"
  using assms by (auto simp: start_encoding_def Let_def before_operand_def rex_defs split: if_splits)

lemma add_operands_decodes:
  assumes "has_operands i enc reg mem" "denotes mem d" "start_encoding i enc = Inr e"
  shows "\<exists>e1 n. add_operands m e i enc = Inr (e1, m) \<and>
    operand_added (e\<lparr>enc_reg := n, has_modrm := True\<rparr>) e1 d \<and> unat n = reg \<and> n < 16"
proof -
  have e: "before_operand (e\<lparr>enc_reg := n\<rparr>)" "enc_index (e\<lparr>enc_reg := n\<rparr>) < 8" if "n < 16" for n
    using start_encoding_fields [OF assms(3)] assms(1) that by (simp_all add: has_operands_def before_operand_def)
  have add: "\<exists>e1. add_mod_rm_arg m (e\<lparr>enc_reg := n\<rparr>) mem k = Inr (e1, m) \<and>
      operand_added (e\<lparr>enc_reg := n, has_modrm := True\<rparr>) e1 d" if "n < 16" for n k
    using mod_rm_arg_decodes [OF e(1) [OF that] assms(2) e(2) [OF that], of m k] by simp
  consider (reg) r where "reg_and_rm enc" "split_operands i (order_of enc) = Inr (Some r, mem)"
      "register_number r = Some reg"
    | (single) "reg_and_rm enc" "split_operands i (order_of enc) = Inr (None, mem)" "reg = 0"
    | (ext) x where "\<not> reg_and_rm enc" "extension_of enc = Some x" "at (args i) 0 = Inr mem" "x < 8" "reg = unat x"
    using assms(1) by (cases "args i")
      (auto simp: has_operands_def split_operands_def split: if_splits arg_order.splits list.splits option.splits)
  then show ?thesis
  proof cases
    case reg
    with register_number_run [OF reg(3)] add show ?thesis by (fastforce simp: add_operands_def)
  next
    case single
    with add [of 0] show ?thesis by (fastforce simp: add_operands_def)
  next
    case ext
    then have "x < 16" by (simp add: word_less_nat_alt)
    with ext add [of x] show ?thesis by (fastforce simp: add_operands_def)
  qed
qed


lemma write_encoded_bytes:
  assumes "opcode_extension e = 0" "has_modrm e"
  shows "fst (write_encoded out m e) =
    out @ legacy_prefixes (has_oso e) (opcode e) @
    (if rex_prefix e = 0 then [] else [rex_prefix e OR REX_HIGH]) @ opcode_tail (opcode e) @ modrm_bytes e @
    (case immediate_size e of None \<Rightarrow> [] | Some sz \<Rightarrow> map (int_byte (immediate e)) [0..<sz])"
  using assms
  by (auto simp: write_encoded_def Let_def legacy_prefixes_def opcode_tail_def modrm_bytes_def write_u8_def
      write_int_append split: list.splits option.splits)

text \<open>The fields of the operand are not touched by the immediate.\<close>

definition same_operand :: "encoded_instr \<Rightarrow> encoded_instr \<Rightarrow> bool" where
  "same_operand e e' = (has_modrm e' = has_modrm e \<and> enc_mod e' = enc_mod e \<and> enc_reg e' = enc_reg e \<and>
     enc_rm e' = enc_rm e \<and> enc_index e' = enc_index e \<and> enc_base e' = enc_base e \<and> has_sib e' = has_sib e \<and>
     opcode e' = opcode e \<and> has_oso e' = has_oso e \<and> opcode_extension e' = opcode_extension e \<and>
     modrm_bytes e' = modrm_bytes e)"

lemma add_immediate_same:
  assumes "add_immediate m e i sz kind = Inr (e', m')"
  shows "same_operand e e'" "rex_prefix e' = rex_prefix e"
  using assms
  by (auto simp: add_immediate_def Let_def new_fixup_def same_operand_def modrm_bytes_def mod_rm_byte_def sib_byte_def
      split: list.splits asm_const.splits option.splits)

lemma rex_high_flags: "r AND 7 = 0 \<Longrightarrow> (r OR REX_HIGH) AND 7 = 0"
  by (simp add: rex_defs bit.conj_disj_distrib2)

lemma same_operand_rex: "same_operand e (e\<lparr>rex_prefix := r\<rparr>)"
  by (auto simp: same_operand_def modrm_bytes_def mod_rm_byte_def sib_byte_def split: option.splits)

text \<open>
  C8. The bytes that \<^verbatim>\<open>encode_instr\<close> writes for an instruction with a register or memory
  operand are the legacy prefixes, the REX prefix if one is needed, the opcode, and then bytes
  from which the processor's rules for ModR/M, SIB, displacement and the REX extension bits
  read back the number of the register operand and the operand itself, be it a register, a
  dereferenced register or a register with an offset.
\<close>

theorem encode_instr_decodes:
  assumes "encode_instr out m i enc = Inr (out', m')" "has_operands i enc reg mem" "denotes mem d"
  shows "\<exists>rex rest. out' = out @ legacy_prefixes (use_oso enc) (opcode_of enc) @
      (if rex = 0 then [] else [rex OR REX_HIGH]) @ opcode_tail (opcode_of enc) @ rest \<and>
    decode_modrm rex rest = Some (reg, d)"
proof -
  obtain e e1 m1 high e2 e3 m2 where run: "start_encoding i enc = Inr e" "add_operands m e i enc = Inr (e1, m1)"
    "e2 = (if high then e1\<lparr>rex_prefix := rex_prefix e1 OR REX_HIGH\<rparr> else e1)"
    "(case immediate_of enc of None \<Rightarrow> Inr (e2, m1)
        | Some sz \<Rightarrow> add_immediate m1 e2 i sz (fixup_type_of enc)) = Inr (e3, m2)"
    and "\<exists>e4. add_rex_bits e3 = Inr e4 \<and> (out', m') = write_encoded out m2 e4"
    using assms(1) unfolding encode_instr_def Let_def by (fastforce split: prod.splits)
  then obtain e4 where e4: "add_rex_bits e3 = Inr e4" "(out', m') = write_encoded out m2 e4" by blast
  have start: "\<not> reg_in_opcode enc" using assms(2) by (simp add: has_operands_def)
  note s = start_encoding_fields [OF run(1) start]
  obtain n where op: "operand_added (e\<lparr>enc_reg := n, has_modrm := True\<rparr>) e1 d" "unat n = reg" "n < 16"
    using add_operands_decodes [OF assms(2,3) run(1), of m] run(2) by auto
  have "same_operand e1 e2" "rex_prefix e2 AND 7 = 0"
    using run(3) op(1) s(6) same_operand_rex rex_high_flags
    by (auto simp: operand_added_def same_operand_def)
  then have e3: "same_operand e1 e3" "rex_prefix e3 AND 7 = 0"
    using run(4) add_immediate_same by (auto simp: same_operand_def split: option.splits)
  have f: "opcode_extension e3 = 0" "has_modrm e3" "enc_index e3 < 8" "enc_reg e3 < 16" "unat (enc_reg e3) = reg"
    "opcode e3 = opcode_of enc" "has_oso e3 = use_oso enc"
    using e3(1) op s by (simp_all add: same_operand_def operand_added_def)
  have d: "decode_modrm (rex_prefix e4) (modrm_bytes e4 @ rest) = Some (reg, d)" for rest
    using decode_encoded [OF e4(1) e3(2) f(1-4)] e3(1) op(1) f(5) by (simp add: same_operand_def operand_added_def)
  have e4_eq: "e4 = e3\<lparr>rex_prefix := rex_prefix e4\<rparr>" by (rule add_rex_bits_flags [OF e4(1) e3(2) f(1-3)])
  have g: "opcode_extension e4 = 0" "has_modrm e4" "opcode e4 = opcode_of enc" "has_oso e4 = use_oso enc"
    by (subst e4_eq, simp add: f)+
  have "out' = fst (write_encoded out m2 e4)" using e4(2) by (metis fst_conv)
  then show ?thesis unfolding write_encoded_bytes [OF g(1,2)] g(3,4) using d
    by (intro exI [of _ "rex_prefix e4"] exI conjI) (assumption, rule d)
qed

definition stack_load :: asm_instr where
  "stack_load = \<lparr>aop = MOV, args = [\<lparr>is_deref = False, operand = ASM_VALUE_REGISTER
      \<lparr>reg_width = 64, value_width = 64, reg_id = PHYS_REG REG_CLASS_R9\<rparr>\<rparr>,
    \<lparr>is_deref = True, operand = ASM_VALUE_OFFSET_REGISTER
      \<lparr>reg_width = 64, value_width = 64, reg_id = PHYS_REG REG_CLASS_SP\<rparr> (ASM_CONST_IMMEDIATE 24)\<rparr>],
    vreg_deps = [], label = None\<rparr>"

definition mov_rm :: encoding where
  "mov_rm = \<lparr>order_of = RM, use_rex_w = True, use_oso = False, opcode_of = [0x8B], reg_and_rm = True,
     extension_of = None, immediate_of = None, reg_in_opcode = False, fixup_type_of = FIXUP_RELATIVE\<rparr>"

lemma encode_mov: "encode_instr [] (init_asm_module []) stack_load mov_rm =
    Inr ([0x4C, 0x8B, 0x4C, 0x24, 0x18], init_asm_module [])"
  by code_simp


theorem encode_instr_decodes_witness:
  "\<exists>rex rest. [0x4C, 0x8B, 0x4C, 0x24, 0x18] = [] @ legacy_prefixes (use_oso mov_rm) (opcode_of mov_rm) @
      (if rex = 0 then [] else [rex OR REX_HIGH]) @ opcode_tail (opcode_of mov_rm) @ rest \<and>
    decode_modrm rex rest = Some (9, Rm_Memory 4 24)"
proof (rule encode_instr_decodes [OF encode_mov])
  show "has_operands stack_load mov_rm 9 (args stack_load ! 1)"
    by (simp add: has_operands_def mov_rm_def stack_load_def register_number_def value_reg_def)
  show "denotes (args stack_load ! 1) (Rm_Memory 4 24)"
    by (simp add: denotes_def stack_load_def gpr_number_def reg_class_is_gpr_def reg_class_number_def reg_classes_def)
qed

section \<open>Immediates\<close>

lemma shifted_one: "push_bit n (1 :: u64) - 1 = mask n"
  by (simp add: mask_eq_exp_minus_1 push_bit_eq_mult)

lemma and_bit_nonzero: "n < 64 \<Longrightarrow> (x :: u64) AND push_bit n 1 \<noteq> 0 \<longleftrightarrow> bit x n"
  by (simp add: and_exp_eq_0_iff_not_bit push_bit_eq_mult)

lemma take_bit_self_iff: "drop_bit n (x :: u64) = 0 \<longleftrightarrow> take_bit n x = x"
proof
  show "take_bit n x = x" if "drop_bit n x = 0"
    using that bits_ident [of n x] by simp
  show "drop_bit n x = 0" if "take_bit n x = x"
    using arg_cong [OF that, of "drop_bit n"] by (simp add: drop_bit_take_bit)
qed

lemma sign_extended_iff:
  assumes "0 < n" "n < 64" "bit x (n - 1)"
  shows "drop_bit n (x :: u64) = mask (64 - n) \<longleftrightarrow> signed_take_bit (n - 1) x = x"
proof -
  have "drop_bit n x = mask (64 - n) \<longleftrightarrow> (\<forall>j < 64. bit x (n + j) \<longleftrightarrow> j < 64 - n)"
    unfolding word_bits_eq_iff by (simp add: bit_drop_bit_eq bit_mask_iff)
  also have "\<dots> \<longleftrightarrow> (\<forall>k < 64. n \<le> k \<longrightarrow> bit x k)"
  proof safe
    show "bit x k" if "\<forall>j < 64. bit x (n + j) \<longleftrightarrow> j < 64 - n" "k < 64" "n \<le> k" for k
      using that(1) [rule_format, of "k - n"] that(2,3) by simp
    show "j < 64 - n" if "bit x (n + j)" for j using bit_imp_le_length [OF that] by simp
    show "bit x (n + j)" if "\<forall>k < 64. n \<le> k \<longrightarrow> bit x k" "j < 64 - n" for j using that by simp
  qed
  also have "\<dots> \<longleftrightarrow> signed_take_bit (n - 1) x = x"
  proof -
    obtain v where "n = Suc v" using assms(1) gr0_conv_Suc by blast
    then show ?thesis
      unfolding word_bits_eq_iff using assms(2,3)
      by (auto simp: bit_signed_take_bit_iff min_def Suc_le_eq le_eq_less_or_eq)
  qed
  finally show ?thesis .
qed

lemma extended_immediate:
  fixes x :: u64
  assumes "Suc v \<le> n"
  shows "take_bit n (signed_take_bit v x) =
    (if bit x v then take_bit (Suc v) x OR push_bit (Suc v) (mask (n - Suc v)) else take_bit (Suc v) x)"
proof (rule bit_word_eqI)
  fix k assume k: "k < LENGTH(64)"
  consider "k < v" | "k = v" | "Suc v \<le> k" by linarith
  then show "bit (take_bit n (signed_take_bit v x)) k = bit (if bit x v
      then take_bit (Suc v) x OR push_bit (Suc v) (mask (n - Suc v)) else take_bit (Suc v) x) k"
    using assms k
    by cases (auto simp: bit_or_iff bit_push_bit_iff bit_take_bit_iff bit_mask_iff bit_signed_take_bit_iff min_def
      simp del: push_bit_Suc)
qed

text \<open>
  C20. An immediate of fewer than 64 bits is accepted exactly when the constant is a value of
  the operand's width, written zero- or sign-extended to 64 bits, and extending its low bits
  to that width the way the instruction does, by sign or by zeros, gives it back.
\<close>

theorem is_const_and_fits_exact:
  assumes "operand v = ASM_VALUE_CONST (ASM_CONST_IMMEDIATE x)" "0 < w" "w \<le> n" "n \<le> 64" "w < 64"
  shows "is_const_and_fits v n w sext =
    Inr ((take_bit n x = x \<or> signed_take_bit (n - 1) x = x) \<and>
         take_bit n x = take_bit n (if sext then signed_take_bit (w - 1) x else take_bit w x))"
proof -
  have ext: "(if sext \<and> take_bit w x AND push_bit (w - 1) 1 \<noteq> 0
      then take_bit w x OR push_bit w (mask (n - w)) else take_bit w x) =
      take_bit n (if sext then signed_take_bit (w - 1) x else take_bit w x)"
    using assms extended_immediate [of "w - 1" n x] and_bit_nonzero [of "w - 1" "take_bit w x"]
    by (simp add: bit_take_bit_iff min_def)
  have low: "(if n = 64 then x else take_bit n x) = take_bit n x"
    by (simp add: take_bit_word_eq_self)
  have wide: "(n \<noteq> 64 \<and> drop_bit n x \<noteq> 0 \<and> \<not> (drop_bit n x = mask (64 - n) \<and> drop_bit (n - 1) x AND 1 = 1)) \<longleftrightarrow>
      \<not> (take_bit n x = x \<or> signed_take_bit (n - 1) x = x)"
  proof (cases "n = 64 \<or> drop_bit n x = 0")
    case True
    then show ?thesis using take_bit_word_eq_self [of n x] by (auto simp: take_bit_self_iff)
  next
    case False
    then have "n < 64" "take_bit n x \<noteq> x" using assms(4) by (auto simp: take_bit_self_iff)
    moreover have "drop_bit (n - 1) x AND 1 = 1 \<longleftrightarrow> bit x (n - 1)" by (simp add: word_and_one_iff bit_drop_bit_eq)
    moreover have "bit x (n - 1)" if "signed_take_bit (n - 1) x = x"
    proof (rule ccontr)
      assume "\<not> bit x (n - 1)"
      then have "take_bit n (signed_take_bit (n - 1) x) = signed_take_bit (n - 1) x"
        using assms(2,3) \<open>n < 64\<close> by (intro bit_word_eqI) (auto simp: bit_take_bit_iff bit_signed_take_bit_iff min_def)
      then show False using that \<open>take_bit n x \<noteq> x\<close> by simp
    qed
    ultimately show ?thesis using False sign_extended_iff [of n x] assms(2,3) by auto
  qed
  show ?thesis
    unfolding is_const_and_fits_def assms(1) Let_def shifted_one take_bit_eq_mask [symmetric]
      asm_operand.case asm_const.case ext low wide
    using assms(2-5) by simp
qed


theorem is_const_and_fits_exact_witness:
  "is_const_and_fits (asm_imm 0xFFFFFFFFFFFFFF80) 32 8 True = Inr True \<and>
   is_const_and_fits (asm_imm 0x80) 32 8 True = Inr False"
  using is_const_and_fits_exact [of "asm_imm 0xFFFFFFFFFFFFFF80" _ 8 32 True, OF _ _ _ _ _]
    is_const_and_fits_exact [of "asm_imm 0x80" _ 8 32 True]
  by (simp add: asm_imm_def asm_const_imm_def signed_take_bit_eq_take_bit_minus)

section \<open>Fixups\<close>

definition fixup_range :: "fixup \<Rightarrow> nat set" where
  "fixup_range f = {unat (fixup_offset f)..<unat (fixup_offset f) + unat (size_bytes f)}"

definition resolved :: "asm_symbol list \<Rightarrow> fixup \<Rightarrow> bool" where
  "resolved heap f = (fixup_kind f = FIXUP_RELATIVE \<and> fixup_section f = TEXT_SECTION \<and>
     symbol_defined (heap ! fixup_symbol f) \<and> symbol_section (heap ! fixup_symbol f) = TEXT_SECTION)"

fun disjoint_fixups :: "fixup list \<Rightarrow> bool" where
  "disjoint_fixups [] = True"
| "disjoint_fixups (f # fs) = ((\<forall>g \<in> set fs. fixup_range f \<inter> fixup_range g = {}) \<and> disjoint_fixups fs)"

definition fixup_value :: "fixup \<Rightarrow> u8 list \<Rightarrow> u32" where
  "fixup_value f bytes = ucast (read_int (take 4 (drop (unat (fixup_offset f)) bytes)))"

definition patchable :: "asm_symbol list \<Rightarrow> nat \<Rightarrow> fixup \<Rightarrow> bool" where
  "patchable heap n f = (fixup_symbol f < length heap \<and> size_bytes f = 4 \<and> unat (fixup_offset f) + 4 \<le> n)"

lemma patch_fixup_bytes:
  assumes "patchable heap (length bytes) f"
  shows "\<exists>bytes'. patch_fixup junk heap bytes f = Inr bytes' \<and> length bytes' = length bytes \<and>
    (\<forall>k < length bytes. k \<notin> fixup_range f \<longrightarrow> bytes' ! k = bytes ! k) \<and>
    (resolved heap f \<longrightarrow> fixup_value f bytes' = symbol_offset (heap ! fixup_symbol f) - next_instr_offset f)"
proof (cases "resolved heap f")
  case False
  then show ?thesis using assms
    by (cases "fixup_kind f") (auto simp: patch_fixup_def patchable_def resolved_def at_def)
next
  case True
  let ?d = "symbol_offset (heap ! fixup_symbol f) - next_instr_offset f" and ?off = "unat (fixup_offset f)"
  have in_range: "?off + 4 \<le> length bytes" "fixup_symbol f < length heap" "unat (size_bytes f) = 4"
    using assms by (simp_all add: patchable_def)
  let ?b = "take ?off bytes @ map (int_byte (scast ?d)) [0..<4] @ drop (?off + 4) bytes"
  have "patch_fixup junk heap bytes f = Inr ?b"
    using True in_range write_int_at_inside [OF in_range(1), of junk "scast ?d"]
    by (simp add: patch_fixup_def resolved_def at_def)
  moreover have "length ?b = length bytes" using in_range by simp
  moreover have "?b ! k = bytes ! k" if "k < length bytes" "k \<notin> fixup_range f" for k
    using that in_range by (auto simp: fixup_range_def nth_append min_def not_less)
  moreover have "fixup_value f ?b = ?d"
  proof -
    have "take 4 (drop ?off ?b) = map (int_byte (scast ?d)) [0..<4]" using in_range by simp
    then have "fixup_value f ?b = ucast (take_bit 32 (scast ?d :: u64))" by (simp only: fixup_value_def read_disp)
    also have "\<dots> = ?d" by (simp only: ucast_take_bit ucast_scast)
    finally show ?thesis .
  qed
  ultimately show ?thesis by blast
qed

lemma fixup_value_cong:
  assumes "length bytes' = length bytes" "patchable heap (length bytes) f"
    "\<forall>k \<in> fixup_range f. bytes' ! k = bytes ! k"
  shows "fixup_value f bytes' = fixup_value f bytes"
proof -
  have "take 4 (drop (unat (fixup_offset f)) bytes') = take 4 (drop (unat (fixup_offset f)) bytes)"
    using assms by (intro nth_equalityI) (auto simp: patchable_def fixup_range_def)
  then show ?thesis by (simp add: fixup_value_def)
qed

text \<open>
  C14. When every fixup is four bytes inside the text and no two overlap, patching succeeds,
  keeps the length of the text and every byte outside the fixups, and leaves in each relative
  fixup to a symbol defined in the text the distance from the next instruction to the symbol.
\<close>

theorem patch_fixups_distances:
  assumes "\<forall>f \<in> set fs. patchable heap (length bytes) f" "disjoint_fixups fs"
  shows "\<exists>bytes'. patch_fixups junk heap bytes fs = Inr bytes' \<and> length bytes' = length bytes \<and>
    (\<forall>k < length bytes. (\<forall>f \<in> set fs. k \<notin> fixup_range f) \<longrightarrow> bytes' ! k = bytes ! k) \<and>
    (\<forall>f \<in> set fs. resolved heap f \<longrightarrow>
       fixup_value f bytes' = symbol_offset (heap ! fixup_symbol f) - next_instr_offset f)"
  using assms
proof (induction fs arbitrary: bytes)
  case (Cons f fs)
  obtain b1 where b1: "patch_fixup junk heap bytes f = Inr b1" "length b1 = length bytes"
    "\<forall>k < length bytes. k \<notin> fixup_range f \<longrightarrow> b1 ! k = bytes ! k"
    "resolved heap f \<longrightarrow> fixup_value f b1 = symbol_offset (heap ! fixup_symbol f) - next_instr_offset f"
    using patch_fixup_bytes [of heap bytes f junk] Cons.prems(1) by auto
  obtain b2 where b2: "patch_fixups junk heap b1 fs = Inr b2" "length b2 = length b1"
    "\<forall>k < length b1. (\<forall>f \<in> set fs. k \<notin> fixup_range f) \<longrightarrow> b2 ! k = b1 ! k"
    "\<forall>f \<in> set fs. resolved heap f \<longrightarrow>
       fixup_value f b2 = symbol_offset (heap ! fixup_symbol f) - next_instr_offset f"
    using Cons.IH [of b1] Cons.prems b1(2) by auto
  have f: "patchable heap (length b1) f" using Cons.prems(1) b1(2) by simp
  have "\<forall>k \<in> fixup_range f. b2 ! k = b1 ! k"
  proof
    fix k assume k: "k \<in> fixup_range f"
    then have "k < length b1" using f by (simp add: patchable_def fixup_range_def)
    moreover have "\<forall>g \<in> set fs. k \<notin> fixup_range g" using k Cons.prems(2) by auto
    ultimately show "b2 ! k = b1 ! k" using b2(3) by blast
  qed
  then have "fixup_value f b2 = fixup_value f b1" by (rule fixup_value_cong [OF b2(2) f])
  then show ?case using b1 b2 by auto
qed simp


definition jump_back :: "fixup list" where
  "jump_back = [\<lparr>fixup_kind = FIXUP_RELATIVE, fixup_section = TEXT_SECTION, fixup_offset = 1,
     next_instr_offset = 5, size_bytes = 4, fixup_symbol = 0\<rparr>]"

definition label_at_0 :: "asm_symbol list" where
  "label_at_0 = [\<lparr>symbol_name = [], symbol_section = TEXT_SECTION, symbol_defined = True,
     symbol_linkage = ASM_LOCAL_LINKAGE, symtab_index = 0, symbol_offset = 0, symbol_size = 0, preds = []\<rparr>]"

theorem patch_fixups_distances_witness:
  "\<exists>bytes'. patch_fixups (\<lambda>_. 0) label_at_0 [0xE9, 0, 0, 0, 0] jump_back = Inr bytes' \<and> length bytes' = 5 \<and>
     bytes' ! 0 = 0xE9 \<and> fixup_value (hd jump_back) bytes' = - 5"
proof -
  have "\<forall>f \<in> set jump_back. patchable label_at_0 (length [0xE9, 0, 0, 0, 0 :: u8]) f" "disjoint_fixups jump_back"
    by (simp_all add: jump_back_def label_at_0_def patchable_def)
  from patch_fixups_distances [OF this, of "\<lambda>_. 0"] show ?thesis
    by (auto simp: jump_back_def label_at_0_def fixup_range_def resolved_def)
qed

section \<open>Labels\<close>

text \<open>
  What \<^verbatim>\<open>assemble\<close> relies on of the generated function that assembles one instruction: it
  appends to the output and leaves the symbols of the module alone.
\<close>

locale instr_assembler =
  fixes asm :: assembler
  assumes appends: "asm out m i = Inr (out', m') \<Longrightarrow> \<exists>bs. out' = out @ bs"
    and keeps_symbols: "asm out m i = Inr (out', m') \<Longrightarrow> symbol_heap m' = symbol_heap m"
begin

lemma step_cases:
  assumes "assemble_instrs asm m (i # is) = Inr m'"
  obtains bs m1 m2 where "asm (text_bytes m) m i = Inr (text_bytes m @ bs, m1)" "symbol_heap m1 = symbol_heap m"
    "define_label (m1\<lparr>text_bytes := text_bytes m @ bs\<rparr>) (label i) (length (text_bytes m)) = Inr m2"
    "assemble_instrs asm m2 is = Inr m'"
proof -
  obtain out m1 m2 where run: "asm (text_bytes m) m i = Inr (out, m1)"
    "define_label (m1\<lparr>text_bytes := out\<rparr>) (label i) (length (text_bytes m)) = Inr m2"
    "assemble_instrs asm m2 is = Inr m'"
    using assms by (auto simp: Let_def)
  then obtain bs where "out = text_bytes m @ bs" using appends by blast
  then show thesis using run keeps_symbols [OF run(1)] that by blast
qed

lemma define_label_effect:
  assumes "define_label m l n = Inr m'"
  shows "text_bytes m' = text_bytes m" "\<And>s. l = Some s \<Longrightarrow> symbol_offset (symbol_heap m' ! s) = of_nat n"
    "\<And>s. l \<noteq> Some s \<Longrightarrow> symbol_heap m' ! s = symbol_heap m ! s"
  using assms by (auto simp: define_label_def nth_list_update split: option.splits if_splits)

lemma other_labels_kept:
  assumes "assemble_instrs asm m is = Inr m'" "\<forall>i \<in> set is. label i \<noteq> Some s"
  shows "symbol_heap m' ! s = symbol_heap m ! s"
  using assms
proof (induction "is" arbitrary: m)
  case (Cons i "is")
  from Cons.prems(1) show ?case
    by (rule step_cases) (use Cons define_label_effect(3) in fastforce)
qed simp

lemma labels_at_instructions:
  assumes "assemble_instrs asm m is = Inr m'"
  shows "\<exists>chunks. length chunks = length is \<and> text_bytes m' = text_bytes m @ concat chunks \<and>
    (\<forall>k < length is. \<exists>m0 m1. asm (text_bytes m @ concat (take k chunks)) m0 (is ! k) =
        Inr (text_bytes m @ concat (take (Suc k) chunks), m1)) \<and>
    (\<forall>k < length is. \<forall>s. label (is ! k) = Some s \<and> (\<forall>j < length is. k < j \<longrightarrow> label (is ! j) \<noteq> Some s) \<longrightarrow>
       symbol_offset (symbol_heap m' ! s) = of_nat (length (text_bytes m @ concat (take k chunks))))"
  using assms
proof (induction "is" arbitrary: m)
  case (Cons i "is")
  from Cons.prems show ?case
  proof (rule step_cases)
    fix bs m1 m2
    assume step: "asm (text_bytes m) m i = Inr (text_bytes m @ bs, m1)" "symbol_heap m1 = symbol_heap m"
      "define_label (m1\<lparr>text_bytes := text_bytes m @ bs\<rparr>) (label i) (length (text_bytes m)) = Inr m2"
      "assemble_instrs asm m2 is = Inr m'"
    have t: "text_bytes m2 = text_bytes m @ bs" using define_label_effect(1) [OF step(3)] by simp
    obtain chunks where c: "length chunks = length is" "text_bytes m' = text_bytes m2 @ concat chunks"
      "\<And>k. k < length is \<Longrightarrow> \<exists>m0 m1. asm (text_bytes m2 @ concat (take k chunks)) m0 (is ! k) =
        Inr (text_bytes m2 @ concat (take (Suc k) chunks), m1)"
      "\<And>k s. k < length is \<Longrightarrow> label (is ! k) = Some s \<Longrightarrow> (\<And>j. j < length is \<Longrightarrow> k < j \<Longrightarrow> label (is ! j) \<noteq> Some s) \<Longrightarrow>
       symbol_offset (symbol_heap m' ! s) = of_nat (length (text_bytes m2 @ concat (take k chunks)))"
      using Cons.IH [OF step(4)] by blast
    have "symbol_offset (symbol_heap m' ! s) = of_nat (length (text_bytes m @ concat (take k (bs # chunks))))"
      if "k < length (i # is)" "label ((i # is) ! k) = Some s"
        "\<And>j. j < length (i # is) \<Longrightarrow> k < j \<Longrightarrow> label ((i # is) ! j) \<noteq> Some s" for k s
    proof (cases k)
      case 0
      then have "\<forall>i \<in> set is. label i \<noteq> Some s" using that(3) [of "Suc _"] by (auto simp: in_set_conv_nth)
      then have "symbol_heap m' ! s = symbol_heap m2 ! s" by (rule other_labels_kept [OF step(4)])
      then show ?thesis using define_label_effect(2) [OF step(3)] that(2) 0 by simp
    next
      case (Suc k')
      then have "label (is ! j) \<noteq> Some s" if "j < length is" "k' < j" for j
        using \<open>\<And>j. j < length (i # is) \<Longrightarrow> k < j \<Longrightarrow> label ((i # is) ! j) \<noteq> Some s\<close> [of "Suc j"] that by simp
      then show ?thesis using c(4) [of k' s] that(1,2) Suc t by simp
    qed
    moreover have "\<exists>m0 m1. asm (text_bytes m @ concat (take k (bs # chunks))) m0 ((i # is) ! k) =
        Inr (text_bytes m @ concat (take (Suc k) (bs # chunks)), m1)" if "k < length (i # is)" for k
      using that step(1) c(3) t by (cases k) auto
    ultimately show ?thesis using c(1,2) t by (intro exI [of _ "bs # chunks"]) auto
  qed
qed simp

end

text \<open>
  The generated function picks an encoding of the table for the instruction and calls
  \<^verbatim>\<open>encode_instr\<close> with it; the choice is a parameter.
\<close>

definition table_assembler :: "(asm_instr \<Rightarrow> encoding run) \<Rightarrow> assembler" where
  "table_assembler pick out m i = rbind (pick i) (encode_instr out m i)"

lemma add_displacement_symbols:
  "add_displacement m e c reg kind = Inr (x, e', m') \<Longrightarrow> symbol_heap m' = symbol_heap m"
  by (cases c) (auto simp: add_displacement_def new_fixup_def Let_def split: if_splits)

lemma add_mod_rm_arg_symbols:
  "add_mod_rm_arg m e v kind = Inr (e', m') \<Longrightarrow> symbol_heap m' = symbol_heap m"
  by (cases "operand v") (auto simp: add_mod_rm_arg_def Let_def dest: add_displacement_symbols split: if_splits)

lemma add_operands_symbols:
  "add_operands m e i enc = Inr (e', m') \<Longrightarrow> symbol_heap m' = symbol_heap m"
  by (auto simp: add_operands_def split: if_splits option.splits dest: add_mod_rm_arg_symbols)

lemma add_immediate_symbols:
  "add_immediate m e i sz kind = Inr (e', m') \<Longrightarrow> symbol_heap m' = symbol_heap m"
  by (auto simp: add_immediate_def new_fixup_def Let_def split: list.splits asm_const.splits)

lemma set_fixup_symbols [simp]: "symbol_heap (set_fixup m f g) = symbol_heap m"
  by (simp add: set_fixup_def split: option.split)

lemma append_choices:
  "(if b then xs @ ys else xs) = xs @ (if b then ys else [])"
  "(case v of None \<Rightarrow> xs | Some z \<Rightarrow> xs @ f z) = xs @ (case v of None \<Rightarrow> [] | Some z \<Rightarrow> f z)"
  by (simp_all split: option.split)

lemma write_encoded_appends:
  assumes "write_encoded out m e = (out', m')"
  shows "\<exists>bs. out' = out @ bs" "symbol_heap m' = symbol_heap m"
  using assms
  by (simp_all only: write_encoded_def Let_def write_u8_def write_int_append append_choices append_assoc
      prod.inject) auto

lemma encode_instr_appends:
  assumes "encode_instr out m i enc = Inr (out', m')"
  shows "\<exists>bs. out' = out @ bs" "symbol_heap m' = symbol_heap m"
proof -
  obtain e e1 m1 e2 e3 m2 e4 where run: "add_operands m e i enc = Inr (e1, m1)"
    "(case immediate_of enc of None \<Rightarrow> Inr (e2, m1)
        | Some sz \<Rightarrow> add_immediate m1 e2 i sz (fixup_type_of enc)) = Inr (e3, m2)"
    "write_encoded out m2 e4 = (out', m')"
    using assms unfolding encode_instr_def Let_def by (fastforce split: prod.splits)
  show "\<exists>bs. out' = out @ bs" by (rule write_encoded_appends [OF run(3)])
  show "symbol_heap m' = symbol_heap m"
    using run add_operands_symbols add_immediate_symbols write_encoded_appends(2)
    by (metis (no_types, lifting) Inr_inject Pair_inject option.case_eq_if)
qed

interpretation tab: instr_assembler "table_assembler pick" for pick
  by unfold_locales (auto simp: table_assembler_def dest: encode_instr_appends)


lemma number_symbols_offset: "symbol_offset (number_symbols heap ss i ! s) = symbol_offset (heap ! s)"
proof (induction ss arbitrary: heap i)
  case (Cons t ss)
  have "symbol_offset (heap[t := (heap ! t)\<lparr>symtab_index := i + 1\<rparr>] ! s) = symbol_offset (heap ! s)"
    by (cases "t = s"; cases "t < length heap") (simp_all add: list_update_beyond)
  then show ?case using Cons.IH by simp
qed simp

text \<open>
  C13. Assembling a module gives every label the offset at which its instruction was encoded:
  the text before the fixups are patched is the concatenation of what the instructions encode
  to, in order, and the symbol that labels an instruction (the last one, if the label occurs
  more than once) has as its offset the total length of the encodings before it.
\<close>

theorem assemble_places_labels:
  assumes "assemble junk (table_assembler pick) m = Inr m'"
  shows "\<exists>chunks. length chunks = length (text_instrs m) \<and>
    (\<forall>k < length chunks. \<exists>m0 m1. table_assembler pick (concat (take k chunks)) m0 (text_instrs m ! k) =
       Inr (concat (take (Suc k) chunks), m1)) \<and>
    (\<forall>k < length chunks. \<forall>s. label (text_instrs m ! k) = Some s \<and>
       (\<forall>j < length chunks. k < j \<longrightarrow> label (text_instrs m ! j) \<noteq> Some s) \<longrightarrow>
       symbol_offset (symbol_heap m' ! s) = of_nat (length (concat (take k chunks))))"
proof -
  obtain m1 where m1: "assemble_instrs (table_assembler pick) (m\<lparr>text_bytes := []\<rparr>) (text_instrs m) = Inr m1"
    "symbol_heap m' = number_symbols (symbol_heap m1) (symbols m1) 0"
    using assms by (auto simp: assemble_def Let_def)
  from tab.labels_at_instructions [OF m1(1)] show ?thesis
    unfolding m1(2) number_symbols_offset by auto
qed

definition jump_to_self :: asm_module where
  "jump_to_self = (init_asm_module [])\<lparr>symbol_heap := label_at_0, symbols := [0],
     text_instrs := [stack_load, \<lparr>aop = JMP, args = [asm_symbol_value 0], vreg_deps = [], label = Some 0\<rparr>]\<rparr>"

definition pick_example :: "asm_instr \<Rightarrow> encoding run" where
  "pick_example i =
     (if aop i = MOV then Inr mov_rm
      else if aop i = JMP then
        Inr \<lparr>order_of = INVALID, use_rex_w = False, use_oso = False, opcode_of = [0xE9], reg_and_rm = False,
          extension_of = None, immediate_of = Some 4, reg_in_opcode = False, fixup_type_of = FIXUP_RELATIVE\<rparr>
      else exit_ice)"

lemma assemble_jump:
  "map_sum id text_bytes (assemble (\<lambda>_. 0) (table_assembler pick_example) jump_to_self) =
     Inr [0x4C, 0x8B, 0x4C, 0x24, 0x18, 0xE9, 0xFB, 0xFF, 0xFF, 0xFF]"
  by code_simp

theorem assemble_places_labels_witness:
  "\<exists>m'. assemble (\<lambda>_. 0) (table_assembler pick_example) jump_to_self = Inr m' \<and>
     (\<exists>chunks :: u8 list list. length chunks = 2 \<and> symbol_offset (symbol_heap m' ! 0) = of_nat (length (concat (take 1 chunks))))"
proof -
  obtain m' where m': "assemble (\<lambda>_. 0) (table_assembler pick_example) jump_to_self = Inr m'"
    using assemble_jump by (cases "assemble (\<lambda>_. 0) (table_assembler pick_example) jump_to_self") auto
  have t: "text_instrs jump_to_self = [stack_load, \<lparr>aop = JMP, args = [asm_symbol_value 0], vreg_deps = [], label = Some 0\<rparr>]"
    by (simp add: jump_to_self_def)
  obtain chunks :: "u8 list list" where c: "length chunks = length (text_instrs jump_to_self)" "\<forall>k < length chunks. \<forall>s. label (text_instrs jump_to_self ! k) = Some s \<and>
       (\<forall>j < length chunks. k < j \<longrightarrow> label (text_instrs jump_to_self ! j) \<noteq> Some s) \<longrightarrow>
       symbol_offset (symbol_heap m' ! s) = of_nat (length (concat (take k chunks)))"
    using assemble_places_labels [OF m'] by blast
  have "symbol_offset (symbol_heap m' ! 0) = of_nat (length (concat (take 1 chunks)))"
    using c(2) [rule_format, of 1 0] by (simp add: c(1) t)
  then show ?thesis using m' c(1) by (auto simp: t numeral_2_eq_2)
qed

end
