(* ===== verification/Naive_RegAlloc.thy ===== *)
theory Naive_RegAlloc
  imports Naive_Asm Naive_Bit_Set Libc_Qsort
begin

text \<open>
  The register allocator (\<^verbatim>\<open>src/src/backend/reg_alloc.c\<close>) and the builder it works on
  (\<^verbatim>\<open>asm_gen.h\<close>): predecessors of jump targets, live ranges by the bit-set analysis, the linear
  scan over the ranges sorted by their start, the spilling of registers live at calls, and the
  rewriting of the body with fills and spills.

  A \<^verbatim>\<open>VReg *\<close> is an index into the virtual registers, a \<^verbatim>\<open>Pred\<close> list hangs off its symbol.
  Live ranges are \<open>int\<close> with \<open>-1\<close> for none. Printing under the two dump flags is left out.
\<close>

section \<open>Virtual registers\<close>

datatype vreg_place = UNASSIGNED | IN_REG reg_class | ON_STACK u32

record vreg =
  place :: vreg_place
  pre_alloced :: bool
  vreg_type :: reg_type
  live_range_start :: int
  live_range_end :: int

record asm_builder =
  asm_mod :: asm_module
  current_block :: "asm_instr list"
  ret_label :: symbol_ref
  virtual_registers :: "vreg list"
  local_stack_usage :: u32

section \<open>Allocation order\<close>

definition int_alloc_index_to_reg :: "reg_class list" where
  "int_alloc_index_to_reg =
     [REG_CLASS_R13, REG_CLASS_R14, REG_CLASS_R15, REG_CLASS_B, REG_CLASS_R11, REG_CLASS_R10, REG_CLASS_R9,
      REG_CLASS_R8, REG_CLASS_C, REG_CLASS_D, REG_CLASS_SI, REG_CLASS_DI, REG_CLASS_A]"

definition float_alloc_index_to_reg :: "reg_class list" where
  "float_alloc_index_to_reg =
     [REG_CLASS_XMM6, REG_CLASS_XMM5, REG_CLASS_XMM4, REG_CLASS_XMM3, REG_CLASS_XMM2, REG_CLASS_XMM1,
      REG_CLASS_XMM0]"

text \<open>
  The inverse tables are arrays with designated initialisers: as long as the largest register
  in them requires, and zero at the registers that are not allocated.
\<close>

definition inverse_table :: "reg_class list \<Rightarrow> nat list" where
  "inverse_table order =
     map (\<lambda>r. if r \<in> set order then position order r else 0)
       (take (Suc (Max (set (map reg_class_number order)))) reg_classes)"

definition int_reg_to_alloc_index :: "nat list" where
  "int_reg_to_alloc_index = inverse_table int_alloc_index_to_reg"

definition float_reg_to_alloc_index :: "nat list" where
  "float_reg_to_alloc_index = inverse_table float_alloc_index_to_reg"

record reg_alloc_params =
  alloc_index_to_reg :: "reg_class list"
  reg_to_alloc_index :: "nat list"
  spill_register :: reg_class

fun params_of :: "reg_type \<Rightarrow> reg_alloc_params" where
  "params_of REG_TYPE_INTEGER = \<lparr>alloc_index_to_reg = int_alloc_index_to_reg,
     reg_to_alloc_index = int_reg_to_alloc_index, spill_register = REG_CLASS_R12\<rparr>"
| "params_of REG_TYPE_FLOAT = \<lparr>alloc_index_to_reg = float_alloc_index_to_reg,
     reg_to_alloc_index = float_reg_to_alloc_index, spill_register = REG_CLASS_XMM7\<rparr>"

definition allocatable_regs :: "reg_type \<Rightarrow> nat" where
  "allocatable_regs t = length (alloc_index_to_reg (params_of t))"

definition caller_save_regs_bitmask :: u32 where
  "caller_save_regs_bitmask = fold (\<lambda>r m. m OR push_bit (reg_class_number r) 1)
     [REG_CLASS_A, REG_CLASS_DI, REG_CLASS_SI, REG_CLASS_D, REG_CLASS_C, REG_CLASS_R8, REG_CLASS_R9,
      REG_CLASS_R10, REG_CLASS_R11] 0"

section \<open>Definitions and uses\<close>

definition references_vreg :: "asm_value \<Rightarrow> u32 \<Rightarrow> bool" where
  "references_vreg v n = (case value_reg v of Some r \<Rightarrow> reg_id r = V_REG n | None \<Rightarrow> False)"

definition is_use :: "asm_instr \<Rightarrow> u32 \<Rightarrow> bool" where
  "is_use i n = ((\<exists>v \<in> set (args i). references_vreg v n) \<or> n \<in> set (vreg_deps i))"

text \<open>The register of a pre-allocated virtual register; the union holds nothing else yet.\<close>

definition assigned_to :: "vreg \<Rightarrow> reg_class \<Rightarrow> bool run" where
  "assigned_to v r =
     (if \<not> pre_alloced v then Inr False
      else case place v of IN_REG r' \<Rightarrow> Inr (r' = r) | _ \<Rightarrow> undefined_behaviour)"

definition defining_ops :: "asm_op list" where
  "defining_ops = [MOV, MOVSX, MOVZX, MOVSS, MOVSD, MOVAPS, CVTSD2SI, CVTSI2SD, CVTSI2SS, CVTSS2SI,
     CVTSS2SD, CVTSD2SS, POP, IMUL, SETE, SETNE, SETG, SETGE, SETL, SETLE]"

definition is_def :: "asm_instr \<Rightarrow> u32 \<Rightarrow> vreg \<Rightarrow> bool run" where
  "is_def i n v =
     (if aop i = CALL then assigned_to v REG_CLASS_A
      else if aop i \<in> {CDQ, CQO} then
        rbind (assigned_to v REG_CLASS_D) (\<lambda>d. Inr (d \<and> is_use i n))
      else if aop i = XOR_I then
        rbind (at (args i) 0) (\<lambda>a. rbind (at (args i) 1) (\<lambda>b.
          Inr (references_vreg a n \<and> references_vreg b n)))
      else if aop i \<in> set defining_ops then
        rbind (at (args i) 0) (\<lambda>a. Inr (references_vreg a n))
      else Inr False)"

section \<open>Predecessors\<close>

definition conditional_jumps :: "asm_op list" where
  "conditional_jumps = [JE, JNE, JG, JGE, JL, JLE, JA, JAE, JB, JBE]"

definition jump_target :: "asm_instr \<Rightarrow> symbol_ref run" where
  "jump_target i =
     rbind (at (args i) 0) (\<lambda>v.
       case operand v of ASM_VALUE_CONST (ASM_CONST_SYMBOL s) \<Rightarrow> Inr s | _ \<Rightarrow> exit_ice)"

text \<open>
  Where the new predecessor goes: \<^verbatim>\<open>location\<close> starts at the head of the list and moves on only
  while there is a node after the next one, so a list of one node is overwritten.
\<close>

definition add_pred :: "pred list \<Rightarrow> pred \<Rightarrow> pred list" where
  "add_pred ps new_pred = (case ps of [] \<Rightarrow> [new_pred] | [_] \<Rightarrow> [new_pred] | _ \<Rightarrow> ps @ [new_pred])"

fun find_preds_from ::
  "symbol_ref \<Rightarrow> nat \<Rightarrow> asm_symbol list \<Rightarrow> nat \<Rightarrow> asm_instr list \<Rightarrow> asm_symbol list run" where
  "find_preds_from ret n heap i [] = Inr heap"
| "find_preds_from ret n heap i (ins # rest) =
     (if aop ins \<noteq> JMP \<and> aop ins \<notin> set conditional_jumps then find_preds_from ret n heap (Suc i) rest
      else
        rbind (jump_target ins) (\<lambda>s.
          if s = ret then find_preds_from ret n heap (Suc i) rest
          else rbind (at heap s) (\<lambda>target.
            if \<not> unat (symbol_offset target) < n then exit_ice
            else
              let new_pred = \<lparr>dest_offset = symbol_offset target, src_offset = of_nat i\<rparr>
              in find_preds_from ret n (heap[s := target\<lparr>preds := add_pred (preds target) new_pred\<rparr>]) (Suc i) rest)))"

definition find_preds :: "asm_builder \<Rightarrow> asm_builder run" where
  "find_preds b =
     rbind (find_preds_from (ret_label b) (length (current_block b)) (symbol_heap (asm_mod b)) 0 (current_block b))
       (\<lambda>heap. Inr (b\<lparr>asm_mod := (asm_mod b)\<lparr>symbol_heap := heap\<rparr>\<rparr>))"


section \<open>Live ranges\<close>

record live_state =
  liveness :: bit_set
  working_set :: bit_set
  largest_elem :: u32

text \<open>\<^verbatim>\<open>succ0\<close> and \<^verbatim>\<open>succ1\<close>, \<open>None\<close> for \<open>-1\<close>.\<close>

definition successors :: "asm_builder \<Rightarrow> nat \<Rightarrow> asm_instr \<Rightarrow> (nat option \<times> nat option) run" where
  "successors b pc i =
     (if aop i = JMP \<or> aop i \<in> set conditional_jumps then
        rbind (jump_target i) (\<lambda>s.
          let succ1 = (if aop i = JMP then None else Some (pc + 1)) in
          if s = ret_label b then Inr (None, succ1)
          else rbind (at (symbol_heap (asm_mod b)) s) (\<lambda>target.
            if \<not> unat (symbol_offset target) < length (current_block b) then exit_ice
            else Inr (Some (unat (symbol_offset target)), succ1)))
      else Inr (if pc \<noteq> length (current_block b) - 1 then Some (pc + 1) else None, None))"

text \<open>Whether a successor is live and not a definition, evaluated left to right.\<close>

definition succ_live :: "asm_builder \<Rightarrow> u32 \<Rightarrow> vreg \<Rightarrow> bit_set \<Rightarrow> nat option \<Rightarrow> bool run" where
  "succ_live b n v live s =
     (case s of
        None \<Rightarrow> Inr False
      | Some pc \<Rightarrow>
          rbind (run_opt (bit_set_get_bit live (of_nat pc))) (\<lambda>l.
            if \<not> l then Inr False
            else rbind (at (current_block b) pc) (\<lambda>i. rbind (is_def i n v) (\<lambda>d. Inr (\<not> d)))))"

definition live_at :: "asm_builder \<Rightarrow> u32 \<Rightarrow> vreg \<Rightarrow> bit_set \<Rightarrow> nat \<Rightarrow> asm_instr \<Rightarrow> bool run" where
  "live_at b n v live pc i =
     rbind (successors b pc i) (\<lambda>(succ0, succ1).
       if is_use i n then Inr True
       else rbind (succ_live b n v live succ0) (\<lambda>l. if l then Inr True else succ_live b n v live succ1))"

text \<open>The largest element of the working set, searched downwards from the word of \<^verbatim>\<open>pc\<close>.\<close>

fun rescan :: "bit_set \<Rightarrow> nat list \<Rightarrow> u32 \<Rightarrow> u32 run" where
  "rescan ws [] largest = Inr largest"
| "rescan ws (i # is) largest =
     rbind (run_opt (word_at ws i)) (\<lambda>w.
       if w \<noteq> 0 then rbind (run_of (highest_set_bit w)) (\<lambda>k. Inr (64 * of_nat i + k))
       else rescan ws is largest)"

text \<open>
  The loop over the further predecessors of \<^verbatim>\<open>pc\<close>: it does not advance \<^verbatim>\<open>pred\<close>, so it ends only
  if there is none or the next one belongs to another place.
\<close>

definition further_preds :: "u32 \<Rightarrow> pred list \<Rightarrow> unit run" where
  "further_preds pc ps =
     (case ps of [] \<Rightarrow> Inr () | q # _ \<Rightarrow> if dest_offset q \<noteq> pc then Inr () else Inl No_Return)"

definition label_preds :: "asm_builder \<Rightarrow> asm_instr \<Rightarrow> pred list run" where
  "label_preds b i =
     (case label i of None \<Rightarrow> Inr [] | Some s \<Rightarrow> rbind (at (symbol_heap (asm_mod b)) s) (\<lambda>t. Inr (preds t)))"

definition prev_of :: "nat \<Rightarrow> pred list \<Rightarrow> nat option" where
  "prev_of pc ps =
     (case ps of
        p # _ \<Rightarrow> if dest_offset p = of_nat pc then Some (unat (src_offset p))
               else if pc = 0 then None else Some (pc - 1)
      | [] \<Rightarrow> if pc = 0 then None else Some (pc - 1))"

text \<open>One round of the inner loop: the new state, and the place it goes on with, if any.\<close>

definition live_step ::
  "asm_builder \<Rightarrow> u32 \<Rightarrow> vreg \<Rightarrow> live_state \<Rightarrow> nat \<Rightarrow> (live_state \<times> nat option) run" where
  "live_step b n v st pc =
     rbind (run_opt (bit_set_set_bit (working_set st) (of_nat pc) False)) (\<lambda>ws.
     rbind (if of_nat pc = largest_elem st then rescan ws (rev [0..<Suc (pc div 64)]) (largest_elem st)
            else Inr (largest_elem st)) (\<lambda>largest.
     rbind (run_opt (bit_set_get_bit (liveness st) (of_nat pc))) (\<lambda>seen.
       if seen then exit_ice
       else
         rbind (at (current_block b) pc) (\<lambda>i.
         rbind (live_at b n v (liveness st) pc i) (\<lambda>new.
         rbind (run_opt (bit_set_set_bit (liveness st) (of_nat pc) new)) (\<lambda>live.
         rbind (label_preds b i) (\<lambda>ps.
           let st = \<lparr>liveness = live, working_set = ws, largest_elem = largest\<rparr> in
           case prev_of pc ps of
             None \<Rightarrow> Inr (st, None)
           | Some prev \<Rightarrow>
               rbind (if new \<and> ps \<noteq> [] then further_preds (of_nat pc) (tl ps) else Inr ()) (\<lambda>_.
                 if \<not> new then Inr (st, None)
                 else rbind (run_opt (bit_set_get_bit live (of_nat prev))) (\<lambda>l.
                   Inr (st, if l then None else Some prev)))))))))) "

fun live_chain :: "nat \<Rightarrow> asm_builder \<Rightarrow> u32 \<Rightarrow> vreg \<Rightarrow> live_state \<Rightarrow> nat \<Rightarrow> live_state run" where
  "live_chain 0 b n v st pc = Inl No_Return"
| "live_chain (Suc fuel) b n v st pc =
     rbind (live_step b n v st pc) (\<lambda>(st, next).
       case next of None \<Rightarrow> Inr st | Some pc \<Rightarrow> live_chain fuel b n v st pc)"

fun live_loop :: "nat \<Rightarrow> asm_builder \<Rightarrow> u32 \<Rightarrow> vreg \<Rightarrow> live_state \<Rightarrow> live_state run" where
  "live_loop fuel b n v st =
     rbind (run_opt (bit_set_is_empty (working_set st))) (\<lambda>e.
       if e then Inr st
       else case fuel of
         0 \<Rightarrow> Inl No_Return
       | Suc fuel \<Rightarrow>
           rbind (live_chain (Suc (length (current_block b))) b n v st (unat (largest_elem st)))
             (\<lambda>st. live_loop fuel b n v st))"

declare live_loop.simps [simp del]

definition extend_range :: "vreg \<Rightarrow> int \<Rightarrow> int \<Rightarrow> vreg" where
  "extend_range v lowest highest =
     (let v = (if live_range_start v = -1 \<or> live_range_start v > lowest
               then v\<lparr>live_range_start := lowest\<rparr> else v)
      in if live_range_end v = -1 \<or> highest \<noteq> -1 \<and> live_range_end v < highest
         then v\<lparr>live_range_end := highest\<rparr> else v)"

definition compute_live_range ::
  "asm_builder \<Rightarrow> u32 \<Rightarrow> vreg \<Rightarrow> bit_set \<times> bit_set \<Rightarrow> (vreg \<times> bit_set \<times> bit_set) run" where
  "compute_live_range b n v sets =
     (if live_range_start v \<noteq> -1 \<and> live_range_end v \<noteq> -1 then Inr (v, sets)
      else
        rbind (run_opt (bit_set_clear_all (fst sets))) (\<lambda>live.
        rbind (run_opt (bit_set_set_all (snd sets))) (\<lambda>ws.
        rbind (live_loop (length (current_block b)) b n v
                \<lparr>liveness = live, working_set = ws,
                 largest_elem = of_nat (length (current_block b)) - 1\<rparr>) (\<lambda>st.
        rbind (rbind (run_opt (bit_set_lowest_set_bit (liveness st))) run_of) (\<lambda>lowest.
        rbind (rbind (run_opt (bit_set_highest_set_bit (liveness st))) run_of) (\<lambda>highest.
          Inr (extend_range v (sint lowest) (sint highest), liveness st, working_set st)))))))"

fun compute_ranges_from ::
  "asm_builder \<Rightarrow> u32 \<Rightarrow> vreg list \<Rightarrow> bit_set \<times> bit_set \<Rightarrow> vreg list run" where
  "compute_ranges_from b n [] sets = Inr []"
| "compute_ranges_from b n (v # vs) sets =
     rbind (compute_live_range b n v sets) (\<lambda>(v, sets).
     rbind (compute_ranges_from b (n + 1) vs sets) (\<lambda>vs. Inr (v # vs)))"

text \<open>The two bit sets start from uninitialised memory, an argument of the model.\<close>

definition compute_live_ranges :: "(u64 list \<times> bit_set) \<times> (u64 list \<times> bit_set) \<Rightarrow> asm_builder \<Rightarrow> asm_builder run" where
  "compute_live_ranges fresh b =
     (let sz = of_nat (length (current_block b));
          live = bit_set_init (fst (fst fresh)) (snd (fst fresh)) sz;
          ws = bit_set_init (fst (snd fresh)) (snd (snd fresh)) sz
      in rbind (compute_ranges_from b 0 (virtual_registers b) (live, ws))
           (\<lambda>vs. Inr (b\<lparr>virtual_registers := vs\<rparr>)))"

section \<open>Linear scan\<close>

definition compare_live_range_start :: "vreg list \<Rightarrow> nat \<Rightarrow> nat \<Rightarrow> int" where
  "compare_live_range_start vs a b =
     (let x = live_range_start (vs ! a); y = live_range_start (vs ! b) in
      if x < y then - 1 else if x = y then 0 else 1)"

fun live_indices :: "vreg list \<Rightarrow> nat list \<Rightarrow> nat list run" where
  "live_indices vs [] = Inr []"
| "live_indices vs (i # is) =
     (if live_range_start (vs ! i) = -1
      then if live_range_end (vs ! i) \<noteq> -1 then exit_ice else live_indices vs is
      else rbind (live_indices vs is) (\<lambda>js. Inr (i # js)))"

definition sorted_live_ranges :: "vreg list \<Rightarrow> nat list run" where
  "sorted_live_ranges vs =
     rbind (live_indices vs [0..<length vs]) (\<lambda>is. Inr (qsort (compare_live_range_start vs) is))"

type_synonym free_regs = "reg_type \<Rightarrow> u32"

definition all_free :: free_regs where
  "all_free t = push_bit (allocatable_regs t) 1 - 1"

record scan_state =
  scan_vregs :: "vreg list"
  active_vregs :: "nat list"
  free_regs :: free_regs
  stack_usage :: u32

fun expire :: "vreg list \<Rightarrow> int \<Rightarrow> nat list \<Rightarrow> free_regs \<Rightarrow> (nat list \<times> free_regs) run" where
  "expire vs start [] free = Inr ([], free)"
| "expire vs start (a # as) free =
     (let v = vs ! a in
      if live_range_end v \<ge> start then Inr (a # as, free)
      else case place v of
        UNASSIGNED \<Rightarrow> exit_ice
      | IN_REG r \<Rightarrow>
          rbind (at (reg_to_alloc_index (params_of (vreg_type v))) (reg_class_number r)) (\<lambda>k.
            expire vs start as (free(vreg_type v := free (vreg_type v) OR push_bit k 1)))
      | ON_STACK _ \<Rightarrow> expire vs start as free)"

definition spill_vreg :: "scan_state \<Rightarrow> nat \<Rightarrow> scan_state" where
  "spill_vreg st i =
     st\<lparr>scan_vregs := (scan_vregs st)[i := (scan_vregs st ! i)\<lparr>place := ON_STACK (stack_usage st)\<rparr>],
        stack_usage := stack_usage st + 8\<rparr>"

definition take_reg :: "scan_state \<Rightarrow> reg_type \<Rightarrow> nat \<Rightarrow> scan_state" where
  "take_reg st t k = st\<lparr>free_regs := (free_regs st)(t := free_regs st t AND NOT (push_bit k 1))\<rparr>"

definition assign_free :: "scan_state \<Rightarrow> nat \<Rightarrow> scan_state run" where
  "assign_free st i =
     (let v = scan_vregs st ! i; t = vreg_type v in
      if free_regs st t = 0 then Inr (spill_vreg st i)
      else
        rbind (rbind (run_opt (lowest_set_bit (ucast (free_regs st t)))) run_of) (\<lambda>k.
        rbind (at (alloc_index_to_reg (params_of t)) (unat k)) (\<lambda>r.
          Inr (take_reg (st\<lparr>scan_vregs := (scan_vregs st)[i := v\<lparr>place := IN_REG r\<rparr>]\<rparr>) t (unat k)))))"

definition keep_assigned :: "scan_state \<Rightarrow> nat \<Rightarrow> scan_state run" where
  "keep_assigned st i =
     (let v = scan_vregs st ! i; t = vreg_type v in
      case place v of
        IN_REG r \<Rightarrow>
          if \<not> pre_alloced v then exit_ice
          else
            rbind (at (reg_to_alloc_index (params_of t)) (reg_class_number r)) (\<lambda>k.
              if free_regs st t AND push_bit k 1 = 0 then
                case find (\<lambda>a. place (scan_vregs st ! a) = IN_REG r) (active_vregs st) of
                  None \<Rightarrow> exit_ice
                | Some existing \<Rightarrow>
                    if pre_alloced (scan_vregs st ! existing) then exit_ice
                    else Inr (spill_vreg st existing)
              else Inr (take_reg st t k))
      | _ \<Rightarrow> exit_ice)"

fun insert_active :: "vreg list \<Rightarrow> nat \<Rightarrow> nat list \<Rightarrow> nat list" where
  "insert_active vs i [] = [i]"
| "insert_active vs i (a # as) =
     (if live_range_end (vs ! a) > live_range_end (vs ! i) then i # a # as else a # insert_active vs i as)"

definition scan_step :: "scan_state \<Rightarrow> nat \<Rightarrow> scan_state run" where
  "scan_step st i =
     rbind (expire (scan_vregs st) (live_range_start (scan_vregs st ! i)) (active_vregs st) (free_regs st))
       (\<lambda>(active, free).
     rbind (let st = st\<lparr>active_vregs := active, free_regs := free\<rparr> in
            if place (scan_vregs st ! i) = UNASSIGNED then assign_free st i else keep_assigned st i)
       (\<lambda>st. Inr (st\<lparr>active_vregs := insert_active (scan_vregs st) i (active_vregs st)\<rparr>)))"

fun linear_scan :: "scan_state \<Rightarrow> nat list \<Rightarrow> scan_state run" where
  "linear_scan st [] = Inr st"
| "linear_scan st (i # is) = rbind (scan_step st i) (\<lambda>st. linear_scan st is)"


section \<open>Registers live at calls\<close>

text \<open>
  The second pass over the body. A first active register without an end would make the
  expiring loop go round for ever.
\<close>

record call_state =
  call_vregs :: "vreg list"
  call_active :: "nat list"
  next_vreg :: nat
  call_stack :: u32

fun call_expire :: "vreg list \<Rightarrow> nat \<Rightarrow> nat list \<Rightarrow> nat list run" where
  "call_expire vs i [] = Inr []"
| "call_expire vs i (a # as) =
     (if live_range_end (vs ! a) = -1 then Inl No_Return
      else if (word_of_int (live_range_end (vs ! a)) :: u32) \<ge> of_nat i then Inr (a # as)
      else case place (vs ! a) of IN_REG _ \<Rightarrow> call_expire vs i as | _ \<Rightarrow> exit_ice)"

fun call_insert :: "vreg list \<Rightarrow> nat \<Rightarrow> nat \<Rightarrow> nat list \<Rightarrow> nat list" where
  "call_insert vs i n [] = [n]"
| "call_insert vs i n (a # as) =
     (if live_range_end (vs ! a) \<noteq> -1 \<and> (word_of_int (live_range_end (vs ! a)) :: u32) < of_nat i
      then n # a # as else a # call_insert vs i n as)"

fun spill_caller_saved :: "vreg list \<Rightarrow> u32 \<Rightarrow> nat list \<Rightarrow> vreg list \<times> u32 \<times> nat list" where
  "spill_caller_saved vs stack [] = (vs, stack, [])"
| "spill_caller_saved vs stack (a # as) =
     (case place (vs ! a) of
        IN_REG r \<Rightarrow>
          if push_bit (reg_class_number r) 1 AND caller_save_regs_bitmask = 0 then
            (let (vs, stack, kept) = spill_caller_saved vs stack as in (vs, stack, a # kept))
          else spill_caller_saved (vs[a := (vs ! a)\<lparr>place := ON_STACK stack\<rparr>]) (stack + 8) as
      | _ \<Rightarrow> (let (vs, stack, kept) = spill_caller_saved vs stack as in (vs, stack, a # kept)))"

definition is_in_reg :: "vreg \<Rightarrow> bool" where
  "is_in_reg v = (case place v of IN_REG _ \<Rightarrow> True | _ \<Rightarrow> False)"

definition call_activate :: "call_state \<Rightarrow> nat \<Rightarrow> call_state" where
  "call_activate st i =
     (if next_vreg st \<noteq> length (call_vregs st) \<and>
         (let v = call_vregs st ! next_vreg st in
          is_in_reg v \<and> \<not> pre_alloced v \<and> (word_of_int (live_range_start v) :: u32) = of_nat i)
      then st\<lparr>call_active := call_insert (call_vregs st) i (next_vreg st) (call_active st),
              next_vreg := next_vreg st + 1\<rparr>
      else st)"

definition call_step :: "call_state \<Rightarrow> nat \<Rightarrow> asm_instr \<Rightarrow> call_state run" where
  "call_step st i ins =
     rbind (call_expire (call_vregs st) i (call_active st)) (\<lambda>active.
       let st = call_activate (st\<lparr>call_active := active\<rparr>) i in
       Inr (if aop ins = CALL then
              (let (vs, stack, kept) = spill_caller_saved (call_vregs st) (call_stack st) (call_active st)
               in st\<lparr>call_vregs := vs, call_stack := stack, call_active := kept\<rparr>)
            else st))"

fun spill_at_calls :: "call_state \<Rightarrow> nat \<Rightarrow> asm_instr list \<Rightarrow> call_state run" where
  "spill_at_calls st i [] = Inr st"
| "spill_at_calls st i (ins # rest) = rbind (call_step st i ins) (\<lambda>st. spill_at_calls st (Suc i) rest)"

section \<open>Rewriting the body\<close>

text \<open>\<^verbatim>\<open>curr_sp_diff\<close> follows the subtractions from the stack pointer.\<close>

definition adjust_sp :: "u32 \<Rightarrow> asm_instr \<Rightarrow> u32 run" where
  "adjust_sp diff i =
     (if aop i \<noteq> SUB then Inr diff
      else rbind (at (args i) 0) (\<lambda>v.
        case operand v of
          ASM_VALUE_REGISTER r \<Rightarrow>
            if reg_id r = PHYS_REG REG_CLASS_SP then
              rbind (at (args i) 1) (\<lambda>w.
                case operand w of ASM_VALUE_CONST (ASM_CONST_IMMEDIATE x) \<Rightarrow> Inr (diff + ucast x) | _ \<Rightarrow> exit_ice)
            else Inr diff
        | _ \<Rightarrow> Inr diff))"

definition set_reg_class :: "asm_value \<Rightarrow> reg_class \<Rightarrow> asm_value" where
  "set_reg_class v c =
     v\<lparr>operand := (case operand v of
        ASM_VALUE_REGISTER r \<Rightarrow> ASM_VALUE_REGISTER (r\<lparr>reg_id := PHYS_REG c\<rparr>)
      | ASM_VALUE_OFFSET_REGISTER r off \<Rightarrow> ASM_VALUE_OFFSET_REGISTER (r\<lparr>reg_id := PHYS_REG c\<rparr>) off
      | ASM_VALUE_CONST k \<Rightarrow> ASM_VALUE_CONST k)\<rparr>"

definition make_instr :: "asm_op \<Rightarrow> asm_value list \<Rightarrow> asm_instr" where
  "make_instr op vs = \<lparr>aop = op, args = vs, vreg_deps = [], label = None\<rparr>"

definition spill_slot :: "u32 \<Rightarrow> asm_value run" where
  "spill_slot offset =
     rbind (asm_offset_reg REG_CLASS_SP 64 (asm_const_imm (ucast offset))) (\<lambda>v. Inr (asm_deref v))"

text \<open>
  \<^verbatim>\<open>arg->u.reg.width\<close> when it is read again for the store: \<^verbatim>\<open>arg\<close> then points into the fill
  that was inserted in the instruction's place, whose unused operands are zero.
\<close>

definition width_after_insert :: "asm_instr \<Rightarrow> nat \<Rightarrow> u8" where
  "width_after_insert fill j =
     (if j < length (args fill)
      then case value_reg (args fill ! j) of Some r \<Rightarrow> reg_width r | None \<Rightarrow> 0
      else 0)"

definition fill_and_spill :: "vreg \<Rightarrow> u32 \<Rightarrow> u32 \<Rightarrow> register \<Rightarrow> nat \<Rightarrow> (asm_instr \<times> asm_instr) run" where
  "fill_and_spill v slot diff r j =
     (let op = (case vreg_type v of REG_TYPE_INTEGER \<Rightarrow> MOV
                | REG_TYPE_FLOAT \<Rightarrow> if value_width r = 32 then MOVSS else MOVSD);
          spill_reg = spill_register (params_of (vreg_type v))
      in rbind (asm_phys_reg spill_reg (reg_width r)) (\<lambda>reg.
         rbind (spill_slot (slot + diff)) (\<lambda>mem.
         let fill = make_instr op [reg, mem] in
         rbind (asm_phys_reg spill_reg (width_after_insert fill j)) (\<lambda>reg'.
           Inr (fill, make_instr op [mem, reg'])))))"

datatype rewritten = Rewritten asm_instr | Spilled asm_instr asm_instr asm_instr

text \<open>
  The operands from \<^verbatim>\<open>j\<close> on. After a spill the loop goes on over the operands of the fill, which
  are physical registers; the instruction itself is met again at the next index.
\<close>

fun rewrite_args :: "vreg list \<Rightarrow> u32 \<Rightarrow> asm_instr \<Rightarrow> nat list \<Rightarrow> rewritten run" where
  "rewrite_args vs diff i [] = Inr (Rewritten i)"
| "rewrite_args vs diff i (j # js) =
     (case value_reg (args i ! j) of
        None \<Rightarrow> rewrite_args vs diff i js
      | Some r \<Rightarrow>
          (case reg_id r of
             PHYS_REG _ \<Rightarrow> rewrite_args vs diff i js
           | V_REG n \<Rightarrow>
               if unat n < length vs then
                 let v = vs ! unat n;
                     set = (\<lambda>c. i\<lparr>args := (args i)[j := set_reg_class (args i ! j) c]\<rparr>)
                 in (case place v of
                       IN_REG c \<Rightarrow> rewrite_args vs diff (set c) js
                     | ON_STACK slot \<Rightarrow>
                         rbind (fill_and_spill v slot diff r j) (\<lambda>(fill, spill).
                           Inr (Spilled fill (set (spill_register (params_of (vreg_type v)))) spill))
                     | UNASSIGNED \<Rightarrow> exit_ice)
               else undefined_behaviour))"

text \<open>The operands that still name a virtual register.\<close>

definition vreg_arg :: "asm_value \<Rightarrow> bool" where
  "vreg_arg v = (case value_reg v of Some r \<Rightarrow> (case reg_id r of V_REG _ \<Rightarrow> True | _ \<Rightarrow> False) | None \<Rightarrow> False)"

definition vreg_args :: "asm_instr \<Rightarrow> nat" where
  "vreg_args i = length (filter vreg_arg (args i))"

lemma vreg_args_set_le:
  "j < length (args i) \<Longrightarrow> vreg_arg (args i ! j) \<Longrightarrow> \<not> vreg_arg w \<Longrightarrow>
   vreg_args (i\<lparr>args := (args i)[j := w]\<rparr>) < vreg_args i"
proof -
  assume j: "j < length (args i)" "vreg_arg (args i ! j)" "\<not> vreg_arg w"
  have "args i = take j (args i) @ args i ! j # drop (Suc j) (args i)" using j(1) by (rule id_take_nth_drop)
  then have "filter vreg_arg (args i) = filter vreg_arg (take j (args i)) @ args i ! j #
      filter vreg_arg (drop (Suc j) (args i))" using j(2) by (metis filter.simps(2) filter_append)
  moreover have "(args i)[j := w] = take j (args i) @ w # drop (Suc j) (args i)"
    using j(1) by (rule upd_conv_take_nth_drop)
  ultimately show ?thesis using j(3) by (simp add: vreg_args_def)
qed

lemma set_reg_class_phys: "\<not> vreg_arg (set_reg_class v c)"
  by (simp add: vreg_arg_def set_reg_class_def value_reg_def split: asm_operand.split)

lemma rewrite_args_fewer:
  assumes "rewrite_args vs diff i js = Inr (Spilled fill i' spill)" "\<forall>j \<in> set js. j < length (args i)"
  shows "vreg_args i' < vreg_args i \<and> vreg_args spill = 0"
  using assms
proof (induction js arbitrary: i)
  case (Cons j js)
  show ?case
  proof (cases "vreg_arg (args i ! j)")
    case False
    then have "rewrite_args vs diff i js = Inr (Spilled fill i' spill)" using Cons.prems(1)
      by (auto simp: vreg_arg_def split: option.splits reg_id.splits)
    then show ?thesis using Cons by simp
  next
    case True
    then obtain r n where r: "value_reg (args i ! j) = Some r" "reg_id r = V_REG n"
      by (auto simp: vreg_arg_def split: option.splits reg_id.splits)
    let ?set = "\<lambda>c. i\<lparr>args := (args i)[j := set_reg_class (args i ! j) c]\<rparr>"
    have fewer: "vreg_args (?set c) < vreg_args i" for c
      using True Cons.prems(2) set_reg_class_phys by (intro vreg_args_set_le) simp_all
    show ?thesis
    proof (cases "place (vs ! unat n)")
      case (IN_REG c)
      then have "rewrite_args vs diff (?set c) js = Inr (Spilled fill i' spill)"
        using Cons.prems(1) r by (simp add: Let_def split: if_splits)
      then have "vreg_args i' < vreg_args (?set c) \<and> vreg_args spill = 0"
        using Cons.prems(2) by (intro Cons.IH) simp_all
      then show ?thesis using fewer [of c] by simp
    next
      case (ON_STACK slot)
      then have "i' = ?set (spill_register (params_of (vreg_type (vs ! unat n))))"
        "\<exists>f. fill_and_spill (vs ! unat n) slot diff r j = Inr (f, spill)"
        using Cons.prems(1) r by (auto simp: Let_def split: if_splits)
      then show ?thesis using fewer
        by (auto simp: fill_and_spill_def Let_def vreg_args_def make_instr_def vreg_arg_def spill_slot_def
            asm_offset_reg_def asm_phys_reg_def asm_deref_def value_reg_def split: if_splits)
    qed (use Cons.prems(1) r in \<open>simp split: if_splits\<close>)
  qed
qed simp

text \<open>
  The pass over the body. The array has room for \<^verbatim>\<open>cap\<close> instructions, of which \<open>n\<close> are in use;
  when it has to grow, \<^verbatim>\<open>instr\<close> and \<^verbatim>\<open>arg\<close> point into memory that was released, which the code
  goes on reading.
\<close>

function rewrite_body :: "vreg list \<Rightarrow> nat \<Rightarrow> nat \<Rightarrow> u32 \<Rightarrow> asm_instr list \<Rightarrow> asm_instr list run" where
  "rewrite_body vs cap n diff [] = Inr []"
| "rewrite_body vs cap n diff (i # rest) =
     (case adjust_sp diff i of
        Inl e \<Rightarrow> Inl e
      | Inr diff \<Rightarrow>
          (case rewrite_args vs diff i [0..<length (args i)] of
             Inl e \<Rightarrow> Inl e
           | Inr (Rewritten i') \<Rightarrow> rbind (rewrite_body vs cap n diff rest) (\<lambda>out. Inr (i' # out))
           | Inr (Spilled fill i' spill) \<Rightarrow>
               if n + 2 > cap then undefined_behaviour
               else rbind (rewrite_body vs cap (n + 2) diff (i' # spill # rest)) (\<lambda>out. Inr (fill # out))))"
  by pat_completeness auto
termination
proof (relation "measures [\<lambda>(vs, cap, n, diff, is). sum_list (map vreg_args is), \<lambda>(vs, cap, n, diff, is). length is]",
    goal_cases)
  case (3 vs cap n diff i rest diff' x fill i' spill)
  then show ?case using rewrite_args_fewer [of vs diff' i _ fill i' spill] by simp
qed auto

section \<open>The allocator\<close>

definition allocate_registers ::
  "(u64 list \<times> bit_set) \<times> (u64 list \<times> bit_set) \<Rightarrow> nat \<Rightarrow> asm_builder \<Rightarrow> asm_builder run" where
  "allocate_registers fresh cap b =
     rbind (find_preds b) (\<lambda>b.
     rbind (compute_live_ranges fresh b) (\<lambda>b.
     rbind (sorted_live_ranges (virtual_registers b)) (\<lambda>live_ranges.
     rbind (linear_scan \<lparr>scan_vregs = virtual_registers b, active_vregs = [], free_regs = all_free,
              stack_usage = local_stack_usage b\<rparr> live_ranges) (\<lambda>sc.
     rbind (spill_at_calls \<lparr>call_vregs = scan_vregs sc, call_active = [], next_vreg = 0,
              call_stack = stack_usage sc\<rparr> 0 (current_block b)) (\<lambda>cs.
     rbind (rewrite_body (call_vregs cs) cap (length (current_block b)) 0 (current_block b)) (\<lambda>body.
       Inr (b\<lparr>virtual_registers := call_vregs cs, local_stack_usage := call_stack cs,
              current_block := body\<rparr>)))))))"

end
