(* ===== verification/Naive_RegAlloc_Properties.thy ===== *)
theory Naive_RegAlloc_Properties
  imports Naive_RegAlloc
begin

text \<open>
  Correctness of the register allocator: the live ranges are sorted, the linear scan never
  puts two virtual registers whose ranges overlap into the same register, the liveness
  analysis returns and its ranges cover every use, and what the passes around it do to
  predecessors, to registers live at calls and to spilled operands.
\<close>

section \<open>The order of the live ranges\<close>

interpretation lr: comparison "compare_live_range_start vs" for vs
  by unfold_locales (auto simp: compare_live_range_start_def Let_def split: if_splits)

lemma live_indices_filter:
  assumes "live_indices vs is = Inr js"
  shows "js = filter (\<lambda>i. live_range_start (vs ! i) \<noteq> -1) is"
  using assms by (induction "is" arbitrary: js) (auto split: if_splits)

lemma sorted_live_ranges_sorted:
  assumes "sorted_live_ranges vs = Inr is"
  shows "mset is = mset (filter (\<lambda>i. live_range_start (vs ! i) \<noteq> -1) [0..<length vs])"
    "sorted_wrt (\<lambda>i j. live_range_start (vs ! i) \<le> live_range_start (vs ! j)) is"
proof -
  let ?js = "filter (\<lambda>i. live_range_start (vs ! i) \<noteq> -1) [0..<length vs]"
  have "is = qsort (compare_live_range_start vs) ?js"
    using assms live_indices_filter by (auto simp: sorted_live_ranges_def)
  then have "mset is = mset ?js" "sorted_wrt (\<lambda>i j. \<not> compare_live_range_start vs j i < 0) is"
    using lr.qsort_sorts [of vs ?js] by simp_all
  then show "mset is = mset ?js" "sorted_wrt (\<lambda>i j. live_range_start (vs ! i) \<le> live_range_start (vs ! j)) is"
    by (auto simp: compare_live_range_start_def Let_def split: if_splits elim!: sorted_wrt_mono_rel [rotated])
qed

section \<open>The register tables\<close>

abbreviation order :: "reg_type \<Rightarrow> reg_class list" where
  "order t \<equiv> alloc_index_to_reg (params_of t)"

lemma order_distinct: "distinct (order t)"
  by (cases t) (simp_all add: int_alloc_index_to_reg_def float_alloc_index_to_reg_def)

lemma order_types: "r \<in> set (order t) \<Longrightarrow> r \<in> set (order t') \<Longrightarrow> t = t'"
  by (cases t; cases t') (auto simp: int_alloc_index_to_reg_def float_alloc_index_to_reg_def)

lemma order_small: "allocatable_regs t < 32"
  by (cases t) (simp_all add: allocatable_regs_def int_alloc_index_to_reg_def float_alloc_index_to_reg_def)

lemma position_nth: "distinct xs \<Longrightarrow> k < length xs \<Longrightarrow> position xs (xs ! k) = k"
  by (induction xs arbitrary: k) (auto simp: nth_Cons' split: if_splits)

lemma int_table: "int_reg_to_alloc_index = [0, 12, 3, 8, 9, 11, 10, 0, 0, 7, 6, 5, 4, 0, 0, 1, 2]"
  by code_simp

lemma float_table: "float_reg_to_alloc_index = replicate 18 0 @ [6, 5, 4, 3, 2, 1, 0]"
  by code_simp

lemma alloc_index:
  assumes "k < allocatable_regs t"
  shows "at (reg_to_alloc_index (params_of t)) (reg_class_number (order t ! k)) = Inr k"
proof -
  have "\<forall>k < allocatable_regs t. at (reg_to_alloc_index (params_of t)) (reg_class_number (order t ! k)) = Inr k"
    by (cases t) (simp_all add: allocatable_regs_def int_table float_table All_less_Suc numeral_nat at_def
      int_alloc_index_to_reg_def float_alloc_index_to_reg_def reg_class_number_def reg_classes_def)
  with assms show ?thesis by blast
qed


section \<open>The registers held by the active ones\<close>

definition holds :: "vreg list \<Rightarrow> nat \<Rightarrow> reg_type \<Rightarrow> nat \<Rightarrow> bool" where
  "holds vs i t k = (vreg_type (vs ! i) = t \<and> place (vs ! i) = IN_REG (order t ! k))"

text \<open>
  A register is free exactly if no active virtual register holds it, and no two hold the
  same one.
\<close>

definition regs_inv :: "vreg list \<Rightarrow> nat set \<Rightarrow> free_regs \<Rightarrow> bool" where
  "regs_inv vs A free =
     ((\<forall>t k. bit (free t) k \<longleftrightarrow> k < allocatable_regs t \<and> (\<forall>i \<in> A. \<not> holds vs i t k)) \<and>
      (\<forall>t k. \<forall>i \<in> A. \<forall>j \<in> A. k < allocatable_regs t \<longrightarrow> holds vs i t k \<longrightarrow> holds vs j t k \<longrightarrow> i = j) \<and>
      (\<forall>i \<in> A. (\<exists>slot. place (vs ! i) = ON_STACK slot) \<or>
                (\<exists>k < allocatable_regs (vreg_type (vs ! i)). holds vs i (vreg_type (vs ! i)) k)))"

lemma regs_invD:
  assumes "regs_inv vs A free"
  shows "\<And>t k. bit (free t) k \<longleftrightarrow> k < allocatable_regs t \<and> (\<forall>i \<in> A. \<not> holds vs i t k)"
    "\<And>t k i j. i \<in> A \<Longrightarrow> j \<in> A \<Longrightarrow> k < allocatable_regs t \<Longrightarrow> holds vs i t k \<Longrightarrow> holds vs j t k \<Longrightarrow> i = j"
    "\<And>i. i \<in> A \<Longrightarrow> (\<exists>slot. place (vs ! i) = ON_STACK slot) \<or>
       (\<exists>k < allocatable_regs (vreg_type (vs ! i)). holds vs i (vreg_type (vs ! i)) k)"
  using assms unfolding regs_inv_def by blast+

lemma holds_unique:
  assumes "holds vs i t k" "holds vs i t' k'" "k < allocatable_regs t" "k' < allocatable_regs t'"
  shows "t = t' \<and> k = k'"
  using assms order_distinct [of t] by (auto simp: holds_def allocatable_regs_def nth_eq_iff_index_eq)

lemma regs_inv_start: "regs_inv vs {} all_free"
proof -
  have "bit (all_free t) k \<longleftrightarrow> k < allocatable_regs t" for t k
  proof -
    have "all_free t = mask (allocatable_regs t)"
      by (simp add: all_free_def mask_eq_exp_minus_1 push_bit_eq_mult)
    then show ?thesis using order_small [of t] by (auto simp: bit_mask_iff)
  qed
  then show ?thesis by (simp add: regs_inv_def)
qed

lemma bit_add_reg: "k < 32 \<Longrightarrow> bit ((f :: u32) OR 2 ^ k) j \<longleftrightarrow> bit f j \<or> j = k"
  by (auto simp: bit_or_iff bit_exp_iff)

lemma bit_drop_reg: "bit ((f :: u32) AND NOT (2 ^ k)) j \<longleftrightarrow> bit f j \<and> j \<noteq> k"
  by (auto simp: bit_and_iff bit_not_iff bit_exp_iff dest: bit_imp_le_length)

lemma regs_inv_remove:
  assumes "regs_inv vs (insert a A) free" "a \<notin> A"
  shows "place (vs ! a) = ON_STACK slot \<Longrightarrow> regs_inv vs A free"
    "k < allocatable_regs t \<Longrightarrow> holds vs a t k \<Longrightarrow> regs_inv vs A (free(t := free t OR push_bit k 1))"
proof -
  note inv = regs_invD [OF assms(1)]
  show "regs_inv vs A free" if "place (vs ! a) = ON_STACK slot"
    using inv that by (auto simp: regs_inv_def holds_def)
  show "regs_inv vs A (free(t := free t OR push_bit k 1))" if k: "k < allocatable_regs t" "holds vs a t k"
  proof -
    have only: "\<not> holds vs i t k" if "i \<in> A" for i using inv(2) [of a i k t] that k assms(2) by auto
    have "bit ((free(t := free t OR push_bit k 1)) t') k' \<longleftrightarrow>
        k' < allocatable_regs t' \<and> (\<forall>i \<in> A. \<not> holds vs i t' k')" for t' k'
    proof (cases "t' = t \<and> k' = k")
      case True
      then show ?thesis using k only order_small [of t] by (auto simp: bit_add_reg)
    next
      case False
      then have "\<not> holds vs a t' k'" if "k' < allocatable_regs t'" using holds_unique [OF k(2) _ k(1) that] by auto
      then show ?thesis using inv(1) [of t' k'] False k(1) order_small [of t] by (auto simp: bit_add_reg)
    qed
    then show ?thesis using inv(2,3) unfolding regs_inv_def by blast
  qed
qed

lemma expire_inv:
  assumes "regs_inv vs (set A) free" "distinct A"
  shows "\<exists>P A' free'. expire vs s A free = Inr (A', free') \<and> A = P @ A' \<and> regs_inv vs (set A') free' \<and>
    (\<forall>i \<in> set P. live_range_end (vs ! i) < s) \<and> (\<forall>a as. A' = a # as \<longrightarrow> live_range_end (vs ! a) \<ge> s)"
  using assms
proof (induction A arbitrary: free)
  case (Cons a A)
  show ?case
  proof (cases "live_range_end (vs ! a) \<ge> s")
    case True
    then show ?thesis using Cons.prems by (intro exI [of _ "[]"] exI [of _ "a # A"] exI [of _ free]) auto
  next
    case False
    have step: "\<exists>free'. expire vs s (a # A) free = expire vs s A free' \<and> regs_inv vs (set A) free'"
    proof -
      consider slot where "place (vs ! a) = ON_STACK slot"
        | k where "k < allocatable_regs (vreg_type (vs ! a))" "holds vs a (vreg_type (vs ! a)) k"
        using regs_invD(3) [OF Cons.prems(1), of a] by auto
      then show ?thesis
      proof cases
        case 1
        then show ?thesis using False Cons.prems regs_inv_remove(1) [of vs a "set A" free] by auto
      next
        case 2
        then have "place (vs ! a) = IN_REG (order (vreg_type (vs ! a)) ! k)" by (simp add: holds_def)
        then show ?thesis
          using False Cons.prems regs_inv_remove(2) [of vs a "set A" free, OF _ _ 2] alloc_index [OF 2(1)]
          by (auto simp: Let_def simp del: at_Inr_iff)
      qed
    qed
    from step obtain free' where f: "expire vs s (a # A) free = expire vs s A free'" "regs_inv vs (set A) free'" by blast
    from Cons.IH [OF f(2)] Cons.prems(2) obtain P A' free'' where "expire vs s A free' = Inr (A', free'')"
      "A = P @ A'" "regs_inv vs (set A') free''" "\<forall>i \<in> set P. live_range_end (vs ! i) < s"
      "\<forall>a as. A' = a # as \<longrightarrow> live_range_end (vs ! a) \<ge> s" by auto
    then show ?thesis using f(1) False by (intro exI [of _ "a # P"] exI [of _ A'] exI [of _ free'']) auto
  qed
qed simp


lemma regs_inv_cong: "(\<And>j. j \<in> A \<Longrightarrow> vs' ! j = vs ! j) \<Longrightarrow> regs_inv vs' A free = regs_inv vs A free"
  by (simp add: regs_inv_def holds_def)

lemma regs_inv_take:
  assumes "regs_inv vs A free" "i \<notin> A" "k < allocatable_regs t" "holds vs i t k" "bit (free t) k"
  shows "regs_inv vs (insert i A) (free(t := free t AND NOT (push_bit k 1)))"
proof -
  note inv = regs_invD [OF assms(1)]
  have free_k: "\<not> holds vs j t k" if "j \<in> A" for j using inv(1) [of t k] assms(5) that by blast
  have other: "\<not> holds vs i t' k'" if "(t', k') \<noteq> (t, k)" "k' < allocatable_regs t'" for t' k'
    using holds_unique [OF assms(4) _ assms(3) that(2)] that(1) by auto
  have "bit ((free(t := free t AND NOT (push_bit k 1))) t') k' \<longleftrightarrow>
      k' < allocatable_regs t' \<and> (\<forall>j \<in> insert i A. \<not> holds vs j t' k')" for t' k'
    using inv(1) [of t' k'] other [of t' k'] assms(4) by (cases "t' = t"; cases "k' = k") (auto simp: bit_drop_reg)
  moreover have "j = j'" if "j \<in> insert i A" "j' \<in> insert i A" "k' < allocatable_regs t'"
    "holds vs j t' k'" "holds vs j' t' k'" for j j' t' k'
    using that inv(2) [of j j' k' t'] other [of t' k'] free_k by (cases "(t', k') = (t, k)") auto
  moreover have "(\<exists>slot. place (vs ! j) = ON_STACK slot) \<or>
      (\<exists>k < allocatable_regs (vreg_type (vs ! j)). holds vs j (vreg_type (vs ! j)) k)" if "j \<in> insert i A" for j
  proof (cases "j = i")
    case True
    moreover have "vreg_type (vs ! i) = t" using assms(4) by (simp add: holds_def)
    ultimately show ?thesis using assms(3,4) by auto
  qed (use inv(3) that in blast)
  ultimately show ?thesis unfolding regs_inv_def by blast
qed

lemma regs_inv_on_stack:
  assumes "regs_inv vs A free" "place (vs ! i) = ON_STACK slot"
  shows "regs_inv vs (insert i A) free"
  using assms by (auto simp: regs_inv_def holds_def)

text \<open>A pre-allocated register takes over from the one that held its place.\<close>

lemma regs_inv_replace:
  assumes "regs_inv vs A free" "e \<in> A" "e < length vs" "k < allocatable_regs t" "holds vs e t k"
    "i \<notin> A" "holds vs i t k"
  shows "regs_inv (vs[e := (vs ! e)\<lparr>place := ON_STACK slot\<rparr>]) (insert i A) free"
proof -
  let ?vs = "vs[e := (vs ! e)\<lparr>place := ON_STACK slot\<rparr>]"
  note inv = regs_invD [OF assms(1)]
  have ei: "e \<noteq> i" using assms by auto
  have h: "holds ?vs j t' k' \<longleftrightarrow> j \<noteq> e \<and> holds vs j t' k'" for j t' k'
    using assms(3) by (cases "j = e") (auto simp: holds_def)
  have other: "\<not> holds vs j t' k'" if "holds vs j t k" "\<not> (t' = t \<and> k' = k)" "k' < allocatable_regs t'" for j t' k'
    using holds_unique [OF that(1) _ assms(4) that(3)] that(2) by blast
  have "bit (free t') k' \<longleftrightarrow> k' < allocatable_regs t' \<and> (\<forall>j \<in> insert i A. \<not> holds ?vs j t' k')" for t' k'
  proof (cases "t' = t \<and> k' = k")
    case True
    have "\<not> bit (free t) k" using inv(1) [of t k] assms(2,5) by blast
    moreover have "holds ?vs i t k" using h [of i t k] assms(7) ei by simp
    ultimately show ?thesis using True by (simp add: bex_simps)
  next
    case False
    then have "k' < allocatable_regs t' \<Longrightarrow> \<not> holds vs i t' k' \<and> \<not> holds vs e t' k'"
      using other [OF assms(7)] other [OF assms(5)] by blast
    then have "k' < allocatable_regs t' \<Longrightarrow> (\<forall>j \<in> insert i A. \<not> holds ?vs j t' k') \<longleftrightarrow> (\<forall>j \<in> A. \<not> holds vs j t' k')"
      using h [of _ t' k'] by auto
    then show ?thesis using inv(1) [of t' k'] by blast
  qed
  moreover have "j = j'" if "j \<in> insert i A" "j' \<in> insert i A" "k' < allocatable_regs t'"
    "holds ?vs j t' k'" "holds ?vs j' t' k'" for j j' t' k'
  proof (cases "t' = t \<and> k' = k")
    case True
    have "x = i" if "x \<in> insert i A" "holds ?vs x t k" for x
      using inv(2) [of e x k t] assms(2,4,5) that h [of x t k] by blast
    then show ?thesis using that True by blast
  next
    case False
    then have "j \<in> A" "j' \<in> A" using that other [OF assms(7)] h by blast+
    then show ?thesis using inv(2) that(3-5) h by blast
  qed
  moreover have "(\<exists>slot. place (?vs ! j) = ON_STACK slot) \<or>
      (\<exists>k < allocatable_regs (vreg_type (?vs ! j)). holds ?vs j (vreg_type (?vs ! j)) k)" if "j \<in> insert i A" for j
  proof (cases "j = e")
    case False
    then have "?vs ! j = vs ! j" by simp
    moreover have "vreg_type (vs ! i) = t" using assms(7) by (simp add: holds_def)
    ultimately show ?thesis using inv(3) [of j] that False assms(4,7) h by auto
  qed (use assms(3) in simp)
  ultimately show ?thesis unfolding regs_inv_def by blast
qed


lemma regs_inv_same:
  assumes "regs_inv vs A free" "i \<in> A" "j \<in> A" "place (vs ! i) = IN_REG r" "place (vs ! j) = IN_REG r"
  shows "i = j"
proof -
  note inv = regs_invD [OF assms(1)]
  obtain k where k: "k < allocatable_regs (vreg_type (vs ! i))" "holds vs i (vreg_type (vs ! i)) k"
    using inv(3) [OF assms(2)] assms(4) by auto
  obtain l where l: "l < allocatable_regs (vreg_type (vs ! j))" "holds vs j (vreg_type (vs ! j)) l"
    using inv(3) [OF assms(3)] assms(5) by auto
  have r: "order (vreg_type (vs ! i)) ! k = r" "order (vreg_type (vs ! j)) ! l = r"
    using k l assms(4,5) by (simp_all add: holds_def)
  then have "r \<in> set (order (vreg_type (vs ! i)))" "r \<in> set (order (vreg_type (vs ! j)))"
    using k(1) l(1) nth_mem by (metis allocatable_regs_def)+
  then have t: "vreg_type (vs ! i) = vreg_type (vs ! j)" by (rule order_types)
  then have "k = l" using r k(1) l(1) order_distinct by (auto simp: allocatable_regs_def nth_eq_iff_index_eq)
  then show ?thesis using inv(2) [OF assms(2,3) k(1,2)] l(2) t by simp
qed

section \<open>The scan\<close>

definition same_range :: "vreg \<Rightarrow> vreg \<Rightarrow> bool" where
  "same_range v w = (live_range_start v = live_range_start w \<and> live_range_end v = live_range_end w \<and>
     vreg_type v = vreg_type w \<and> pre_alloced v = pre_alloced w)"

definition same_ranges :: "vreg list \<Rightarrow> vreg list \<Rightarrow> bool" where
  "same_ranges vs ws = list_all2 same_range vs ws"

definition is_live :: "vreg \<Rightarrow> bool" where
  "is_live v = (live_range_start v \<noteq> -1)"

text \<open>
  What instruction selection hands over: a live range starts before it ends, and a virtual
  register is unassigned, or pre-allocated to one of the registers of its kind.
\<close>

definition wf_vregs :: "vreg list \<Rightarrow> bool" where
  "wf_vregs vs = (\<forall>v \<in> set vs. is_live v \<longrightarrow> live_range_start v \<le> live_range_end v \<and>
     (if pre_alloced v then \<exists>r \<in> set (order (vreg_type v)). place v = IN_REG r else place v = UNASSIGNED))"

lemma wf_vregsD:
  assumes "wf_vregs vs" "i < length vs" "is_live (vs ! i)"
  shows "live_range_start (vs ! i) \<le> live_range_end (vs ! i)"
    "if pre_alloced (vs ! i) then \<exists>r \<in> set (order (vreg_type (vs ! i))). place (vs ! i) = IN_REG r
     else place (vs ! i) = UNASSIGNED"
  using assms nth_mem [OF assms(2)] unfolding wf_vregs_def by blast+

definition overlap :: "vreg \<Rightarrow> vreg \<Rightarrow> bool" where
  "overlap v w = (live_range_start v \<le> live_range_end w \<and> live_range_start w \<le> live_range_end v)"

text \<open>No two live virtual registers in the same register overlap.\<close>

definition no_clash :: "vreg list \<Rightarrow> bool" where
  "no_clash vs = (\<forall>i < length vs. \<forall>j < length vs. \<forall>r. i \<noteq> j \<and> is_live (vs ! i) \<and> is_live (vs ! j) \<and>
     place (vs ! i) = IN_REG r \<and> place (vs ! j) = IN_REG r \<longrightarrow> \<not> overlap (vs ! i) (vs ! j))"

definition scan_inv :: "vreg list \<Rightarrow> nat set \<Rightarrow> int \<Rightarrow> scan_state \<Rightarrow> bool" where
  "scan_inv vs D s st =
     (same_ranges vs (scan_vregs st) \<and> set (active_vregs st) \<subseteq> D \<and> D \<subseteq> {i. i < length vs \<and> is_live (vs ! i)} \<and>
      distinct (active_vregs st) \<and>
      sorted_wrt (\<lambda>a b. live_range_end (vs ! a) \<le> live_range_end (vs ! b)) (active_vregs st) \<and>
      regs_inv (scan_vregs st) (set (active_vregs st)) (free_regs st) \<and>
      (\<forall>i < length vs. i \<notin> D \<or> pre_alloced (vs ! i) \<longrightarrow> scan_vregs st ! i = vs ! i) \<and>
      (\<forall>i \<in> D. place (scan_vregs st ! i) \<noteq> UNASSIGNED) \<and>
      (\<forall>i \<in> D - set (active_vregs st). live_range_end (vs ! i) < s) \<and>
      (\<forall>i \<in> D. live_range_start (vs ! i) \<le> s) \<and>
      (\<forall>i \<in> D. \<forall>j \<in> D. \<forall>r. i \<noteq> j \<and> place (scan_vregs st ! i) = IN_REG r \<and> place (scan_vregs st ! j) = IN_REG r \<longrightarrow>
         \<not> overlap (vs ! i) (vs ! j)))"

lemma scan_invD:
  assumes "scan_inv vs D s st"
  shows "same_ranges vs (scan_vregs st)" "set (active_vregs st) \<subseteq> D" "D \<subseteq> {i. i < length vs \<and> is_live (vs ! i)}"
    "distinct (active_vregs st)"
    "sorted_wrt (\<lambda>a b. live_range_end (vs ! a) \<le> live_range_end (vs ! b)) (active_vregs st)"
    "regs_inv (scan_vregs st) (set (active_vregs st)) (free_regs st)"
    "\<And>i. i < length vs \<Longrightarrow> i \<notin> D \<or> pre_alloced (vs ! i) \<Longrightarrow> scan_vregs st ! i = vs ! i"
    "\<And>i. i \<in> D \<Longrightarrow> place (scan_vregs st ! i) \<noteq> UNASSIGNED"
    "\<And>i. i \<in> D \<Longrightarrow> i \<notin> set (active_vregs st) \<Longrightarrow> live_range_end (vs ! i) < s"
    "\<And>i. i \<in> D \<Longrightarrow> live_range_start (vs ! i) \<le> s"
    "\<And>i j r. i \<in> D \<Longrightarrow> j \<in> D \<Longrightarrow> i \<noteq> j \<Longrightarrow> place (scan_vregs st ! i) = IN_REG r \<Longrightarrow> place (scan_vregs st ! j) = IN_REG r \<Longrightarrow>
       \<not> overlap (vs ! i) (vs ! j)"
  using assms unfolding scan_inv_def by blast+

lemma same_ranges_nth:
  assumes "same_ranges vs ws" "i < length vs"
  shows "live_range_start (ws ! i) = live_range_start (vs ! i)" "live_range_end (ws ! i) = live_range_end (vs ! i)"
    "vreg_type (ws ! i) = vreg_type (vs ! i)" "pre_alloced (ws ! i) = pre_alloced (vs ! i)"
  using list_all2_nthD [OF assms [unfolded same_ranges_def]] by (simp_all add: same_range_def)

lemma same_ranges_length: "same_ranges vs ws \<Longrightarrow> length ws = length vs"
  by (simp add: same_ranges_def list_all2_lengthD)

lemma same_ranges_place:
  assumes "same_ranges vs ws" "i < length vs"
  shows "same_ranges vs (ws[i := (ws ! i)\<lparr>place := p\<rparr>])"
  using assms same_ranges_nth [OF assms] unfolding same_ranges_def list_all2_conv_all_nth
  by (auto simp: nth_list_update same_range_def)

lemma insert_active_set [simp]: "set (insert_active vs i A) = insert i (set A)"
  by (induction A) auto

lemma insert_active_distinct: "distinct A \<Longrightarrow> i \<notin> set A \<Longrightarrow> distinct (insert_active vs i A)"
  by (induction A) auto

lemma insert_active_sorted:
  assumes "sorted_wrt (\<lambda>a b. live_range_end (vs ! a) \<le> live_range_end (vs ! b)) A"
  shows "sorted_wrt (\<lambda>a b. live_range_end (vs ! a) \<le> live_range_end (vs ! b)) (insert_active vs i A)"
  using assms by (induction A) (auto intro: order_trans less_imp_le)

lemma sorted_ends_cong:
  assumes "same_ranges vs ws" "set A \<subseteq> {..<length vs}"
  shows "sorted_wrt (\<lambda>a b. live_range_end (ws ! a) \<le> live_range_end (ws ! b)) A =
    sorted_wrt (\<lambda>a b. live_range_end (vs ! a) \<le> live_range_end (vs ! b)) A"
proof -
  have "\<forall>a \<in> set A. live_range_end (ws ! a) = live_range_end (vs ! a)"
    using assms(2) same_ranges_nth(2) [OF assms(1)] by auto
  then show ?thesis by (induction A) auto
qed


lemma scan_inv_extend:
  assumes inv: "scan_inv vs D s st" and i: "i \<notin> D" "i < length vs" "is_live (vs ! i)" "s \<le> live_range_start (vs ! i)"
    and A: "active_vregs st = P @ A" "\<forall>j \<in> set P. live_range_end (vs ! j) < live_range_start (vs ! i)"
    and ws: "same_ranges vs ws" "regs_inv ws (insert i (set A)) free"
      "\<And>j. j < length vs \<Longrightarrow> j \<notin> insert i D \<or> pre_alloced (vs ! j) \<Longrightarrow> ws ! j = vs ! j"
      "\<And>j. j \<in> insert i D \<Longrightarrow> place (ws ! j) \<noteq> UNASSIGNED"
      "\<And>j r. j \<in> D \<Longrightarrow> place (ws ! j) = IN_REG r \<Longrightarrow> place (scan_vregs st ! j) = IN_REG r"
    and st': "scan_vregs st' = ws" "active_vregs st' = insert_active ws i A" "free_regs st' = free"
  shows "scan_inv vs (insert i D) (live_range_start (vs ! i)) st'"
proof -
  note d = scan_invD [OF inv]
  have AD: "set A \<subseteq> D" "distinct A" "i \<notin> set A" "set A \<subseteq> {..<length vs}" using d(2,3,4) A(1) i(1) by auto
  have sorted: "sorted_wrt (\<lambda>a b. live_range_end (vs ! a) \<le> live_range_end (vs ! b)) (insert_active ws i A)"
  proof -
    have "sorted_wrt (\<lambda>a b. live_range_end (ws ! a) \<le> live_range_end (ws ! b)) A"
      using d(5) A(1) sorted_ends_cong [OF ws(1) AD(4)] by (simp add: sorted_wrt_append)
    then have "sorted_wrt (\<lambda>a b. live_range_end (ws ! a) \<le> live_range_end (ws ! b)) (insert_active ws i A)"
      by (rule insert_active_sorted)
    then show ?thesis using sorted_ends_cong [OF ws(1), of "insert_active ws i A"] AD(4) i(2) by simp
  qed
  have gone: "live_range_end (vs ! j) < live_range_start (vs ! i)" if "j \<in> D" "j \<notin> set A" for j
    using d(9) [OF that(1)] A that i(4) by fastforce
  have apart: "\<not> overlap (vs ! i) (vs ! j) \<and> \<not> overlap (vs ! j) (vs ! i)"
    if "j \<in> D" "place (ws ! i) = IN_REG r" "place (ws ! j) = IN_REG r" for j r
  proof -
    have "j \<notin> set A" using regs_inv_same [OF ws(2), of i j r] that i(1) by auto
    then show ?thesis using gone [OF that(1)] by (simp add: overlap_def)
  qed
  have pairs: "\<not> overlap (vs ! j) (vs ! k)" if "j \<in> insert i D" "k \<in> insert i D" "j \<noteq> k"
    "place (ws ! j) = IN_REG r" "place (ws ! k) = IN_REG r" for j k r
    using that apart ws(5) d(11) [of j k r] by (metis insertE)
  have start: "live_range_start (vs ! j) \<le> live_range_start (vs ! i)" if "j \<in> D" for j
    using d(10) [OF that] i(4) by simp
  show ?thesis unfolding scan_inv_def st' using ws(1-4) AD d(3) i(2,3) sorted gone start pairs
    by (auto simp: insert_active_distinct)
qed


lemma lowest_free:
  assumes "free \<noteq> (0 :: u32)"
  shows "\<exists>k. lowest_set_bit (ucast free) = Some (Inr k) \<and> bit free (unat k)"
proof -
  obtain n where "bit free n" using assms by (auto simp: word_zero_bits)
  then have "bit (ucast free :: u64) n" by (auto simp: bit_unsigned_iff dest: bit_imp_le_length)
  then have "(ucast free :: u64) \<noteq> 0" by (auto simp: word_zero_bits)
  then obtain lo where lo: "lowest_set_bit (ucast free) = Some (Inr (of_nat lo))" "lo < 64" "bit (ucast free :: u64) lo"
    using scan_word by metis
  then show ?thesis by (intro exI [of _ "of_nat lo"]) (simp add: bit_unsigned_iff unat_of_nat)
qed

text \<open>Giving the new register a place: the three ways in which it can go.\<close>

lemma assign_free_extends:
  assumes inv: "scan_inv vs D s st" and i: "i \<notin> D" "i < length vs" "is_live (vs ! i)" "s \<le> live_range_start (vs ! i)"
    and A: "active_vregs st = P @ A" "\<forall>j \<in> set P. live_range_end (vs ! j) < live_range_start (vs ! i)"
    and free: "regs_inv (scan_vregs st) (set A) free" and new: "\<not> pre_alloced (vs ! i)"
  shows "\<exists>st'. assign_free (st\<lparr>active_vregs := A, free_regs := free\<rparr>) i = Inr st' \<and>
    scan_inv vs (insert i D) (live_range_start (vs ! i)) (st'\<lparr>active_vregs := insert_active (scan_vregs st') i (active_vregs st')\<rparr>)"
proof -
  note d = scan_invD [OF inv]
  let ?vs = "scan_vregs st" and ?t = "vreg_type (scan_vregs st ! i)"
  have len: "i < length ?vs" using same_ranges_length [OF d(1)] i(2) by simp
  have iA: "i \<notin> set A" using d(2) A(1) i(1) by auto
  have off: "regs_inv (?vs[i := v]) (set A) free" for v
  proof -
    have "?vs[i := v] ! j = ?vs ! j" if "j \<in> set A" for j using iA that by (metis nth_list_update_neq)
    from regs_inv_cong [of "set A", OF this] show ?thesis using free by blast
  qed
  have ext: "scan_inv vs (insert i D) (live_range_start (vs ! i)) st'"
    if "regs_inv (?vs[i := (?vs ! i)\<lparr>place := p\<rparr>]) (insert i (set A)) f" "p \<noteq> UNASSIGNED"
      "scan_vregs st' = ?vs[i := (?vs ! i)\<lparr>place := p\<rparr>]"
      "active_vregs st' = insert_active (?vs[i := (?vs ! i)\<lparr>place := p\<rparr>]) i A" "free_regs st' = f" for p f st'
  proof (rule scan_inv_extend [OF inv i A same_ranges_place [OF d(1) i(2)] that(1)])
    show "?vs[i := (?vs ! i)\<lparr>place := p\<rparr>] ! j = vs ! j" if "j < length vs" "j \<notin> insert i D \<or> pre_alloced (vs ! j)" for j
      using d(7) [OF that(1)] that(2) new by (cases "j = i") auto
    show "place (?vs[i := (?vs ! i)\<lparr>place := p\<rparr>] ! j) \<noteq> UNASSIGNED" if "j \<in> insert i D" for j
      using that \<open>p \<noteq> UNASSIGNED\<close> d(8) len by (cases "j = i") auto
    show "place (?vs ! j) = IN_REG r" if "j \<in> D" "place (?vs[i := (?vs ! i)\<lparr>place := p\<rparr>] ! j) = IN_REG r" for j r
      using that i(1) by (cases "j = i") auto
  qed (rule that)+
  show ?thesis
  proof (cases "free ?t = 0")
    case True
    have "regs_inv (?vs[i := (?vs ! i)\<lparr>place := ON_STACK (stack_usage st)\<rparr>]) (insert i (set A)) free"
      using off len by (intro regs_inv_on_stack [where slot = "stack_usage st"]) simp_all
    from ext [OF this] show ?thesis using True by (simp add: assign_free_def Let_def spill_vreg_def)
  next
    case False
    from lowest_free [OF this] obtain k where k: "lowest_set_bit (ucast (free ?t)) = Some (Inr k)" "bit (free ?t) (unat k)"
      by blast
    then have kt: "unat k < allocatable_regs ?t" using regs_invD(1) [OF free] by blast
    let ?v = "(?vs ! i)\<lparr>place := IN_REG (order ?t ! unat k)\<rparr>"
    have "holds (?vs[i := ?v]) i ?t (unat k)" using len by (simp add: holds_def)
    then have "regs_inv (?vs[i := ?v]) (insert i (set A)) (free(?t := free ?t AND NOT (push_bit (unat k) 1)))"
      using off iA kt k(2) by (intro regs_inv_take)
    from ext [OF this] show ?thesis using False k(1) kt
      by (simp add: assign_free_def Let_def take_reg_def allocatable_regs_def)
  qed
qed


lemma keep_assigned_extends:
  assumes inv: "scan_inv vs D s st" and i: "i \<notin> D" "i < length vs" "is_live (vs ! i)" "s \<le> live_range_start (vs ! i)"
    and A: "active_vregs st = P @ A" "\<forall>j \<in> set P. live_range_end (vs ! j) < live_range_start (vs ! i)"
      "\<forall>j \<in> set A. live_range_start (vs ! i) \<le> live_range_end (vs ! j)"
    and free: "regs_inv (scan_vregs st) (set A) free"
    and vs: "wf_vregs vs" "no_clash vs" "pre_alloced (vs ! i)"
  shows "\<exists>st'. keep_assigned (st\<lparr>active_vregs := A, free_regs := free\<rparr>) i = Inr st' \<and>
    scan_inv vs (insert i D) (live_range_start (vs ! i)) (st'\<lparr>active_vregs := insert_active (scan_vregs st') i (active_vregs st')\<rparr>)"
proof -
  note d = scan_invD [OF inv]
  let ?vs = "scan_vregs st" and ?t = "vreg_type (vs ! i)"
  have at_i: "?vs ! i = vs ! i" using d(7) i(1,2) by blast
  have iA: "i \<notin> set A" "set A \<subseteq> D" using d(2) A(1) i(1) by auto
  have le: "live_range_start (vs ! i) \<le> live_range_end (vs ! i)" by (rule wf_vregsD [OF vs(1) i(2,3)])
  obtain r where r: "r \<in> set (order ?t)" "place (vs ! i) = IN_REG r"
    using wf_vregsD(2) [OF vs(1) i(2,3)] vs(3) by auto
  then obtain k where k: "k < allocatable_regs ?t" "order ?t ! k = r"
    by (auto simp: in_set_conv_nth allocatable_regs_def)
  then have hold: "holds ?vs i ?t k" using r(2) at_i by (simp add: holds_def)
  have index: "at (reg_to_alloc_index (params_of ?t)) (reg_class_number r) = Inr k"
    using alloc_index [OF k(1)] k(2) by simp
  show ?thesis
  proof (cases "bit (free ?t) k")
    case True
    have "scan_inv vs (insert i D) (live_range_start (vs ! i)) st'"
      if "scan_vregs st' = ?vs" "active_vregs st' = insert_active ?vs i A"
       "free_regs st' = free(?t := free ?t AND NOT (push_bit k 1))" for st'
      by (rule scan_inv_extend [OF inv i A(1,2) d(1) regs_inv_take [OF free iA(1) k(1) hold True]])
         (use d(7,8) at_i r(2) that in auto)
    moreover have "free ?t AND push_bit k 1 \<noteq> 0"
      using True by (auto simp: word_zero_bits bit_and_iff bit_exp_iff dest: bit_imp_le_length)
    ultimately show ?thesis using index vs(3) r(2) at_i by (simp add: keep_assigned_def Let_def take_reg_def del: at_Inr_iff)
  next
    case False
    let ?P = "\<lambda>a. place (?vs ! a) = IN_REG r"
    obtain e where e: "e \<in> set A" "holds ?vs e ?t k" using False k(1) regs_invD(1) [OF free, of ?t k] by blast
    then have "?P e" using k(2) by (simp add: holds_def)
    then obtain e' where e': "find ?P A = Some e'" using e(1) by (cases "find ?P A") (auto simp: find_None_iff)
    then have "e' \<in> set A" "?P e'" by (auto simp: find_Some_iff)
    then have e'_e: "e' = e" using regs_inv_same [OF free] e(1) \<open>?P e\<close> by blast
    have eD: "e \<in> D" "e < length vs" "is_live (vs ! e)" "e \<noteq> i" using e(1) iA d(3) i(1) by auto
    have not_pre: "\<not> pre_alloced (vs ! e)"
    proof
      assume "pre_alloced (vs ! e)"
      then have "place (vs ! e) = IN_REG r" using d(7) [OF eD(2)] \<open>?P e\<close> by simp
      then have "\<not> overlap (vs ! e) (vs ! i)" using vs(2) eD i(2,3) r(2) unfolding no_clash_def by blast
      moreover have "live_range_start (vs ! e) \<le> s" by (rule d(10) [OF eD(1)])
      ultimately show False using A(3) e(1) le i(4) by (auto simp: overlap_def)
    qed
    let ?ws = "?vs[e := (?vs ! e)\<lparr>place := ON_STACK (stack_usage st)\<rparr>]"
    have len: "e < length ?vs" using same_ranges_length [OF d(1)] eD(2) by simp
    have ws: "regs_inv ?ws (insert i (set A)) free"
      by (rule regs_inv_replace [OF free e(1) len k(1) e(2) iA(1) hold])
    have "scan_inv vs (insert i D) (live_range_start (vs ! i)) st'"
      if "scan_vregs st' = ?ws" "active_vregs st' = insert_active ?ws i A" "free_regs st' = free" for st'
    proof (rule scan_inv_extend [OF inv i A(1,2) same_ranges_place [OF d(1) eD(2)] ws])
      show "?ws ! j = vs ! j" if "j < length vs" "j \<notin> insert i D \<or> pre_alloced (vs ! j)" for j
        using d(7) [OF that(1)] that(2) eD(1) not_pre by (cases "j = e") auto
      show "place (?ws ! j) \<noteq> UNASSIGNED" if "j \<in> insert i D" for j
        using that d(8) len at_i r(2) by (cases "j = e") auto
      show "place (?vs ! j) = IN_REG q" if "j \<in> D" "place (?ws ! j) = IN_REG q" for j q
        using that len by (cases "j = e") auto
    qed (rule that)+
    moreover have "\<not> pre_alloced (?vs ! e)" using same_ranges_nth(4) [OF d(1) eD(2)] not_pre by simp
    moreover have "free ?t AND push_bit k 1 = 0"
      using False by (auto simp: word_zero_bits bit_and_iff bit_exp_iff)
    ultimately show ?thesis using index vs(3) r(2) at_i e' e'_e
      by (simp add: keep_assigned_def Let_def spill_vreg_def del: at_Inr_iff)
  qed
qed


lemma scan_step_inv:
  assumes inv: "scan_inv vs D s st" and i: "i \<notin> D" "i < length vs" "is_live (vs ! i)" "s \<le> live_range_start (vs ! i)"
    and vs: "wf_vregs vs" "no_clash vs"
  shows "\<exists>st'. scan_step st i = Inr st' \<and> scan_inv vs (insert i D) (live_range_start (vs ! i)) st'"
proof -
  note d = scan_invD [OF inv]
  let ?start = "live_range_start (vs ! i)"
  have at_i: "scan_vregs st ! i = vs ! i" using d(7) i(1,2) by blast
  obtain P A free where ex: "expire (scan_vregs st) ?start (active_vregs st) (free_regs st) = Inr (A, free)"
    "active_vregs st = P @ A" "regs_inv (scan_vregs st) (set A) free"
    "\<forall>j \<in> set P. live_range_end (scan_vregs st ! j) < ?start"
    "\<forall>a as. A = a # as \<longrightarrow> live_range_end (scan_vregs st ! a) \<ge> ?start"
    using expire_inv [OF d(6,4), of ?start] by blast
  have lt: "j < length vs" if "j \<in> set (active_vregs st)" for j using that d(2,3) by blast
  have P: "\<forall>j \<in> set P. live_range_end (vs ! j) < ?start"
    using ex(2,4) lt same_ranges_nth(2) [OF d(1)] by auto
  have A: "\<forall>j \<in> set A. ?start \<le> live_range_end (vs ! j)"
  proof (cases A)
    case (Cons a as)
    have "?start \<le> live_range_end (vs ! a)"
      using ex(2,5) Cons lt [of a] same_ranges_nth(2) [OF d(1), of a] by simp
    moreover have "\<forall>j \<in> set as. live_range_end (vs ! a) \<le> live_range_end (vs ! j)"
      using d(5) ex(2) Cons by (simp add: sorted_wrt_append)
    ultimately show ?thesis using Cons by auto
  qed simp
  have "\<exists>st'. (if place (vs ! i) = UNASSIGNED then assign_free (st\<lparr>active_vregs := A, free_regs := free\<rparr>) i
      else keep_assigned (st\<lparr>active_vregs := A, free_regs := free\<rparr>) i) = Inr st' \<and>
    scan_inv vs (insert i D) ?start (st'\<lparr>active_vregs := insert_active (scan_vregs st') i (active_vregs st')\<rparr>)"
    using assign_free_extends [OF inv i ex(2) P ex(3)] keep_assigned_extends [OF inv i ex(2) P A ex(3) vs]
      wf_vregsD(2) [OF vs(1) i(2,3)] by (auto split: if_splits)
  then show ?thesis using ex(1) at_i by (auto simp: scan_step_def Let_def)
qed

lemma linear_scan_inv:
  assumes "scan_inv vs D s st" "wf_vregs vs" "no_clash vs" "distinct is"
    "\<forall>i \<in> set is. i \<notin> D \<and> i < length vs \<and> is_live (vs ! i) \<and> s \<le> live_range_start (vs ! i)"
    "sorted_wrt (\<lambda>i j. live_range_start (vs ! i) \<le> live_range_start (vs ! j)) is"
  shows "\<exists>st' s'. linear_scan st is = Inr st' \<and> scan_inv vs (D \<union> set is) s' st'"
  using assms
proof (induction "is" arbitrary: D s st)
  case (Cons i "is")
  then obtain st1 where st1: "scan_step st i = Inr st1" "scan_inv vs (insert i D) (live_range_start (vs ! i)) st1"
    using scan_step_inv [OF Cons.prems(1), of i] by auto
  have "\<exists>st' s'. linear_scan st1 is = Inr st' \<and> scan_inv vs (insert i D \<union> set is) s' st'"
    using Cons.prems by (intro Cons.IH [OF st1(2)]) auto
  then show ?case using st1(1) by simp
qed auto

text \<open>
  C3. On the virtual registers that instruction selection hands over, if the pre-allocated
  ones do not contradict each other, the linear scan succeeds: every live virtual register
  gets a register or a stack slot, pre-allocated ones keep their register, no live range
  changes, and no two virtual registers whose live ranges overlap are in the same register.
\<close>

theorem linear_scan_no_clash:
  assumes "wf_vregs vs" "no_clash vs" "sorted_live_ranges vs = Inr is"
  shows "\<exists>st. linear_scan \<lparr>scan_vregs = vs, active_vregs = [], free_regs = all_free, stack_usage = sp\<rparr> is = Inr st \<and>
    no_clash (scan_vregs st) \<and> same_ranges vs (scan_vregs st) \<and>
    (\<forall>i < length vs. (is_live (vs ! i) \<longrightarrow> place (scan_vregs st ! i) \<noteq> UNASSIGNED) \<and>
       (pre_alloced (vs ! i) \<longrightarrow> scan_vregs st ! i = vs ! i))"
proof -
  let ?st = "\<lparr>scan_vregs = vs, active_vregs = [], free_regs = all_free, stack_usage = sp\<rparr>"
  note sorted = sorted_live_ranges_sorted [OF assms(3)]
  have set_is: "set is = {i. i < length vs \<and> is_live (vs ! i)}"
    using mset_eq_setD [OF sorted(1)] by (auto simp: is_live_def)
  have dist: "distinct is" using mset_eq_imp_distinct_iff [OF sorted(1)] by simp
  define s where "s = Min (live_range_start ` insert (hd vs) (set vs))"
  have s: "s \<le> live_range_start (vs ! i)" if "i < length vs" for i
    using that nth_mem unfolding s_def by (intro Min_le) auto
  have "same_ranges vs vs" by (simp add: same_ranges_def same_range_def list_all2_refl)
  then have "scan_inv vs {} s ?st" by (simp add: scan_inv_def regs_inv_start)
  then obtain st s' where st: "linear_scan ?st is = Inr st" "scan_inv vs (set is) s' st"
    using linear_scan_inv [OF _ assms(1,2) dist _ sorted(2), of "{}" s ?st] s set_is by auto
  note d = scan_invD [OF st(2)]
  have len: "length (scan_vregs st) = length vs" by (rule same_ranges_length [OF d(1)])
  have live: "is_live (scan_vregs st ! i) = is_live (vs ! i)" if "i < length vs" for i
    using same_ranges_nth [OF d(1) that] by (simp add: is_live_def)
  have "no_clash (scan_vregs st)" unfolding no_clash_def len
    using d(11) set_is live same_ranges_nth [OF d(1)] by (simp add: overlap_def)
  then show ?thesis using st(1) d(1,7,8) set_is by auto
qed


definition three_vregs :: "vreg list" where
  "three_vregs =
     [\<lparr>place = UNASSIGNED, pre_alloced = False, vreg_type = REG_TYPE_INTEGER, live_range_start = 2, live_range_end = 5\<rparr>,
      \<lparr>place = IN_REG REG_CLASS_R13, pre_alloced = True, vreg_type = REG_TYPE_INTEGER, live_range_start = 4, live_range_end = 6\<rparr>,
      \<lparr>place = UNASSIGNED, pre_alloced = False, vreg_type = REG_TYPE_INTEGER, live_range_start = 0, live_range_end = 3\<rparr>]"

lemma three_vregs_sorted: "sorted_live_ranges three_vregs = Inr [2, 0, 1]"
  by code_simp

theorem linear_scan_no_clash_witness:
  "\<exists>st. linear_scan \<lparr>scan_vregs = three_vregs, active_vregs = [], free_regs = all_free, stack_usage = 0\<rparr> [2, 0, 1] = Inr st \<and>
     no_clash (scan_vregs st) \<and> scan_vregs st ! 1 = three_vregs ! 1"
proof -
  have "wf_vregs three_vregs"
    by (simp add: wf_vregs_def three_vregs_def int_alloc_index_to_reg_def)
  moreover have "no_clash three_vregs"
    by (auto simp: no_clash_def three_vregs_def less_Suc_eq)
  ultimately show ?thesis using linear_scan_no_clash [OF _ _ three_vregs_sorted, of 0]
    by (auto simp: three_vregs_def)
qed

section \<open>Predecessors\<close>

definition jumps_to :: "asm_builder \<Rightarrow> symbol_ref \<Rightarrow> asm_instr \<Rightarrow> bool" where
  "jumps_to b s i = ((aop i = JMP \<or> aop i \<in> set conditional_jumps) \<and> jump_target i = Inr s \<and> s \<noteq> ret_label b)"

lemma find_preds_from_last:
  assumes "find_preds_from (ret_label b) n heap k is = Inr heap'" "\<forall>t \<in> set heap. length (preds t) \<le> 1"
    "s < length heap"
  shows "preds (heap' ! s) =
    (case filter (\<lambda>(j, i). jumps_to b s i) (enumerate k is) of
       [] \<Rightarrow> preds (heap ! s)
     | js \<Rightarrow> [\<lparr>dest_offset = symbol_offset (heap ! s), src_offset = of_nat (fst (last js))\<rparr>]) \<and>
    symbol_offset (heap' ! s) = symbol_offset (heap ! s)"
  using assms
proof (induction "is" arbitrary: heap k)
  case (Cons i "is")
  show ?case
  proof (cases "aop i = JMP \<or> aop i \<in> set conditional_jumps")
    case False
    then have "find_preds_from (ret_label b) n heap (Suc k) is = Inr heap'" using Cons.prems(1) by simp
    from Cons.IH [OF this Cons.prems(2,3)] False show ?thesis by (simp add: jumps_to_def)
  next
    case jump: True
    then obtain t where t: "jump_target i = Inr t" using Cons.prems(1) by auto
    show ?thesis
    proof (cases "t = ret_label b")
      case True
      then have "find_preds_from (ret_label b) n heap (Suc k) is = Inr heap'" using Cons.prems(1) jump t by auto
      note ih = Cons.IH [OF this Cons.prems(2,3)]
      have "\<not> jumps_to b s i" using True t by (simp add: jumps_to_def)
      then show ?thesis using ih by simp
    next
      case False
      let ?new = "\<lparr>dest_offset = symbol_offset (heap ! t), src_offset = of_nat k\<rparr>"
      let ?heap = "heap[t := (heap ! t)\<lparr>preds := add_pred (preds (heap ! t)) ?new\<rparr>]"
      have run: "find_preds_from (ret_label b) n ?heap (Suc k) is = Inr heap'" "t < length heap"
        using Cons.prems(1) jump t False by (auto simp: Let_def split: if_splits)
      have one: "add_pred (preds (heap ! t)) ?new = [?new]"
        using Cons.prems(2) run(2) by (auto simp: add_pred_def split: list.splits dest!: nth_mem)
      have le: "\<forall>u \<in> set ?heap. length (preds u) \<le> 1"
        using Cons.prems(2) one set_update_subset_insert by (fastforce simp: one)
      note ih = Cons.IH [OF run(1) le, simplified, OF Cons.prems(3)]
      have jt: "jumps_to b s i \<longleftrightarrow> t = s" using jump t False by (auto simp: jumps_to_def)
      have "preds (?heap ! s) = (if t = s then [?new] else preds (heap ! s))"
        "symbol_offset (?heap ! s) = symbol_offset (heap ! s)"
        using run(2) one by (auto simp: nth_list_update)
      then show ?thesis using ih jt by (cases "t = s") (auto split: list.splits)
    qed
  qed
qed simp

text \<open>
  C37. From symbols without predecessors, \<^verbatim>\<open>find_preds\<close> records for each jump target one jump only,
  the last of the body that goes to it: every earlier predecessor is overwritten, although the
  list is there to hold them all.
\<close>

theorem find_preds_keeps_last:
  assumes "find_preds b = Inr b'" "\<forall>t \<in> set (symbol_heap (asm_mod b)). preds t = []"
    and "s < length (symbol_heap (asm_mod b))"
  shows "preds (symbol_heap (asm_mod b') ! s) =
    (case filter (\<lambda>(j, i). jumps_to b s i) (enumerate 0 (current_block b)) of
       [] \<Rightarrow> []
     | js \<Rightarrow> [\<lparr>dest_offset = symbol_offset (symbol_heap (asm_mod b) ! s), src_offset = of_nat (fst (last js))\<rparr>])"
proof -
  obtain heap where h: "find_preds_from (ret_label b) (length (current_block b)) (symbol_heap (asm_mod b)) 0 (current_block b) = Inr heap"
    "symbol_heap (asm_mod b') = heap" using assms(1) by (auto simp: find_preds_def)
  have "\<forall>t \<in> set (symbol_heap (asm_mod b)). length (preds t) \<le> 1" using assms(2) by simp
  from find_preds_from_last [OF h(1) this assms(3)] show ?thesis
    using h(2) assms(2) nth_mem [OF assms(3)] by (auto split: list.splits)
qed


definition loop_and_exit :: asm_builder where
  "loop_and_exit =
     \<lparr>asm_mod = (init_asm_module [])\<lparr>symbol_heap := [\<lparr>symbol_name = [], symbol_section = TEXT_SECTION,
        symbol_defined = True, symbol_linkage = ASM_LOCAL_LINKAGE, symtab_index = 0, symbol_offset = 1,
        symbol_size = 0, preds = []\<rparr>]\<rparr>,
      current_block = [make_instr JMP [asm_symbol_value 0], make_instr NOP [], make_instr JE [asm_symbol_value 0],
        make_instr JMP [asm_symbol_value 0]],
      ret_label = 7, virtual_registers = [], local_stack_usage = 0\<rparr>"

lemma loop_and_exit_run:
  "map_sum id (\<lambda>b. map preds (symbol_heap (asm_mod b))) (find_preds loop_and_exit) =
     Inr [[\<lparr>dest_offset = 1, src_offset = 3\<rparr>]]"
  by code_simp

theorem find_preds_keeps_last_witness:
  "\<exists>b'. find_preds loop_and_exit = Inr b' \<and>
     preds (symbol_heap (asm_mod b') ! 0) = [\<lparr>dest_offset = 1, src_offset = 3\<rparr>]"
proof -
  obtain b' where b': "find_preds loop_and_exit = Inr b'"
    using loop_and_exit_run by (cases "find_preds loop_and_exit") auto
  have "filter (\<lambda>(j, i). jumps_to loop_and_exit 0 i) (enumerate 0 (current_block loop_and_exit)) =
      [(0, make_instr JMP [asm_symbol_value 0]), (2, make_instr JE [asm_symbol_value 0]),
       (3, make_instr JMP [asm_symbol_value 0])]"
    by (simp add: jumps_to_def loop_and_exit_def make_instr_def jump_target_def at_def asm_symbol_value_def
        conditional_jumps_def)
  then show ?thesis using b' find_preds_keeps_last [OF b', of 0]
    by (simp add: loop_and_exit_def)
qed

section \<open>Registers live at calls\<close>

lemma blocked_calls:
  assumes "next_vreg st < length (call_vregs st)" "pre_alloced (call_vregs st ! next_vreg st)" "call_active st = []"
  shows "spill_at_calls st i body = Inr st"
proof (induction body arbitrary: i)
  case (Cons ins body)
  have "call_step st i ins = Inr st"
    using assms by (cases st) (auto simp: call_step_def call_activate_def Let_def)
  then show ?case using Cons.IH by simp
qed simp

text \<open>
  C38. A pre-allocated virtual register at the front stops the pass that spills registers at
  calls: it waits for that register to become active, which pre-allocated ones never do, so no
  later virtual register is spilled, whatever the body calls.
\<close>

theorem calls_spill_nothing:
  assumes "vs \<noteq> []" "pre_alloced (vs ! 0)"
  shows "spill_at_calls \<lparr>call_vregs = vs, call_active = [], next_vreg = 0, call_stack = sp\<rparr> 0 body =
    Inr \<lparr>call_vregs = vs, call_active = [], next_vreg = 0, call_stack = sp\<rparr>"
  using assms by (intro blocked_calls) simp_all

definition live_over_call :: "vreg list" where
  "live_over_call =
     [\<lparr>place = IN_REG REG_CLASS_DI, pre_alloced = True, vreg_type = REG_TYPE_INTEGER, live_range_start = 0, live_range_end = 0\<rparr>,
      \<lparr>place = IN_REG REG_CLASS_C, pre_alloced = False, vreg_type = REG_TYPE_INTEGER, live_range_start = 0, live_range_end = 2\<rparr>]"

theorem calls_spill_nothing_witness:
  "spill_at_calls \<lparr>call_vregs = live_over_call, call_active = [], next_vreg = 0, call_stack = 0\<rparr> 0
     [make_instr NOP [], make_instr CALL [], make_instr NOP []] =
   Inr \<lparr>call_vregs = live_over_call, call_active = [], next_vreg = 0, call_stack = 0\<rparr> \<and>
   place (live_over_call ! 1) = IN_REG REG_CLASS_C \<and>
   push_bit (reg_class_number REG_CLASS_C) 1 AND caller_save_regs_bitmask \<noteq> 0"
proof -
  have "push_bit (reg_class_number REG_CLASS_C) 1 AND caller_save_regs_bitmask \<noteq> 0" by code_simp
  moreover have "live_over_call \<noteq> []" "pre_alloced (live_over_call ! 0)" "place (live_over_call ! 1) = IN_REG REG_CLASS_C"
    by (simp_all add: live_over_call_def)
  ultimately show ?thesis using calls_spill_nothing by blast
qed

section \<open>Fills and spills\<close>

definition plain_vreg :: "u32 \<Rightarrow> asm_value" where
  "plain_vreg n = \<lparr>is_deref = False, operand = ASM_VALUE_REGISTER \<lparr>reg_width = 64, value_width = 64, reg_id = V_REG n\<rparr>\<rparr>"

definition in_slot :: "u32 \<Rightarrow> vreg" where
  "in_slot s = \<lparr>place = ON_STACK s, pre_alloced = False, vreg_type = REG_TYPE_INTEGER, live_range_start = 0, live_range_end = 9\<rparr>"

definition phys :: "reg_class \<Rightarrow> asm_value" where
  "phys c = \<lparr>is_deref = False, operand = ASM_VALUE_REGISTER \<lparr>reg_width = 64, value_width = 64, reg_id = PHYS_REG c\<rparr>\<rparr>"

definition stack_at :: "u64 \<Rightarrow> asm_value" where
  "stack_at off = \<lparr>is_deref = True, operand = ASM_VALUE_OFFSET_REGISTER
     \<lparr>reg_width = 64, value_width = 0, reg_id = PHYS_REG REG_CLASS_SP\<rparr> (ASM_CONST_IMMEDIATE off)\<rparr>"



lemma vreg_args_0_iff: "vreg_args i = 0 \<longleftrightarrow> (\<forall>j < length (args i). \<not> vreg_arg (args i ! j))"
  by (auto simp: vreg_args_def filter_empty_conv all_set_conv_all_nth)

lemma rewrite_args_physical:
  assumes "rewrite_args vs diff i js = Inr (Rewritten i')" "\<forall>j < length (args i). j \<in> set js \<or> \<not> vreg_arg (args i ! j)"
  shows "vreg_args i' = 0"
  using assms
proof (induction js arbitrary: i)
  case Nil
  then show ?case by (simp add: vreg_args_0_iff)
next
  case (Cons j js)
  show ?case
  proof (cases "vreg_arg (args i ! j)")
    case False
    then have "rewrite_args vs diff i js = Inr (Rewritten i')" using Cons.prems(1)
      by (auto simp: vreg_arg_def split: option.splits reg_id.splits)
    then show ?thesis using Cons.prems(2) False by (intro Cons.IH) auto
  next
    case True
    then obtain r n where r: "value_reg (args i ! j) = Some r" "reg_id r = V_REG n"
      by (auto simp: vreg_arg_def split: option.splits reg_id.splits)
    then obtain c where "rewrite_args vs diff (i\<lparr>args := (args i)[j := set_reg_class (args i ! j) c]\<rparr>) js = Inr (Rewritten i')"
      using Cons.prems(1) by (auto simp: Let_def split: if_splits vreg_place.splits)
    then show ?thesis
    proof (rule Cons.IH)
      let ?i = "i\<lparr>args := (args i)[j := set_reg_class (args i ! j) c]\<rparr>"
      have "k \<in> set js \<or> \<not> vreg_arg (args ?i ! k)" if "k < length (args i)" for k
        using that Cons.prems(2) by (cases "k = j") (auto simp: set_reg_class_phys)
      then show "\<forall>k < length (args ?i). k \<in> set js \<or> \<not> vreg_arg (args ?i ! k)" by simp
    qed
  qed
qed

lemma fill_physical:
  assumes "rewrite_args vs diff i js = Inr (Spilled fill i' spill)"
  shows "vreg_args fill = 0"
  using assms
  by (induction js arbitrary: i)
     (auto simp: Let_def fill_and_spill_def vreg_args_def make_instr_def vreg_arg_def spill_slot_def
        asm_offset_reg_def asm_phys_reg_def asm_deref_def value_reg_def
        split: option.splits reg_id.splits if_splits vreg_place.splits)

lemma rewrite_body_physical:
  "rewrite_body vs cap n diff body = Inr out \<Longrightarrow> \<forall>i \<in> set out. vreg_args i = 0"
proof (induction vs cap n diff body arbitrary: out rule: rewrite_body.induct)
  case (2 vs cap n diff i rest)
  obtain d where d: "adjust_sp diff i = Inr d" using "2.prems" by (auto split: sum.splits)
  obtain w where w: "rewrite_args vs d i [0..<length (args i)] = Inr w" using "2.prems" d by (auto split: sum.splits)
  show ?case
  proof (cases w)
    case (Rewritten i')
    then obtain out' where "rewrite_body vs cap n d rest = Inr out'" "out = i' # out'" using "2.prems" d w by auto
    moreover have "vreg_args i' = 0" using w Rewritten by (intro rewrite_args_physical) auto
    ultimately show ?thesis using "2.IH"(1) [OF d w Rewritten] by simp
  next
    case (Spilled fill i' spill)
    then obtain out' where "\<not> n + 2 > cap" "rewrite_body vs cap (n + 2) d (i' # spill # rest) = Inr out'" "out = fill # out'"
      using "2.prems" d w by (auto split: if_splits)
    then show ?thesis using "2.IH"(2) [OF d w Spilled] fill_physical w Spilled by simp
  qed
qed simp

text \<open>
  C18. When \<^verbatim>\<open>allocate_registers\<close> returns, no operand of the body names a virtual register any
  more, so the encoder, which ends the compilation at one, never meets one.
\<close>

theorem allocate_registers_physical:
  assumes "allocate_registers fresh cap b = Inr b'" "i \<in> set (current_block b')" "v \<in> set (args i)"
  shows "\<not> vreg_arg v"
proof -
  obtain vs n diff body where "rewrite_body vs cap n diff body = Inr (current_block b')"
    using assms(1) by (auto simp: allocate_registers_def)
  then have "vreg_args i = 0" using rewrite_body_physical assms(2) by blast
  then show ?thesis using assms(3) by (auto simp: vreg_args_def filter_empty_conv)
qed

definition push_one :: asm_builder where
  "push_one =
     \<lparr>asm_mod = init_asm_module [], current_block = [make_instr MOV [plain_vreg 0, asm_imm 1], make_instr PUSH [plain_vreg 0]],
      ret_label = 0,
      virtual_registers = [\<lparr>place = UNASSIGNED, pre_alloced = False, vreg_type = REG_TYPE_INTEGER,
        live_range_start = -1, live_range_end = -1\<rparr>],
      local_stack_usage = 0\<rparr>"

lemma allocate_push_one:
  "map_sum id current_block (allocate_registers (([0], hundred_bits), ([0], hundred_bits)) 2 push_one) =
     Inr [make_instr MOV [phys REG_CLASS_R13, asm_imm 1], make_instr PUSH [phys REG_CLASS_R13]]"
  by code_simp

theorem allocate_registers_physical_witness:
  "\<exists>b'. allocate_registers (([0], hundred_bits), ([0], hundred_bits)) 2 push_one = Inr b' \<and>
     \<not> vreg_arg (args (current_block b' ! 1) ! 0)"
proof -
  obtain b' where b': "allocate_registers (([0], hundred_bits), ([0], hundred_bits)) 2 push_one = Inr b'"
    "current_block b' = [make_instr MOV [phys REG_CLASS_R13, asm_imm 1], make_instr PUSH [phys REG_CLASS_R13]]"
    using allocate_push_one by (cases "allocate_registers (([0], hundred_bits), ([0], hundred_bits)) 2 push_one") auto
  from allocate_registers_physical [OF b'(1), of "current_block b' ! 1" "args (current_block b' ! 1) ! 0"] b' show ?thesis
    by (simp add: make_instr_def)
qed

end
