(* ===== verification/Naive_Liveness.thy ===== *)
theory Naive_Liveness
  imports Naive_RegAlloc
begin

text \<open>
  The liveness analysis of the register allocator (\<^verbatim>\<open>compute_live_ranges\<close> in
  \<^verbatim>\<open>src/src/backend/reg_alloc.c\<close>) returns on every well-formed body, within as many rounds as
  the body has instructions, its assertion never fails, and the ranges cover all uses.
\<close>

section \<open>Well-formed bodies\<close>

definition is_jump :: "asm_instr \<Rightarrow> bool" where
  "is_jump i = (aop i = JMP \<or> aop i \<in> set conditional_jumps)"

text \<open>
  Jumps go to symbols inside the body or to the return label, the last instruction is not a
  conditional jump, the operands that \<^verbatim>\<open>is_def\<close> looks at are there, and labels carry at most one
  predecessor, inside the body, as \<^verbatim>\<open>find_preds\<close> leaves them.
\<close>

definition wf_instr :: "asm_builder \<Rightarrow> asm_instr \<Rightarrow> bool" where
  "wf_instr b i =
     ((is_jump i \<longrightarrow> (\<exists>s. jump_target i = Inr s \<and> (s = ret_label b \<or> s < length (symbol_heap (asm_mod b)) \<and>
         unat (symbol_offset (symbol_heap (asm_mod b) ! s)) < length (current_block b)))) \<and>
      (aop i = XOR_I \<longrightarrow> length (args i) = 2) \<and>
      (aop i \<in> set defining_ops \<longrightarrow> args i \<noteq> []) \<and>
      (\<forall>s. label i = Some s \<longrightarrow> s < length (symbol_heap (asm_mod b)) \<and>
         length (preds (symbol_heap (asm_mod b) ! s)) \<le> 1 \<and>
         (\<forall>p \<in> set (preds (symbol_heap (asm_mod b) ! s)). unat (src_offset p) < length (current_block b))))"

definition wf_body :: "asm_builder \<Rightarrow> bool" where
  "wf_body b = (length (current_block b) + 63 < 2 ^ 31 \<and> (\<forall>i \<in> set (current_block b). wf_instr b i) \<and>
     (current_block b \<noteq> [] \<longrightarrow> aop (last (current_block b)) \<notin> set conditional_jumps))"

definition wf_pre :: "vreg \<Rightarrow> bool" where
  "wf_pre v = (pre_alloced v \<longrightarrow> (\<exists>r. place v = IN_REG r))"

abbreviation body_size :: "asm_builder \<Rightarrow> nat" where
  "body_size b \<equiv> length (current_block b)"

lemma is_def_total:
  assumes "wf_instr b i" "wf_pre v"
  shows "\<exists>d. is_def i n v = Inr d"
proof -
  have a: "\<exists>d. assigned_to v r = Inr d" for r using assms(2) by (auto simp: assigned_to_def wf_pre_def)
  consider "aop i = CALL" | "aop i \<in> {CDQ, CQO}" | "aop i = XOR_I"
    | "aop i \<noteq> CALL" "aop i \<notin> {CDQ, CQO}" "aop i \<noteq> XOR_I" by blast
  then show ?thesis
  proof cases
    case 1
    then show ?thesis using a by (simp add: is_def_def)
  next
    case 2
    then show ?thesis using a [of REG_CLASS_D] by (auto simp: is_def_def)
  next
    case 3
    then have "length (args i) = 2" using assms(1) by (simp add: wf_instr_def)
    then show ?thesis using 3 by (simp add: is_def_def at_def)
  next
    case 4
    moreover have "args i \<noteq> []" if "aop i \<in> set defining_ops" using assms(1) that by (simp add: wf_instr_def)
    ultimately show ?thesis by (cases "aop i \<in> set defining_ops") (auto simp: is_def_def at_def)
  qed
qed

lemma successors_total:
  assumes "wf_body b" "pc < body_size b"
  shows "\<exists>s0 s1. successors b pc (current_block b ! pc) = Inr (s0, s1) \<and>
    (\<forall>s. s0 = Some s \<or> s1 = Some s \<longrightarrow> s < body_size b)"
proof -
  let ?i = "current_block b ! pc"
  have wf: "wf_instr b ?i" using assms nth_mem unfolding wf_body_def by blast
  have last: "pc + 1 < body_size b" if "aop ?i \<in> set conditional_jumps"
  proof (rule ccontr)
    assume "\<not> pc + 1 < body_size b"
    then have "pc = body_size b - 1" using assms(2) by simp
    moreover have "current_block b \<noteq> []" using assms(2) by auto
    ultimately have "?i = last (current_block b)" by (simp add: last_conv_nth)
    then show False using that assms(1) \<open>current_block b \<noteq> []\<close> by (simp add: wf_body_def)
  qed
  show ?thesis
  proof (cases "is_jump ?i")
    case True
    then obtain s where s: "jump_target ?i = Inr s" "s = ret_label b \<or> s < length (symbol_heap (asm_mod b)) \<and>
        unat (symbol_offset (symbol_heap (asm_mod b) ! s)) < body_size b"
      using wf by (auto simp: wf_instr_def)
    let ?s1 = "if aop ?i = JMP then None else Some (pc + 1)"
    let ?s0 = "if s = ret_label b then None else Some (unat (symbol_offset (symbol_heap (asm_mod b) ! s)))"
    have jump: "aop ?i = JMP \<or> aop ?i \<in> set conditional_jumps" using True by (simp add: is_jump_def)
    have "successors b pc ?i = Inr (?s0, ?s1)"
      using s by (cases "s = ret_label b") (simp_all add: successors_def jump Let_def at_def)
    moreover have "\<forall>x. ?s0 = Some x \<or> ?s1 = Some x \<longrightarrow> x < body_size b" using s(2) jump last by auto
    ultimately show ?thesis by blast
  next
    case False
    then show ?thesis using assms(2) by (auto simp: successors_def is_jump_def)
  qed
qed

section \<open>Bit sets over the body\<close>

definition set_over :: "asm_builder \<Rightarrow> bit_set \<Rightarrow> bool" where
  "set_over b s = (bit_set_inv s \<and> nbits s = body_size b)"

lemma body_index: "wf_body b \<Longrightarrow> pc < body_size b \<Longrightarrow> unat (of_nat pc :: u32) = pc"
  by (simp add: wf_body_def unat_of_nat)

lemma set_over_get:
  assumes "wf_body b" "set_over b s" "pc < body_size b"
  shows "bit_set_get_bit s (of_nat pc) = Some (pc \<in> elems s)"
  using bs.get_contents [of s "of_nat pc"] assms body_index by (simp add: set_over_def)

lemma set_over_set:
  assumes "wf_body b" "set_over b s" "pc < body_size b"
  shows "\<exists>s'. bit_set_set_bit s (of_nat pc) x = Some s' \<and> set_over b s' \<and>
    elems s' = (if x then insert pc (elems s) else elems s - {pc})"
  using bs.upd_contents [of s "of_nat pc" x] assms body_index by (auto simp: set_over_def)

lemma set_over_elems: "set_over b s \<Longrightarrow> elems s \<subseteq> {..<body_size b}"
  by (auto simp: set_over_def bit_set_inv_def top_clear_def)

lemma set_over_finite: "set_over b s \<Longrightarrow> finite (elems s)"
  using set_over_elems finite_subset by blast

lemma succ_live_total:
  assumes "wf_body b" "wf_pre v" "set_over b live" "\<forall>pc. s = Some pc \<longrightarrow> pc < body_size b"
  shows "\<exists>l. succ_live b n v live s = Inr l"
proof (cases s)
  case (Some pc)
  then have "wf_instr b (current_block b ! pc)" using assms nth_mem unfolding wf_body_def by blast
  from is_def_total [OF this assms(2), of n] show ?thesis
    using Some assms set_over_get [OF assms(1,3), of pc] by (auto simp: succ_live_def at_def)
qed (auto simp: succ_live_def)

lemma live_at_total:
  assumes "wf_body b" "wf_pre v" "set_over b live" "pc < body_size b"
  shows "\<exists>new. live_at b n v live pc (current_block b ! pc) = Inr new \<and> (is_use (current_block b ! pc) n \<longrightarrow> new)"
proof -
  obtain s0 s1 where s: "successors b pc (current_block b ! pc) = Inr (s0, s1)"
    "\<forall>s. s0 = Some s \<or> s1 = Some s \<longrightarrow> s < body_size b"
    using successors_total [OF assms(1,4)] by blast
  obtain l0 where "succ_live b n v live s0 = Inr l0" using succ_live_total [OF assms(1-3), of s0] s(2) by blast
  moreover obtain l1 where "succ_live b n v live s1 = Inr l1" using succ_live_total [OF assms(1-3), of s1] s(2) by blast
  ultimately show ?thesis using s(1) by (auto simp: live_at_def)
qed

section \<open>The largest element\<close>

lemma rescan_zero:
  "\<forall>i \<in> set is. i < length (words ws) \<and> words ws ! i = 0 \<Longrightarrow> rescan ws is l = Inr l"
  by (induction "is") (simp_all add: word_at_eq)

lemma rescan_found:
  assumes "bit_set_highest_from ws is = Some (Inr m)" "\<forall>i \<in> set is. i < length (words ws)"
    "\<exists>i \<in> set is. words ws ! i \<noteq> 0"
  shows "rescan ws is l = Inr m"
  using assms by (induction "is") (auto simp: word_at_eq split: if_splits)

lemma rescan_max:
  assumes "wf_body b" "set_over b ws" "pc < body_size b" "elems ws \<subseteq> {..<pc}"
  shows "rescan ws (rev [0..<Suc (pc div 64)]) l = Inr (if elems ws = {} then l else of_nat (Max (elems ws)))"
proof -
  have alloc: "bits_alloc ws" "nwords ws \<le> length (words ws)"
    using assms(2) by (auto simp: set_over_def bit_set_inv_def bits_alloc_def)
  have pc: "pc div 64 < nwords ws" using index_word_lt(1) [OF alloc(1)] assms(2,3) by (simp add: set_over_def)
  show ?thesis
  proof (cases "elems ws = {}")
    case True
    then have "\<forall>i \<in> set (rev [0..<Suc (pc div 64)]). i < length (words ws) \<and> words ws ! i = 0"
      using pc alloc elems_empty_iff [OF alloc(1)] by auto
    then show ?thesis using True by (subst rescan_zero) simp_all
  next
    case False
    have fin: "finite (elems ws)" by (rule set_over_finite [OF assms(2)])
    then have max: "Max (elems ws) \<in> elems ws" using False by simp
    then have div: "Max (elems ws) div 64 < Suc (pc div 64)"
      using assms(4) by (auto simp: less_Suc_eq_le intro!: div_le_mono)
    have "words ws ! (Max (elems ws) div 64) \<noteq> 0" using max by (auto simp: mem_elems)
    then have "\<exists>i \<in> set (rev [0..<Suc (pc div 64)]). words ws ! i \<noteq> 0"
      using div by (intro bexI [of _ "Max (elems ws) div 64"]) (simp_all only: set_rev set_upt atLeast0LessThan lessThan_iff
        not_False_eq_True)
    moreover have "bit_set_highest_from ws (rev [0..<Suc (pc div 64)]) = Some (Inr (of_nat (Max (elems ws))))"
      using pc by (intro bit_set_highest_from_greatest [OF alloc(2) False fin div]) simp
    moreover have "\<forall>i \<in> set (rev [0..<Suc (pc div 64)]). i < length (words ws)" using pc alloc(2) by auto
    ultimately have "rescan ws (rev [0..<Suc (pc div 64)]) l = Inr (of_nat (Max (elems ws)))" by (intro rescan_found)
    then show ?thesis using False by presburger
  qed
qed


section \<open>One round\<close>

definition live_inv :: "asm_builder \<Rightarrow> u32 \<Rightarrow> live_state \<Rightarrow> bool" where
  "live_inv b n st =
     (set_over b (liveness st) \<and> set_over b (working_set st) \<and>
      elems (liveness st) \<inter> elems (working_set st) = {} \<and>
      (elems (working_set st) \<noteq> {} \<longrightarrow> unat (largest_elem st) = Max (elems (working_set st))) \<and>
      (\<forall>pc < body_size b. pc \<notin> elems (working_set st) \<and> is_use (current_block b ! pc) n \<longrightarrow> pc \<in> elems (liveness st)))"

lemma prev_of_bound:
  assumes "prev_of pc ps = Some p" "pc < n" "\<forall>q \<in> set ps. unat (src_offset q) < n"
  shows "p < n"
  using assms by (auto simp: prev_of_def split: list.splits if_splits)

lemma label_preds_total:
  assumes "wf_instr b i"
  shows "\<exists>ps. label_preds b i = Inr ps \<and> tl ps = [] \<and> (\<forall>q \<in> set ps. unat (src_offset q) < body_size b)"
proof (cases "label i")
  case (Some s)
  then have "s < length (symbol_heap (asm_mod b))" "length (preds (symbol_heap (asm_mod b) ! s)) \<le> 1"
    "\<forall>p \<in> set (preds (symbol_heap (asm_mod b) ! s)). unat (src_offset p) < body_size b"
    using assms by (simp_all add: wf_instr_def)
  then show ?thesis using Some
    by (cases "preds (symbol_heap (asm_mod b) ! s)") (auto simp: label_preds_def at_def)
qed (simp add: label_preds_def)

lemma largest_after:
  assumes "wf_body b" "live_inv b n st" "pc < body_size b" "set_over b ws" "elems ws = elems (working_set st) - {pc}"
  shows "\<exists>l. (if of_nat pc = largest_elem st then rescan ws (rev [0..<Suc (pc div 64)]) (largest_elem st)
      else Inr (largest_elem st)) = Inr l \<and> (elems ws \<noteq> {} \<longrightarrow> unat l = Max (elems ws))"
proof (cases "of_nat pc = largest_elem st")
  case True
  let ?W = "elems (working_set st)"
  have u: "unat (largest_elem st) = pc" using True body_index [OF assms(1,3)] by (metis)
  have fin: "finite ?W" using assms(2) set_over_finite by (auto simp: live_inv_def)
  have "elems ws \<subseteq> {..<pc}"
  proof
    fix x assume x: "x \<in> elems ws"
    then have "x \<in> ?W" "x \<noteq> pc" using assms(5) by auto
    moreover have "pc = Max ?W" using u assms(2) \<open>x \<in> ?W\<close> by (auto simp: live_inv_def)
    ultimately have "x \<le> pc" using fin by simp
    then show "x \<in> {..<pc}" using \<open>x \<noteq> pc\<close> by simp
  qed
  note max = rescan_max [OF assms(1,4,3) this, of "largest_elem st"]
  have "unat (of_nat (Max (elems ws)) :: u32) = Max (elems ws)" if "elems ws \<noteq> {}"
    using that set_over_elems [OF assms(4)] set_over_finite [OF assms(4)] by (intro body_index [OF assms(1)]) auto
  then show ?thesis unfolding max using True by (simp only: if_True) auto
next
  case False
  have "elems ws \<noteq> {} \<longrightarrow> unat (largest_elem st) = Max (elems ws)"
  proof
    assume ne: "elems ws \<noteq> {}"
    then have W: "elems (working_set st) \<noteq> {}" using assms(5) by auto
    then have m: "unat (largest_elem st) = Max (elems (working_set st))" using assms(2) by (simp add: live_inv_def)
    have "unat (largest_elem st) \<noteq> pc" using False by auto
    moreover have fin: "finite (elems (working_set st))" using assms(2) set_over_finite by (auto simp: live_inv_def)
    ultimately have "Max (elems (working_set st)) \<in> elems ws" using m W assms(5) by simp
    then have "Max (elems ws) = Max (elems (working_set st))"
      using fin assms(5) by (intro Max_eqI) auto
    then show "unat (largest_elem st) = Max (elems ws)" using m by simp
  qed
  then show ?thesis using False by simp
qed

lemma live_step_inv:
  assumes "wf_body b" "wf_pre v" "live_inv b n st" "pc < body_size b" "pc \<notin> elems (liveness st)"
  shows "\<exists>st' nx. live_step b n v st pc = Inr (st', nx) \<and> live_inv b n st' \<and>
    elems (working_set st') = elems (working_set st) - {pc} \<and>
    (\<forall>p. nx = Some p \<longrightarrow> p < body_size b \<and> p \<notin> elems (liveness st') \<and> elems (liveness st') = insert pc (elems (liveness st)))"
proof -
  let ?L = "elems (liveness st)" and ?W = "elems (working_set st)" and ?i = "current_block b ! pc"
  have over: "set_over b (liveness st)" "set_over b (working_set st)" using assms(3) by (simp_all add: live_inv_def)
  obtain ws where ws: "bit_set_set_bit (working_set st) (of_nat pc) False = Some ws" "set_over b ws" "elems ws = ?W - {pc}"
    using set_over_set [OF assms(1) over(2) assms(4), of False] by auto
  obtain l where l: "(if of_nat pc = largest_elem st then rescan ws (rev [0..<Suc (pc div 64)]) (largest_elem st)
      else Inr (largest_elem st)) = Inr l" "elems ws \<noteq> {} \<longrightarrow> unat l = Max (elems ws)"
    using largest_after [OF assms(1,3,4) ws(2,3)] by blast
  obtain new where new: "live_at b n v (liveness st) pc ?i = Inr new" "is_use ?i n \<longrightarrow> new"
    using live_at_total [OF assms(1,2) over(1) assms(4)] by blast
  obtain live where live: "bit_set_set_bit (liveness st) (of_nat pc) new = Some live" "set_over b live"
    "elems live = (if new then insert pc ?L else ?L)"
    using set_over_set [OF assms(1) over(1) assms(4), of new] assms(5) by auto
  have wf: "wf_instr b ?i" using assms(1,4) nth_mem unfolding wf_body_def by blast
  obtain ps where ps: "label_preds b ?i = Inr ps" "tl ps = []" "\<forall>q \<in> set ps. unat (src_offset q) < body_size b"
    using label_preds_total [OF wf] by blast
  let ?st = "\<lparr>liveness = live, working_set = ws, largest_elem = l\<rparr>"
  have inv: "live_inv b n ?st"
    using assms(3,5) ws(2,3) live(2,3) l(2) new(2) by (auto simp: live_inv_def)
  have run: "live_step b n v st pc = (case prev_of pc ps of None \<Rightarrow> Inr (?st, None)
     | Some prev \<Rightarrow> if \<not> new then Inr (?st, None)
         else rbind (run_opt (bit_set_get_bit live (of_nat prev))) (\<lambda>l. Inr (?st, if l then None else Some prev)))"
    using ws(1) l(1) set_over_get [OF assms(1) over(1) assms(4)] assms(4,5) new(1) live(1) ps(1,2)
    by (simp add: live_step_def at_def further_preds_def split: option.split del: upt_Suc)
  show ?thesis
  proof (cases "prev_of pc ps")
    case None
    then show ?thesis using run inv ws(3) by simp
  next
    case (Some prev)
    then have "prev < body_size b" using prev_of_bound assms(4) ps(3) by blast
    then show ?thesis using run inv ws(3) Some live(3) set_over_get [OF assms(1) live(2), of prev]
      by (cases new) auto
  qed
qed


section \<open>The loops\<close>

lemma live_chain_inv:
  assumes "wf_body b" "wf_pre v" "live_inv b n st" "pc < body_size b" "pc \<notin> elems (liveness st)"
    "body_size b < fuel + card (elems (liveness st))"
  shows "\<exists>st'. live_chain fuel b n v st pc = Inr st' \<and> live_inv b n st' \<and>
    elems (working_set st') \<subseteq> elems (working_set st) - {pc}"
  using assms(3-)
proof (induction fuel arbitrary: st pc)
  case 0
  have "set_over b (liveness st)" using 0 by (simp add: live_inv_def)
  then have "card (elems (liveness st)) \<le> body_size b"
    using set_over_elems card_mono [of "{..<body_size b}"] by fastforce
  then show ?case using 0 by simp
next
  case (Suc fuel)
  obtain st1 nx where st1: "live_step b n v st pc = Inr (st1, nx)" "live_inv b n st1"
    "elems (working_set st1) = elems (working_set st) - {pc}"
    "\<forall>p. nx = Some p \<longrightarrow> p < body_size b \<and> p \<notin> elems (liveness st1) \<and> elems (liveness st1) = insert pc (elems (liveness st))"
    using live_step_inv [OF assms(1,2) Suc.prems(1-3)] by blast
  show ?case
  proof (cases nx)
    case None
    then show ?thesis using st1 by auto
  next
    case (Some p)
    have "finite (elems (liveness st))" using Suc.prems(1) set_over_finite by (auto simp: live_inv_def)
    then have "card (elems (liveness st1)) = Suc (card (elems (liveness st)))" using st1(4) Some Suc.prems(3) by simp
    then have "\<exists>st'. live_chain fuel b n v st1 p = Inr st' \<and> live_inv b n st' \<and>
        elems (working_set st') \<subseteq> elems (working_set st1) - {p}"
      using st1(2,4) Some Suc.prems(4) by (intro Suc.IH) auto
    then show ?thesis using st1(1,3) Some by auto
  qed
qed

lemma live_loop_inv:
  assumes "wf_body b" "wf_pre v" "live_inv b n st" "card (elems (working_set st)) \<le> fuel"
  shows "\<exists>st'. live_loop fuel b n v st = Inr st' \<and> live_inv b n st' \<and> elems (working_set st') = {}"
  using assms(3-)
proof (induction fuel arbitrary: st)
  case (0 st)
  have "set_over b (working_set st)" using 0 by (simp add: live_inv_def)
  moreover have "elems (working_set st) = {}" using 0(2) set_over_finite [OF calculation] by simp
  ultimately show ?case using 0(1) bit_set_scans_elems
    by (simp add: live_loop.simps [of 0] set_over_def)
next
  case (Suc fuel st)
  let ?W = "elems (working_set st)"
  have over: "set_over b (working_set st)" using Suc.prems by (simp add: live_inv_def)
  then have empty: "bit_set_is_empty (working_set st) = Some (?W = {})"
    using bit_set_scans_elems by (simp add: set_over_def)
  show ?case
  proof (cases "?W = {}")
    case True
    then show ?thesis using empty Suc.prems(1) by (simp add: live_loop.simps [of "Suc fuel"])
  next
    case False
    have max: "unat (largest_elem st) \<in> ?W" using Suc.prems(1) False set_over_finite [OF over] by (simp add: live_inv_def)
    then have pc: "unat (largest_elem st) < body_size b" "unat (largest_elem st) \<notin> elems (liveness st)"
      using set_over_elems [OF over] Suc.prems(1) by (auto simp: live_inv_def)
    obtain st1 where st1: "live_chain (Suc (body_size b)) b n v st (unat (largest_elem st)) = Inr st1" "live_inv b n st1"
      "elems (working_set st1) \<subseteq> ?W - {unat (largest_elem st)}"
      using live_chain_inv [OF assms(1,2) Suc.prems(1) pc, of "Suc (body_size b)"] by auto
    have "card (elems (working_set st1)) < card ?W"
      using st1(3) max set_over_finite [OF over] by (intro psubset_card_mono) auto
    then have "card (elems (working_set st1)) \<le> fuel" using Suc.prems(2) by simp
    from Suc.IH [OF st1(2) this] show ?thesis using empty False st1(1)
      by (simp add: live_loop.simps [of "Suc fuel"] del: live_chain.simps)
  qed
qed

section \<open>Ranges\<close>

lemma sint_index: "k < 2 ^ 31 \<Longrightarrow> sint (of_nat k :: u32) = int k"
proof -
  assume k: "k < 2 ^ 31"
  have "(of_nat k :: u32) = word_of_int (int k)" by simp
  then have "sint (of_nat k :: u32) = signed_take_bit 31 (int k)" by (simp only: sint_sbintrunc') simp
  then show ?thesis using k by (simp add: signed_take_bit_int_eq_self)
qed

definition covers :: "asm_builder \<Rightarrow> u32 \<Rightarrow> vreg \<Rightarrow> bool" where
  "covers b n v = (\<forall>pc < body_size b. is_use (current_block b ! pc) n \<longrightarrow>
     live_range_start v \<le> int pc \<and> int pc \<le> live_range_end v)"

text \<open>What the analysis needs of its two bit sets when it starts on a register.\<close>

definition sets_ready :: "asm_builder \<Rightarrow> bit_set \<times> bit_set \<Rightarrow> bool" where
  "sets_ready b sets = (bits_alloc (fst sets) \<and> nbits (fst sets) = body_size b \<and>
     bits_alloc (snd sets) \<and> nbits (snd sets) = body_size b)"

definition preset :: "vreg \<Rightarrow> bool" where
  "preset v = (live_range_start v \<noteq> -1 \<and> live_range_end v \<noteq> -1)"

lemma compute_live_range_covers:
  assumes "wf_body b" "wf_pre v" "sets_ready b sets"
  shows "\<exists>v' sets'. compute_live_range b n v sets = Inr (v', sets') \<and> sets_ready b sets' \<and>
    (if preset v then v' = v else covers b n v')"
proof (cases "preset v")
  case True
  then show ?thesis using assms(3) by (simp add: compute_live_range_def preset_def)
next
  case False
  obtain live where live: "bit_set_clear_all (fst sets) = Some live" "elems live = {}" "set_over b live"
    using bit_set_clear_all_elems [of "fst sets"] assms(3)
    by (auto simp: sets_ready_def set_over_def bit_set_inv_def top_clear_def)
  obtain ws where ws: "bit_set_set_all (snd sets) = Some ws" "elems ws = {..<body_size b}" "set_over b ws"
    using bit_set_set_all_elems [of "snd sets"] assms(3)
    by (auto simp: sets_ready_def set_over_def bit_set_inv_def top_clear_def)
  let ?st = "\<lparr>liveness = live, working_set = ws, largest_elem = of_nat (body_size b) - 1\<rparr>"
  have max: "unat (of_nat (body_size b) - 1 :: u32) = Max {..<body_size b}" if "0 < body_size b"
  proof -
    have "(of_nat (body_size b) - 1 :: u32) = of_nat (body_size b - 1)"
      using that by (cases "body_size b") simp_all
    moreover have "Max {..<body_size b} = body_size b - 1" using that by (intro Max_eqI) auto
    ultimately show ?thesis using body_index [OF assms(1), of "body_size b - 1"] that by simp
  qed
  have "live_inv b n ?st"
    using live(2,3) ws(2,3) max by (cases "body_size b = 0") (simp_all add: live_inv_def del: length_0_conv length_greater_0_conv)
  then obtain st where st: "live_loop (body_size b) b n v ?st = Inr st" "live_inv b n st" "elems (working_set st) = {}"
    using live_loop_inv [OF assms(1,2), of n ?st "body_size b"] ws(2) by auto
  let ?L = "elems (liveness st)"
  let ?lo = "if ?L = {} then -1 else of_nat (Min ?L) :: u32" and ?hi = "if ?L = {} then -1 else of_nat (Max ?L) :: u32"
  have over: "set_over b (liveness st)" "set_over b (working_set st)" using st(2) by (simp_all add: live_inv_def)
  have scans: "bit_set_lowest_set_bit (liveness st) = Some (Inr ?lo)" "bit_set_highest_set_bit (liveness st) = Some (Inr ?hi)"
    using bit_set_scans_elems [of "liveness st"] over(1) by (simp_all add: set_over_def)
  have run: "compute_live_range b n v sets = Inr (extend_range v (sint ?lo) (sint ?hi), liveness st, working_set st)"
    using False live(1) ws(1) st(1) scans by (auto simp: compute_live_range_def preset_def)
  have "covers b n (extend_range v (sint ?lo) (sint ?hi))" unfolding covers_def
  proof (intro allI impI)
    fix pc assume pc: "pc < body_size b" "is_use (current_block b ! pc) n"
    then have m: "pc \<in> ?L" using st(2,3) by (simp add: live_inv_def)
    have fin: "finite ?L" by (rule set_over_finite [OF over(1)])
    then have "Min ?L \<in> ?L" "Max ?L \<in> ?L" using m by (auto intro: Min_in Max_in)
    then have "Min ?L < body_size b" "Max ?L < body_size b" using set_over_elems [OF over(1)] by auto
    then have "sint ?lo = int (Min ?L)" "sint ?hi = int (Max ?L)" using m assms(1) sint_index
      by (auto simp: wf_body_def)
    moreover have "Min ?L \<le> pc" "pc \<le> Max ?L" using m fin by simp_all
    ultimately show "live_range_start (extend_range v (sint ?lo) (sint ?hi)) \<le> int pc \<and>
        int pc \<le> live_range_end (extend_range v (sint ?lo) (sint ?hi))"
      by (auto simp: extend_range_def Let_def)
  qed
  moreover have "sets_ready b (liveness st, working_set st)"
    using over by (simp add: sets_ready_def set_over_def bit_set_inv_def)
  ultimately show ?thesis using run False by auto
qed

lemma compute_ranges_from_covers:
  assumes "wf_body b" "sets_ready b sets" "\<forall>v \<in> set vs. wf_pre v"
  shows "\<exists>vs'. compute_ranges_from b n vs sets = Inr vs' \<and> length vs' = length vs \<and>
    (\<forall>k < length vs. if preset (vs ! k) then vs' ! k = vs ! k else covers b (n + of_nat k) (vs' ! k))"
  using assms(2,3)
proof (induction vs arbitrary: n sets)
  case (Cons v vs)
  obtain v' sets' where v': "compute_live_range b n v sets = Inr (v', sets')" "sets_ready b sets'"
    "if preset v then v' = v else covers b n v'"
    using compute_live_range_covers [OF assms(1) _ Cons.prems(1)] Cons.prems(2) by force
  obtain vs' where vs': "compute_ranges_from b (n + 1) vs sets' = Inr vs'" "length vs' = length vs"
    "\<forall>k < length vs. if preset (vs ! k) then vs' ! k = vs ! k else covers b (n + 1 + of_nat k) (vs' ! k)"
    using Cons.IH [OF v'(2), of "n + 1"] Cons.prems(2) by auto
  have "if preset ((v # vs) ! k) then (v' # vs') ! k = (v # vs) ! k else covers b (n + of_nat k) ((v' # vs') ! k)"
    if "k < length (v # vs)" for k
    using that v'(3) vs'(3) by (cases k) (auto simp: add.assoc)
  then show ?case using v'(1) vs'(1,2) by auto
qed simp

text \<open>
  C7. On a well-formed body whose labels carry at most one predecessor, as \<^verbatim>\<open>find_preds\<close> leaves
  them, \<^verbatim>\<open>compute_live_ranges\<close> returns: the working-set loops end within as many rounds as there
  are instructions and no assertion fails. Virtual registers whose range was preset keep it, and
  the range of every other one covers all instructions that use it.
\<close>

theorem compute_live_ranges_covers:
  assumes "wf_body b" "\<forall>v \<in> set (virtual_registers b). wf_pre v"
    and "(body_size b + 63) div 64 \<le> length g1" "(body_size b + 63) div 64 \<le> length g2"
  shows "\<exists>b'. compute_live_ranges ((g1, s1), (g2, s2)) b = Inr b' \<and> current_block b' = current_block b \<and>
    length (virtual_registers b') = length (virtual_registers b) \<and>
    (\<forall>k < length (virtual_registers b).
       if preset (virtual_registers b ! k) then virtual_registers b' ! k = virtual_registers b ! k
       else covers b (of_nat k) (virtual_registers b' ! k))"
proof -
  let ?sz = "of_nat (body_size b) :: u32"
  have "unat ?sz = body_size b" using assms(1) by (simp add: wf_body_def unat_of_nat)
  then have "sets_ready b (bit_set_init g1 s1 ?sz, bit_set_init g2 s2 ?sz)"
    using assms(1,3,4) bits_alloc_init [of ?sz] by (simp add: sets_ready_def wf_body_def)
  from compute_ranges_from_covers [OF assms(1) this assms(2), of 0, unfolded add_0] show ?thesis
    by (auto simp: compute_live_ranges_def Let_def)
qed


definition two_uses :: asm_builder where
  "two_uses =
     \<lparr>asm_mod = init_asm_module [],
      current_block = [make_instr MOV [\<lparr>is_deref = False, operand = ASM_VALUE_REGISTER
          \<lparr>reg_width = 64, value_width = 64, reg_id = V_REG 0\<rparr>\<rparr>, asm_imm 1], make_instr NOP [],
        make_instr PUSH [\<lparr>is_deref = False, operand = ASM_VALUE_REGISTER
          \<lparr>reg_width = 64, value_width = 64, reg_id = V_REG 0\<rparr>\<rparr>]],
      ret_label = 0,
      virtual_registers = [\<lparr>place = UNASSIGNED, pre_alloced = False, vreg_type = REG_TYPE_INTEGER,
        live_range_start = -1, live_range_end = -1\<rparr>],
      local_stack_usage = 0\<rparr>"

theorem compute_live_ranges_covers_witness:
  "\<exists>b'. compute_live_ranges (([0], hundred_bits), ([0], hundred_bits)) two_uses = Inr b' \<and>
     covers two_uses 0 (virtual_registers b' ! 0)"
proof -
  have "wf_body two_uses"
    by (simp add: wf_body_def wf_instr_def two_uses_def make_instr_def is_jump_def conditional_jumps_def defining_ops_def)
  moreover have "\<forall>v \<in> set (virtual_registers two_uses). wf_pre v" by (simp add: two_uses_def wf_pre_def)
  ultimately show ?thesis
    using compute_live_ranges_covers [of two_uses "[0]" "[0]" hundred_bits hundred_bits]
    by (auto simp: two_uses_def preset_def)
qed

end
