(* ===== verification/Naive_Reader.thy ===== *)
theory Naive_Reader
  imports Naive_Strings
begin

text \<open>
  The character reader (\<^verbatim>\<open>src/src/syntax/reader.h\<close>, \<^verbatim>\<open>reader.c\<close>): a position in a buffer that
  skips escaped line ends, and the position it maps to in the original sources through a list
  of adjustments. The position is a \<open>nat\<close>: buffers are shorter than \<open>2 ^ 32\<close> bytes. At the end of
  the buffer \<^verbatim>\<open>peek_char\<close> gives \<^verbatim>\<open>EOF\<close>, which as a \<^verbatim>\<open>char\<close> is the byte 255.
\<close>

record source_loc =
  loc_filename :: string
  loc_offset :: u32

record source_range =
  range_start :: source_loc
  range_end :: source_loc

datatype adjustment_type = NORMAL_ADJUSTMENT | BEGIN_MACRO_ADJUSTMENT | END_MACRO_ADJUSTMENT

record adjustment =
  adjustment_type :: adjustment_type
  location :: nat
  new_source_loc :: source_loc

record reader =
  filename :: string
  buffer :: string
  position_in :: nat
  adjusted_position :: u32
  adjustments :: "adjustment list"
  next_adjustment :: nat
  at_start_of_line :: bool

definition reader_init :: "string \<Rightarrow> adjustment list \<Rightarrow> bool \<Rightarrow> string \<Rightarrow> reader" where
  "reader_init buf adjs start_of_line source_filename =
     \<lparr>filename = source_filename, buffer = buf, position_in = 0, adjusted_position = 0, adjustments = adjs,
      next_adjustment = 0, at_start_of_line = start_of_line\<rparr>"

definition reader_source_loc :: "reader \<Rightarrow> source_loc" where
  "reader_source_loc r = \<lparr>loc_filename = filename r, loc_offset = adjusted_position r\<rparr>"

definition reader_prev_source_loc :: "reader \<Rightarrow> source_loc" where
  "reader_prev_source_loc r = \<lparr>loc_filename = filename r, loc_offset = adjusted_position r - 1\<rparr>"

definition range_from :: "reader \<Rightarrow> source_loc \<Rightarrow> source_range" where
  "range_from r start_loc = \<lparr>range_start = start_loc, range_end = reader_prev_source_loc r\<rparr>"

definition EOF :: char where
  "EOF = CHR 0xFF"

definition at_end :: "reader \<Rightarrow> bool" where
  "at_end r = (position_in r \<ge> length (buffer r))"

definition peek_char :: "reader \<Rightarrow> char" where
  "peek_char r = (if at_end r then EOF else buffer r ! position_in r)"

text \<open>The loop of \<^verbatim>\<open>advance\<close>: one step, and on over every backslash followed by a line end.\<close>

function skip_line_ends :: "string \<Rightarrow> nat \<Rightarrow> nat" where
  "skip_line_ends buf pos =
     (let p = pos + 1 in
      if p + 1 < length buf \<and> buf ! p = CHR 0x5C \<and> buf ! (p + 1) = CHR 0x0A then skip_line_ends buf (p + 1)
      else p)"
  by pat_completeness auto
termination by (relation "measure (\<lambda>(buf, pos). length buf - pos)") auto


declare skip_line_ends.simps [simp del]

definition advance :: "reader \<Rightarrow> reader" where
  "advance r =
     (let start = position_in r;
          r' = r\<lparr>at_start_of_line := peek_char r = CHR 0x0A, position_in := skip_line_ends (buffer r) start\<rparr>;
          diff = of_nat (position_in r' - start) :: u32;
          prev_adjustment = (if next_adjustment r \<ge> 1 \<and> next_adjustment r \<le> length (adjustments r)
            then Some (adjustments r ! (next_adjustment r - 1)) else None);
          next_adj = (if next_adjustment r < length (adjustments r)
            then Some (adjustments r ! next_adjustment r) else None)
      in case next_adj of
           Some a \<Rightarrow>
             if location a = position_in r'
             then r'\<lparr>adjusted_position := loc_offset (new_source_loc a), next_adjustment := next_adjustment r + 1\<rparr>
             else (case prev_adjustment of
               Some p \<Rightarrow> if adjustment_type p = BEGIN_MACRO_ADJUSTMENT
                 then r'\<lparr>adjusted_position := loc_offset (new_source_loc p)\<rparr>
                 else r'\<lparr>adjusted_position := adjusted_position r + diff\<rparr>
             | None \<Rightarrow> r'\<lparr>adjusted_position := adjusted_position r + diff\<rparr>)
         | None \<Rightarrow>
             (case prev_adjustment of
               Some p \<Rightarrow> if adjustment_type p = BEGIN_MACRO_ADJUSTMENT
                 then r'\<lparr>adjusted_position := loc_offset (new_source_loc p)\<rparr>
                 else r'\<lparr>adjusted_position := adjusted_position r + diff\<rparr>
             | None \<Rightarrow> r'\<lparr>adjusted_position := adjusted_position r + diff\<rparr>))"

definition back_up :: "reader \<Rightarrow> reader" where
  "back_up r =
     (let r' = (if next_adjustment r \<ge> 1 \<and>
            location (adjustments r ! (next_adjustment r - 1)) = position_in r
          then r\<lparr>next_adjustment := next_adjustment r - 1\<rparr> else r)
      in r'\<lparr>position_in := position_in r - 1, adjusted_position := adjusted_position r - 1\<rparr>)"

definition read_char :: "reader \<Rightarrow> char \<times> reader" where
  "read_char r = (peek_char r, advance r)"

definition expect_char :: "reader \<Rightarrow> char \<Rightarrow> bool \<times> reader" where
  "expect_char r c = (if peek_char r = c then (True, advance r) else (False, r))"

definition between :: "char \<Rightarrow> char \<Rightarrow> char \<Rightarrow> bool" where
  "between c lo hi = ((of_char lo :: nat) \<le> of_char c \<and> (of_char c :: nat) \<le> of_char hi)"

definition initial_ident_char :: "char \<Rightarrow> bool" where
  "initial_ident_char c = (between c CHR ''a'' CHR ''z'' \<or> between c CHR ''A'' CHR ''Z'' \<or> c = CHR ''_'')"

definition ident_char :: "char \<Rightarrow> bool" where
  "ident_char c = (initial_ident_char c \<or> between c CHR ''0'' CHR ''9'')"

text \<open>What \<^verbatim>\<open>advance\<close> and \<^verbatim>\<open>back_up\<close> leave alone, and that \<^verbatim>\<open>advance\<close> moves forward.\<close>

lemma skip_line_ends_greater: "pos < skip_line_ends buf pos"
proof (induction buf pos rule: skip_line_ends.induct)
  case (1 buf pos)
  then show ?case by (subst skip_line_ends.simps) (auto simp: Let_def intro: less_trans)
qed

lemma skip_line_ends_bound: "pos < length buf \<Longrightarrow> skip_line_ends buf pos \<le> length buf"
proof (induction buf pos rule: skip_line_ends.induct)
  case (1 buf pos)
  then show ?case by (subst skip_line_ends.simps) (auto simp: Let_def)
qed

lemma advance_fields [simp]:
  "buffer (advance r) = buffer r" "filename (advance r) = filename r" "adjustments (advance r) = adjustments r"
  "position_in (advance r) = skip_line_ends (buffer r) (position_in r)"
  by (simp_all add: advance_def Let_def split: option.split)

lemma advance_forward: "position_in r < position_in (advance r)"
  by (simp add: skip_line_ends_greater)

lemma back_up_fields [simp]:
  "buffer (back_up r) = buffer r" "filename (back_up r) = filename r" "adjustments (back_up r) = adjustments r"
  "position_in (back_up r) = position_in r - 1"
  by (simp_all add: back_up_def Let_def)

lemma expect_char_cases:
  assumes "expect_char r c = (found, r')"
  shows "buffer r' = buffer r" "filename r' = filename r" "position_in r \<le> position_in r'"
    "found \<Longrightarrow> position_in r < position_in r'"
  using assms skip_line_ends_greater [of "position_in r" "buffer r"]
  by (auto simp: expect_char_def split: if_splits)

text \<open>How far the reader is from the end.\<close>

definition remaining :: "reader \<Rightarrow> nat" where
  "remaining r = length (buffer r) - position_in r"

lemma advance_remaining: "\<not> at_end r \<Longrightarrow> remaining (advance r) < remaining r"
  using advance_forward [of r] by (simp add: at_end_def remaining_def)

lemma peek_not_end: "peek_char r \<noteq> EOF \<Longrightarrow> \<not> at_end r"
  by (auto simp: peek_char_def)

lemma between_not_EOF: "between EOF lo hi \<Longrightarrow> (of_char hi :: nat) \<ge> 255"
  by (simp add: between_def EOF_def)

lemma ident_char_not_EOF: "ident_char c \<Longrightarrow> c \<noteq> EOF"
  by (auto simp: ident_char_def initial_ident_char_def between_def EOF_def)

function read_ident :: "reader \<Rightarrow> reader" where
  "read_ident r = (if at_end r \<or> \<not> ident_char (peek_char r) then r else read_ident (advance r))"
  by pat_completeness auto
termination by (relation "measure remaining") (auto intro: advance_remaining)

declare read_ident.simps [simp del]

text \<open>\<^verbatim>\<open>read_symbol\<close>, with \<open>None\<close> for \<^verbatim>\<open>INVALID_STRING\<close>.\<close>

definition read_symbol :: "reader \<Rightarrow> string option \<times> reader" where
  "read_symbol r =
     (if \<not> initial_ident_char (peek_char r) then (None, r)
      else let r' = read_ident r in
           (Some (take (position_in r' - position_in r) (drop (position_in r) (buffer r))), r'))"

definition reader_current_line :: "reader \<Rightarrow> u32" where
  "reader_current_line r = 1 + of_nat (length (filter (\<lambda>c. c = CHR 0x0A) (take (position_in r) (buffer r))))"

end
