(* ===== verification/Naive_Lex.thy ===== *)
theory Naive_Lex
  imports Naive_Reader Naive_AST
begin

text \<open>
  The lexer (\<^verbatim>\<open>src/src/syntax/lex.c\<close>): numeric, character and string literals, punctuators,
  symbols, and the joining of adjacent string literals. Errors are reported and make \<^verbatim>\<open>lex\<close>
  return false; reporting itself is output and is left out. Multiplication and scaling of doubles
  and the table of powers of ten are a parameter, on bit patterns.
\<close>

section \<open>Numbers\<close>

definition is_numeric_suffix_char :: "char \<Rightarrow> bool" where
  "is_numeric_suffix_char c = (c \<in> {CHR ''u'', CHR ''U'', CHR ''l'', CHR ''L'', CHR ''f'', CHR ''F''})"

text \<open>A repeated suffix is reported, and read on.\<close>

function read_suffix_from :: "reader \<Rightarrow> numeric_suffix \<Rightarrow> numeric_suffix \<times> reader" where
  "read_suffix_from r suffix =
     (if at_end r then (suffix, r)
      else if peek_char r \<in> {CHR ''u'', CHR ''U''} then read_suffix_from (advance r) (suffix OR UNSIGNED_SUFFIX)
      else if peek_char r \<in> {CHR ''l'', CHR ''L''} then
        (if peek_char (advance r) = peek_char r
         then read_suffix_from (advance (advance r)) (suffix OR LONG_LONG_SUFFIX)
         else read_suffix_from (advance r) (suffix OR LONG_SUFFIX))
      else if peek_char r \<in> {CHR ''f'', CHR ''F''} then read_suffix_from (advance r) (suffix OR FLOAT_SUFFIX)
      else (suffix, back_up (advance r)))"
  by pat_completeness auto
termination
proof (relation "measure (\<lambda>(r, s). remaining r)", goal_cases)
  case (3 r suffix)
  have "remaining (advance (advance r)) \<le> remaining (advance r)"
    using advance_forward [of "advance r"] by (simp add: remaining_def)
  then show ?case using advance_remaining [OF 3(1)] by simp
qed (auto intro: advance_remaining)

declare read_suffix_from.simps [simp del]

definition read_numeric_suffix :: "reader \<Rightarrow> numeric_suffix \<times> reader" where
  "read_numeric_suffix r = read_suffix_from r NO_SUFFIX"

definition optional_suffix :: "reader \<Rightarrow> numeric_suffix \<times> reader" where
  "optional_suffix r =
     (if is_numeric_suffix_char (peek_char r) then read_numeric_suffix r else (NO_SUFFIX, r))"

definition char_to_digit :: "char \<Rightarrow> nat \<Rightarrow> nat option" where
  "char_to_digit c radix =
     (if radix = 16 \<and> between c CHR ''a'' CHR ''f'' then Some (of_char c - of_char CHR ''a'' + 10)
      else if radix = 16 \<and> between c CHR ''A'' CHR ''F'' then Some (of_char c - of_char CHR ''A'' + 10)
      else if radix \<ge> 10 \<and> between c CHR ''8'' CHR ''9'' then Some (of_char c - of_char CHR ''0'')
      else if between c CHR ''0'' CHR ''7'' then Some (of_char c - of_char CHR ''0'')
      else None)"

lemma char_to_digit_not_EOF: "char_to_digit EOF radix = None"
  by (simp add: char_to_digit_def between_def EOF_def)

lemma digit_not_end: "char_to_digit (peek_char r) radix \<noteq> None \<Longrightarrow> \<not> at_end r"
  using char_to_digit_not_EOF by (auto simp: peek_char_def split: if_splits)

lemma digit_advance: "char_to_digit (peek_char r) radix = Some d \<Longrightarrow> remaining (advance r) < remaining r"
  using digit_not_end [of r radix] advance_remaining [of r] by simp

function skip_digits :: "reader \<Rightarrow> nat \<Rightarrow> reader" where
  "skip_digits r radix =
     (case char_to_digit (peek_char r) radix of None \<Rightarrow> r | Some _ \<Rightarrow> skip_digits (advance r) radix)"
  by pat_completeness auto
termination by (relation "measure (\<lambda>(r, radix). remaining r)") (auto intro: digit_advance)

function read_digits :: "reader \<Rightarrow> nat \<Rightarrow> u64 \<Rightarrow> u64 \<times> reader" where
  "read_digits r radix x =
     (case char_to_digit (peek_char r) radix of
        None \<Rightarrow> (x, r)
      | Some d \<Rightarrow> read_digits (advance r) radix (x * of_nat radix + of_nat d))"
  by pat_completeness auto
termination by (relation "measure (\<lambda>(r, radix, x). remaining r)") (auto intro: digit_advance)

declare skip_digits.simps [simp del] read_digits.simps [simp del]

definition read_int_literal :: "reader \<Rightarrow> nat \<Rightarrow> token \<times> reader" where
  "read_int_literal r radix =
     (let (x, r) = read_digits r radix 0; (suffix, r) = optional_suffix r
      in (TOK_INT_LITERAL \<lparr>int_value = x, int_suffix = suffix\<rparr>, r))"

datatype literal_type = INT_LITERAL_TYPE | FLOAT_LITERAL_TYPE

definition isdigit :: "char \<Rightarrow> bool" where
  "isdigit c = between c CHR ''0'' CHR ''9''"

definition classify_numeric_literal :: "reader \<Rightarrow> (literal_type \<times> nat) \<times> reader" where
  "classify_numeric_literal r =
     (let (zero, r) = expect_char r CHR ''0'';
          (radix, r) =
            (if zero \<and> \<not> at_end r then
               (let (x, r') = expect_char r CHR ''x'' in
                if x then (16, r') else if isdigit (peek_char r) then (8, r) else (10, r))
             else (10, r));
          r = skip_digits r radix
      in if radix = 8 then ((INT_LITERAL_TYPE, radix), r)
         else if peek_char r = CHR ''.'' \<or>
           radix = 10 \<and> (peek_char r = CHR ''e'' \<or> peek_char r = CHR ''E'') \<or>
           radix = 16 \<and> (peek_char r = CHR ''p'' \<or> peek_char r = CHR ''P'')
         then ((FLOAT_LITERAL_TYPE, radix), advance r)
         else ((INT_LITERAL_TYPE, radix), r))"

section \<open>Floating-point literals\<close>

record float_ops =
  f64_mul :: "u64 \<Rightarrow> u64 \<Rightarrow> u64"
  f64_ldexp :: "u64 \<Rightarrow> int \<Rightarrow> u64"
  f64_of_int :: "u64 \<Rightarrow> u64"
  power_of_ten :: "int \<Rightarrow> u64"

record significand_state =
  significand :: u64
  digit_count :: nat
  extra_exponent :: u32
  point_position :: "nat option"

definition add_digit :: "nat \<Rightarrow> significand_state \<Rightarrow> nat \<Rightarrow> significand_state" where
  "add_digit radix st d =
     (let st = st\<lparr>digit_count := digit_count st + 1\<rparr> in
      if significand st < push_bit 52 1
      then st\<lparr>significand := significand st * of_nat radix + of_nat d\<rparr>
      else st\<lparr>extra_exponent := extra_exponent st + (if radix = 10 then 1 else 4)\<rparr>)"

function read_significand :: "reader \<Rightarrow> nat \<Rightarrow> significand_state \<Rightarrow> significand_state \<times> reader" where
  "read_significand r radix st =
     (if peek_char r = CHR ''.'' then
        read_significand (advance r) radix (st\<lparr>point_position := Some (digit_count st)\<rparr>)
      else case char_to_digit (peek_char r) radix of
        None \<Rightarrow> (st, r)
      | Some d \<Rightarrow> read_significand (advance r) radix (add_digit radix st d))"
  by pat_completeness auto
termination
proof (relation "measure (\<lambda>(r, radix, st). remaining r)", goal_cases)
  case (2 r radix st)
  then show ?case using advance_remaining [of r] peek_not_end [of r] by (simp add: EOF_def)
qed (auto intro: digit_advance)

text \<open>The decimal exponent; the multiplication is signed, so it must not overflow.\<close>

function read_exponent :: "reader \<Rightarrow> int \<Rightarrow> (int \<times> reader) run" where
  "read_exponent r x =
     (case char_to_digit (peek_char r) 10 of
        None \<Rightarrow> Inr (x, r)
      | Some d \<Rightarrow>
          if x * 10 + int d \<ge> 2 ^ 31 then undefined_behaviour
          else read_exponent (advance r) (x * 10 + int d))"
  by pat_completeness auto
termination by (relation "measure (\<lambda>(r, x). remaining r)") (auto intro: digit_advance)

declare read_significand.simps [simp del] read_exponent.simps [simp del]

definition optional_exponent :: "reader \<Rightarrow> nat \<Rightarrow> (int \<times> reader) run" where
  "optional_exponent r radix =
     (let c = peek_char r in
      if radix = 10 \<and> (c = CHR ''e'' \<or> c = CHR ''E'') \<or> radix = 16 \<and> (c = CHR ''p'' \<or> c = CHR ''P'') then
        (let r = advance r;
             (plus, r) = expect_char r CHR ''+'';
             (negative, r) = (if \<not> plus then expect_char r CHR ''-'' else (False, r))
         in rbind (read_exponent r 0) (\<lambda>(x, r). Inr (if negative then - x else x, r)))
      else Inr (0, r))"

definition double_from_decimal_exponent :: "float_ops \<Rightarrow> u64 \<Rightarrow> int \<Rightarrow> u64 run" where
  "double_from_decimal_exponent ops x e =
     (if \<bar>e\<bar> \<le> 22 then Inr (f64_mul ops (f64_of_int ops x) (power_of_ten ops e)) else exit_unimplemented)"

text \<open>The corrections to the exponent are made in 32-bit unsigned arithmetic.\<close>

definition final_exponent :: "nat \<Rightarrow> significand_state \<Rightarrow> int \<Rightarrow> int" where
  "final_exponent radix st e =
     (let per_digit = (if radix = 10 then 1 else 4) :: u32;
          x = word_of_int e + extra_exponent st;
          x = (case point_position st of
                 None \<Rightarrow> x
               | Some p \<Rightarrow> x - per_digit * of_nat (digit_count st - p))
      in sint x)"

definition read_float_literal :: "float_ops \<Rightarrow> reader \<Rightarrow> nat \<Rightarrow> (token \<times> reader) run" where
  "read_float_literal ops r radix =
     (let (st, r) = read_significand r radix
        \<lparr>significand = 0, digit_count = 0, extra_exponent = 0, point_position = None\<rparr> in
      rbind (optional_exponent r radix) (\<lambda>(e, r).
        let (suffix, r) = optional_suffix r; e = final_exponent radix st e in
        rbind (if radix = 16 then Inr (f64_ldexp ops (f64_of_int ops (significand st)) e)
               else double_from_decimal_exponent ops (significand st) e) (\<lambda>x.
          Inr (TOK_FLOAT_LITERAL \<lparr>float_value = x, float_suffix = suffix\<rparr>, r))))"

text \<open>After the classification the position is set again, but not the next adjustment.\<close>

definition read_numeric_literal :: "float_ops \<Rightarrow> reader \<Rightarrow> (token \<times> reader) run" where
  "read_numeric_literal ops r =
     (let ((type, radix), rc) = classify_numeric_literal r;
          r = rc\<lparr>position_in := position_in r, adjusted_position := adjusted_position r\<rparr>;
          r = (if radix = 16 then advance (advance r) else r)
      in case type of
           INT_LITERAL_TYPE \<Rightarrow> Inr (read_int_literal r radix)
         | FLOAT_LITERAL_TYPE \<Rightarrow> read_float_literal ops r radix)"

section \<open>Characters and strings\<close>

text \<open>\<^verbatim>\<open>None\<close> where the functions report an error and return false or \<open>-1\<close>.\<close>

function read_octal_digits :: "reader \<Rightarrow> u64 \<Rightarrow> u64 option \<times> reader" where
  "read_octal_digits r x =
     (if \<not> isdigit (peek_char r) then (Some x, r)
      else if peek_char r = CHR ''8'' \<or> peek_char r = CHR ''9'' then (None, r)
      else read_octal_digits (advance r) (x * 8 + of_nat (of_char (peek_char r) - of_char CHR ''0'')))"
  by pat_completeness auto
termination
proof (relation "measure (\<lambda>(r, x). remaining r)", goal_cases)
  case (2 r x)
  then have "\<not> at_end r" by (auto simp: isdigit_def between_def EOF_def peek_char_def)
  then show ?case using advance_remaining by simp
qed simp

declare read_octal_digits.simps [simp del]

definition read_octal_number :: "reader \<Rightarrow> u64 option \<times> reader" where
  "read_octal_number r = read_octal_digits r 0"

definition read_hex_number :: "reader \<Rightarrow> u64 option \<times> reader" where
  "read_hex_number r =
     (let (x, r') = read_digits r 16 0
      in (if char_to_digit (peek_char r) 16 = None then None else Some x, r'))"

fun escaped_char :: "char \<Rightarrow> u64 option" where
  "escaped_char c =
     map_of [(CHR 0x5C, 0x5C), (CHR 0x27, 0x27), (CHR 0x22, 0x22), (CHR ''a'', 7), (CHR ''b'', 8),
       (CHR ''f'', 12), (CHR ''n'', 10), (CHR ''r'', 13), (CHR ''t'', 9), (CHR ''v'', 11)] c"

definition literal_value :: "reader \<Rightarrow> u64 option \<times> reader" where
  "literal_value r =
     (let (c, r) = read_char r in
      if c = CHR 0x5C then
        (let (e, r) = read_char r in
         if e = CHR ''0'' then read_octal_number r
         else if e = CHR ''x'' then read_hex_number r
         else (escaped_char e, r))
      else (Some (of_nat (of_char c)), r))"

definition read_char_in_literal :: "reader \<Rightarrow> u64 option \<times> reader" where
  "read_char_in_literal r =
     (case literal_value r of
        (None, r) \<Rightarrow> (None, r)
      | (Some x, r) \<Rightarrow> if x > 0xFF then (None, r) else (Some x, r))"

lemma skip_digits_fields:
  "buffer (skip_digits r radix) = buffer r" "filename (skip_digits r radix) = filename r"
  "adjustments (skip_digits r radix) = adjustments r"
proof (induction r radix rule: skip_digits.induct)
  case (1 r radix)
  { case 1 then show ?case using "1.IH"(1) by (subst skip_digits.simps) (simp split: option.split) }
  { case 2 then show ?case using "1.IH"(2) by (subst skip_digits.simps) (simp split: option.split) }
  { case 3 then show ?case using "1.IH"(3) by (subst skip_digits.simps) (simp split: option.split) }
qed

lemma classify_fields:
  "buffer (snd (classify_numeric_literal r)) = buffer r" "filename (snd (classify_numeric_literal r)) = filename r"
  "adjustments (snd (classify_numeric_literal r)) = adjustments r"
  by (simp_all add: classify_numeric_literal_def Let_def case_prod_unfold expect_char_def skip_digits_fields)

lemma read_digits_position:
  "buffer (snd (read_digits r radix x)) = buffer r \<and> filename (snd (read_digits r radix x)) = filename r \<and>
   position_in r \<le> position_in (snd (read_digits r radix x))"
proof (induction r radix x rule: read_digits.induct)
  case (1 r radix x)
  then show ?case using advance_forward [of r]
    by (subst (1 2 3) read_digits.simps) (fastforce split: option.splits)
qed

lemma read_octal_digits_position:
  "buffer (snd (read_octal_digits r x)) = buffer r \<and> filename (snd (read_octal_digits r x)) = filename r \<and>
   position_in r \<le> position_in (snd (read_octal_digits r x))"
proof (induction r x rule: read_octal_digits.induct)
  case (1 r x)
  then show ?case using advance_forward [of r]
    by (subst (1 2 3) read_octal_digits.simps) (auto split: option.splits)
qed

lemma literal_value_reader:
  "snd (literal_value r) =
     (if peek_char r \<noteq> CHR 0x5C then advance r
      else if peek_char (advance r) = CHR ''0'' then snd (read_octal_digits (advance (advance r)) 0)
      else if peek_char (advance r) = CHR ''x'' then snd (read_digits (advance (advance r)) 16 0)
      else advance (advance r))"
  by (simp add: literal_value_def read_char_def read_octal_number_def read_hex_number_def case_prod_unfold Let_def)

lemma literal_value_position:
  assumes "literal_value r = (v, r')"
  shows "buffer r' = buffer r" "filename r' = filename r" "position_in r < position_in r'"
proof -
  let ?r2 = "advance (advance r)"
  have "r' = snd (literal_value r)" using assms by simp
  then have cases: "r' = advance r \<or> r' = ?r2 \<or> r' = snd (read_octal_digits ?r2 0) \<or> r' = snd (read_digits ?r2 16 0)"
    unfolding literal_value_reader by (auto split: if_splits)
  have lt: "position_in r < position_in (advance r)" "position_in r < position_in ?r2"
    using advance_forward [of r] advance_forward [of "advance r"] by linarith+
  have le: "position_in r < position_in s" if "position_in ?r2 \<le> position_in s" for s :: reader
    using lt(2) that by (rule less_le_trans)
  show "position_in r < position_in r'"
    using cases lt le read_digits_position [of ?r2 16 0] read_octal_digits_position [of ?r2 0] by blast
  show "buffer r' = buffer r" "filename r' = filename r"
    using cases read_digits_position [of ?r2 16 0] read_octal_digits_position [of ?r2 0]
      advance_fields(1,2) [of r] advance_fields(1,2) [of "advance r"] by metis+
qed

lemma read_char_in_literal_position:
  assumes "read_char_in_literal r = (v, r')"
  shows "buffer r' = buffer r" "filename r' = filename r" "position_in r < position_in r'"
proof -
  obtain w where "literal_value r = (w, r')"
    using assms by (cases "literal_value r") (auto simp: read_char_in_literal_def split: option.splits if_splits)
  then show "buffer r' = buffer r" "filename r' = filename r" "position_in r < position_in r'"
    by (rule literal_value_position)+
qed

text \<open>
  The characters up to the closing quote. At the end of the text \<^verbatim>\<open>peek_char\<close> keeps giving \<^verbatim>\<open>EOF\<close>,
  which is a character like any other, so the loop never ends.
\<close>

function read_string_chars :: "reader \<Rightarrow> string \<Rightarrow> (string option \<times> reader) run" where
  "read_string_chars r acc =
     (if peek_char r = CHR 0x22 then Inr (Some acc, r)
      else if at_end r then Inl No_Return
      else case read_char_in_literal r of
        (None, r') \<Rightarrow> Inr (None, r')
      | (Some c, r') \<Rightarrow> read_string_chars r' (acc @ [char_of (unat c)]))"
  by pat_completeness auto
termination
proof (relation "measure (\<lambda>(r, acc). remaining r)", goal_cases)
  case (2 r acc x y c)
  then show ?case using read_char_in_literal_position [of r "Some c" y]
    by (auto simp: remaining_def at_end_def)
qed simp

declare read_string_chars.simps [simp del]

section \<open>Punctuators\<close>

definition if_next :: "reader \<Rightarrow> char \<Rightarrow> token \<Rightarrow> token \<times> reader \<Rightarrow> token \<times> reader" where
  "if_next r c t otherwise = (if peek_char r = c then (t, advance r) else otherwise)"

definition if_next_two :: "reader \<Rightarrow> char \<Rightarrow> char \<Rightarrow> token \<Rightarrow> token \<Rightarrow> token \<times> reader \<Rightarrow> token \<times> reader" where
  "if_next_two r c d t2 t1 otherwise =
     (if peek_char r = c then if_next (advance r) d t2 (t1, advance r) else otherwise)"

text \<open>The punctuators by their first character, which has been read.\<close>

definition punctuator :: "char \<Rightarrow> reader \<Rightarrow> (token \<times> reader) option" where
  "punctuator c r =
     (if c = CHR ''+'' then Some (if_next r CHR ''+'' TOK_INCREMENT (if_next r CHR ''='' TOK_PLUS_ASSIGN (TOK_PLUS, r)))
      else if c = CHR ''-'' then Some (if_next r CHR ''-'' TOK_DECREMENT (if_next r CHR ''='' TOK_MINUS_ASSIGN
        (if_next r CHR ''>'' TOK_ARROW (TOK_MINUS, r))))
      else if c = CHR ''*'' then Some (if_next r CHR ''='' TOK_MULTIPLY_ASSIGN (TOK_ASTERISK, r))
      else if c = CHR ''/'' then Some (if_next r CHR ''='' TOK_DIVIDE_ASSIGN (TOK_DIVIDE, r))
      else if c = CHR ''%'' then Some (if_next r CHR ''='' TOK_MODULO_ASSIGN (TOK_MODULO, r))
      else if c = CHR ''&'' then Some (if_next r CHR ''&'' TOK_LOGICAL_AND (if_next r CHR ''='' TOK_BIT_AND_ASSIGN (TOK_AMPERSAND, r)))
      else if c = CHR ''|'' then Some (if_next r CHR ''|'' TOK_LOGICAL_OR (if_next r CHR ''='' TOK_BIT_OR_ASSIGN (TOK_BIT_OR, r)))
      else if c = CHR ''^'' then Some (if_next r CHR ''='' TOK_BIT_XOR_ASSIGN (TOK_BIT_XOR, r))
      else if c = CHR ''='' then Some (if_next r CHR ''='' TOK_EQUAL (TOK_ASSIGN, r))
      else if c = CHR ''!'' then Some (if_next r CHR ''='' TOK_NOT_EQUAL (TOK_LOGICAL_NOT, r))
      else if c = CHR ''<'' then Some (if_next r CHR ''='' TOK_LESS_THAN_OR_EQUAL
        (if_next_two r CHR ''<'' CHR ''='' TOK_LEFT_SHIFT_ASSIGN TOK_LEFT_SHIFT (TOK_LESS_THAN, r)))
      else if c = CHR ''>'' then Some (if_next r CHR ''='' TOK_GREATER_THAN_OR_EQUAL
        (if_next_two r CHR ''>'' CHR ''='' TOK_RIGHT_SHIFT_ASSIGN TOK_RIGHT_SHIFT (TOK_GREATER_THAN, r)))
      else map_option (\<lambda>t. (t, r)) (map_of
        [(CHR ''~'', TOK_BIT_NOT), (CHR ''?'', TOK_QUESTION_MARK), (CHR '':'', TOK_COLON), (CHR '';'', TOK_SEMICOLON),
         (CHR '','', TOK_COMMA), (CHR ''{'', TOK_LCURLY), (CHR ''}'', TOK_RCURLY), (CHR ''('', TOK_LROUND),
         (CHR '')'', TOK_RROUND), (CHR ''['', TOK_LSQUARE), (CHR '']'', TOK_RSQUARE)] c))"

section \<open>Tokens\<close>

text \<open>
  \<^verbatim>\<open>owned\<close> tells whether the characters of a string literal are in memory of their own: those of
  \<^verbatim>\<open>__FILE__\<close> are the reader's file name.
\<close>

record source_token =
  token_of :: token
  owned :: bool
  token_range :: source_range

datatype lexed = Got token bool | Got_Nothing | Lex_Error

definition lex_dot :: "float_ops \<Rightarrow> reader \<Rightarrow> (lexed \<times> reader) run" where
  "lex_dot ops r =
     (if peek_char r = CHR ''.'' then
        (let r1 = advance r in
         if peek_char r1 = CHR ''.'' then Inr (Got TOK_ELLIPSIS True, advance r1)
         else Inr (Got TOK_DOT True, back_up r1))
      else if isdigit (peek_char r) then
        rbind (read_float_literal ops (back_up r) 10) (\<lambda>(t, r). Inr (Got t True, r))
      else Inr (Got TOK_DOT True, r))"

definition lex_symbol :: "reader \<Rightarrow> (lexed \<times> reader) run" where
  "lex_symbol r =
     (case read_symbol (back_up r) of
        (None, _) \<Rightarrow> exit_ice
      | (Some s, r) \<Rightarrow>
          Inr (if s = ''__LINE__''
               then Got (TOK_INT_LITERAL \<lparr>int_value = ucast (reader_current_line r), int_suffix = NO_SUFFIX\<rparr>) True
               else if s = ''__FILE__'' then Got (TOK_STRING_LITERAL (filename r)) False
               else Got (TOK_SYMBOL s) True, r))"

definition lex_string :: "reader \<Rightarrow> (lexed \<times> reader) run" where
  "lex_string r =
     rbind (read_string_chars r []) (\<lambda>(s, r).
       Inr (case s of None \<Rightarrow> (Lex_Error, r) | Some s \<Rightarrow> (Got (TOK_STRING_LITERAL s) True, advance r)))"

definition lex_char :: "reader \<Rightarrow> lexed \<times> reader" where
  "lex_char r =
     (case read_char_in_literal r of
        (None, r) \<Rightarrow> (Lex_Error, r)
      | (Some x, r) \<Rightarrow>
          if peek_char r \<noteq> CHR 0x27 then (Lex_Error, advance r)
          else (Got (TOK_INT_LITERAL \<lparr>int_value = x, int_suffix = NO_SUFFIX\<rparr>) True, advance r))"

text \<open>One round of \<^verbatim>\<open>lex_aux\<close>: the token that starts at the reader's position.\<close>

definition lex_token :: "float_ops \<Rightarrow> reader \<Rightarrow> (lexed \<times> reader) run" where
  "lex_token ops r =
     (let (c, r) = read_char r in
      if isdigit c then rbind (read_numeric_literal ops (back_up r)) (\<lambda>(t, r). Inr (Got t True, r))
      else if c = CHR 0x22 then lex_string r
      else if c = CHR 0x27 then Inr (lex_char r)
      else if c = CHR ''.'' then lex_dot ops r
      else if c = CHR '' '' \<or> c = CHR 0x0A then Inr (Got_Nothing, r)
      else case punctuator c r of
        Some (t, r) \<Rightarrow> Inr (Got t True, r)
      | None \<Rightarrow> lex_symbol r)"

fun lex_aux :: "nat \<Rightarrow> float_ops \<Rightarrow> reader \<Rightarrow> source_token list \<Rightarrow> (source_token list \<times> bool) run" where
  "lex_aux 0 ops r toks = Inl No_Return"
| "lex_aux (Suc fuel) ops r toks =
     (if at_end r then Inr (toks, True)
      else
        let start_loc = reader_source_loc r in
        rbind (lex_token ops r) (\<lambda>(res, r).
          case res of
            Got t own \<Rightarrow> lex_aux fuel ops r (toks @ [\<lparr>token_of = t, owned = own, token_range = range_from r start_loc\<rparr>])
          | Got_Nothing \<Rightarrow> lex_aux fuel ops r toks
          | Lex_Error \<Rightarrow> Inr (toks, False)))"

text \<open>
  Adjacent string literals are joined into the first. Its memory is reallocated, which is
  undefined if it is the reader's file name.
\<close>

fun string_literal_of :: "source_token \<Rightarrow> string option" where
  "string_literal_of t = (case token_of t of TOK_STRING_LITERAL s \<Rightarrow> Some s | _ \<Rightarrow> None)"

fun join_onto :: "source_token \<Rightarrow> source_token list \<Rightarrow> (source_token \<times> source_token list) run" where
  "join_onto t [] = Inr (t, [])"
| "join_onto t (u # ts) =
     (case (token_of t, token_of u) of
        (TOK_STRING_LITERAL s, TOK_STRING_LITERAL s') \<Rightarrow>
          if \<not> owned t then undefined_behaviour
          else join_onto (t\<lparr>token_of := TOK_STRING_LITERAL (s @ s')\<rparr>) ts
      | _ \<Rightarrow> Inr (t, u # ts))"

lemma join_onto_length: "join_onto t ts = Inr (t', ts') \<Longrightarrow> length ts' \<le> length ts"
  by (induction t ts rule: join_onto.induct) (auto split: token.splits if_splits intro: le_SucI)

function join_literals :: "source_token list \<Rightarrow> source_token list run" where
  "join_literals [] = Inr []"
| "join_literals (t # ts) =
     (case join_onto t ts of
        Inl e \<Rightarrow> Inl e
      | Inr (t', ts') \<Rightarrow> rbind (join_literals ts') (\<lambda>out. Inr (t' # out)))"
  by pat_completeness auto
termination
proof (relation "measure length", goal_cases)
  case (2 t ts p t' ts')
  then show ?case using join_onto_length [of t ts t' ts'] by (simp add: less_Suc_eq_le)
qed simp

definition lex :: "float_ops \<Rightarrow> string \<Rightarrow> adjustment list \<Rightarrow> (source_token list \<times> bool) run" where
  "lex ops text adjs =
     (case adjs of
        [] \<Rightarrow> exit_ice
      | first # _ \<Rightarrow>
          if location first \<noteq> 0 \<or> adjustment_type first \<noteq> NORMAL_ADJUSTMENT then exit_ice
          else
            let r = reader_init text adjs False (loc_filename (new_source_loc first)) in
            rbind (lex_aux (Suc (length text)) ops (r\<lparr>next_adjustment := 1\<rparr>) []) (\<lambda>(toks, ret).
            rbind (join_literals toks) (\<lambda>toks. Inr (toks, ret))))"

end
