(* ===== verification/Naive_Lex_Properties.thy ===== *)
theory Naive_Lex_Properties
  imports Naive_Lex
begin

text \<open>
  Correctness of the lexer: every round consumes input, so \<^verbatim>\<open>lex\<close> returns on every text whose
  string literals are closed; printed integers are read back; adjacent string literals are
  joined without loss.
\<close>

section \<open>Progress\<close>

text \<open>Later in the same buffer.\<close>

definition later :: "reader \<Rightarrow> reader \<Rightarrow> bool" where
  "later r r' = (buffer r' = buffer r \<and> position_in r \<le> position_in r')"

lemma later_refl [simp]: "later r r"
  by (simp add: later_def)

lemma later_trans: "later r s \<Longrightarrow> later s t \<Longrightarrow> later r t"
  by (simp add: later_def)

lemma later_advance: "later r s \<Longrightarrow> later r (advance s)"
  using advance_forward [of s] by (simp add: later_def)

lemma later_advance_back_up: "later r s \<Longrightarrow> later r (back_up (advance s))"
  using advance_forward [of s] by (simp add: later_def) linarith

lemmas later_steps = later_trans [OF later_advance [OF later_refl]]
  later_trans [OF later_advance [OF later_advance [OF later_refl]]]

lemmas later_intros = later_advance later_advance_back_up

lemma read_digits_later: "later r (snd (read_digits r radix x))"
  using read_digits_position [of r radix x] by (simp add: later_def)

lemma read_suffix_later: "later r (snd (read_suffix_from r s))"
proof (induction r s rule: read_suffix_from.induct)
  case (1 r s)
  then show ?case
    by (subst read_suffix_from.simps) (auto intro: later_intros later_steps)
qed

lemma optional_suffix_later: "later r (snd (optional_suffix r))"
  by (simp add: optional_suffix_def read_numeric_suffix_def read_suffix_later)

lemma read_significand_later: "later r (snd (read_significand r radix st))"
proof (induction r radix st rule: read_significand.induct)
  case (1 r radix st)
  then show ?case
    by (subst read_significand.simps) (auto split: option.split intro: later_trans [OF later_advance [OF later_refl]])
qed

lemma read_exponent_later: "read_exponent r x = Inr (y, r') \<Longrightarrow> later r r'"
proof (induction r x rule: read_exponent.induct)
  case (1 r x)
  then show ?case
    by (subst (asm) read_exponent.simps)
       (auto split: option.splits if_splits intro: later_trans [OF later_advance [OF later_refl]])
qed

lemma expect_char_later: "later r (snd (expect_char r c))"
  by (simp add: expect_char_def later_advance)

lemma optional_exponent_later:
  assumes "optional_exponent r radix = Inr (e, r')"
  shows "later r r'"
proof -
  let ?p = "expect_char (advance r) CHR ''+''"
  let ?m = "if \<not> fst ?p then expect_char (snd ?p) CHR ''-'' else (False, snd ?p)"
  have "later r (snd ?p)" using expect_char_later later_advance later_trans later_refl by blast
  moreover have "later (snd ?p) (snd ?m)" using expect_char_later by simp
  ultimately have m: "later r (snd ?m)" by (rule later_trans)
  from assms have "r' = r \<or> (\<exists>x. read_exponent (snd ?m) 0 = Inr (x, r'))"
    by (auto simp: optional_exponent_def Let_def case_prod_unfold split: if_splits)
  then show ?thesis using m read_exponent_later later_trans by auto
qed

lemma read_float_literal_later:
  assumes "read_float_literal ops r radix = Inr (t, r')"
  shows "later (snd (read_significand r radix
    \<lparr>significand = 0, digit_count = 0, extra_exponent = 0, point_position = None\<rparr>)) r'"
proof -
  let ?s = "read_significand r radix \<lparr>significand = 0, digit_count = 0, extra_exponent = 0, point_position = None\<rparr>"
  obtain e r1 where "optional_exponent (snd ?s) radix = Inr (e, r1)" "r' = snd (optional_suffix r1)"
    using assms by (auto simp: read_float_literal_def Let_def case_prod_unfold)
  then show ?thesis using optional_exponent_later optional_suffix_later later_trans by blast
qed

text \<open>A number takes at least its first digit.\<close>

lemma digit_in_radix:
  assumes "isdigit c" "radix \<ge> 10 \<or> radix = 8 \<and> c = CHR ''0''"
  shows "\<exists>d. char_to_digit c radix = Some d"
  using assms by (auto simp: isdigit_def char_to_digit_def between_def)

lemma classify_radix:
  assumes "isdigit (peek_char r)" "fst (classify_numeric_literal r) = (type, radix)"
  shows "radix \<ge> 10 \<or> radix = 8 \<and> peek_char r = CHR ''0''"
  using assms by (auto simp: classify_numeric_literal_def Let_def expect_char_def case_prod_unfold split: if_splits)

lemma read_digits_takes:
  assumes "char_to_digit (peek_char r) radix = Some d"
  shows "later (advance r) (snd (read_digits r radix x))"
  using assms read_digits_later by (subst read_digits.simps) simp

lemma read_significand_takes:
  assumes "char_to_digit (peek_char r) radix = Some d"
  shows "later (advance r) (snd (read_significand r radix st))"
  using assms read_significand_later by (subst read_significand.simps) simp

lemma read_numeric_literal_later:
  assumes "read_numeric_literal ops r = Inr (t, r')"
  shows "later r r'" "isdigit (peek_char r) \<Longrightarrow> later (advance r) r'"
proof -
  obtain type radix where c: "fst (classify_numeric_literal r) = (type, radix)" by (rule prod.exhaust)
  let ?rc = "(snd (classify_numeric_literal r))\<lparr>position_in := position_in r, adjusted_position := adjusted_position r\<rparr>"
  let ?r = "if radix = 16 then advance (advance ?rc) else ?rc"
  have rc: "later r ?rc" "later ?rc r" "peek_char ?rc = peek_char r" "position_in (advance ?rc) = position_in (advance r)"
    by (simp_all add: later_def classify_fields peek_char_def at_end_def)
  have start: "later r ?r" using rc(1) by (simp add: later_advance)
  have body: "later ?r r' \<and> (char_to_digit (peek_char ?r) radix \<noteq> None \<longrightarrow> later (advance ?r) r')"
  proof (cases type)
    case INT_LITERAL_TYPE
    then have "r' = snd (optional_suffix (snd (read_digits ?r radix 0)))"
      using assms c by (auto simp: read_numeric_literal_def read_int_literal_def Let_def case_prod_unfold)
    then show ?thesis
      using optional_suffix_later later_trans [OF read_digits_later] later_trans [OF read_digits_takes] by blast
  next
    case FLOAT_LITERAL_TYPE
    then have "read_float_literal ops ?r radix = Inr (t, r')" using assms c
      by (simp add: read_numeric_literal_def Let_def case_prod_unfold)
    from read_float_literal_later [OF this] show ?thesis
      using later_trans [OF read_significand_later] later_trans [OF read_significand_takes] by blast
  qed
  then show "later r r'" using start later_trans by blast
  show "later (advance r) r'" if "isdigit (peek_char r)"
  proof -
    have "later (advance ?rc) r'"
    proof (cases "radix = 16")
      case True
      then show ?thesis using body later_trans [OF later_advance [OF later_refl]] by simp
    next
      case False
      then show ?thesis using body rc(3) digit_in_radix [OF that classify_radix [OF that c]] by simp
    qed
    then show ?thesis using rc(4) by (simp add: later_def classify_fields)
  qed
qed

lemma read_ident_later: "later r (read_ident r)"
proof (induction r rule: read_ident.induct)
  case (1 r)
  then show ?case by (subst read_ident.simps) (auto intro: later_trans [OF later_advance [OF later_refl]])
qed

lemma read_symbol_later:
  assumes "read_symbol r = (Some s, r')"
  shows "later (advance r) r'"
proof -
  have "initial_ident_char (peek_char r)" "r' = read_ident r"
    using assms by (auto simp: read_symbol_def Let_def split: if_splits)
  moreover from this have "ident_char (peek_char r)" "\<not> at_end r"
    using ident_char_not_EOF [of "peek_char r"] peek_not_end by (auto simp: ident_char_def)
  ultimately show ?thesis using read_ident_later by (subst (asm) read_ident.simps) simp
qed

lemma read_string_chars_later: "read_string_chars r acc = Inr (s, r') \<Longrightarrow> later r r'"
proof (induction r acc rule: read_string_chars.induct)
  case (1 r acc)
  show ?case
  proof (cases "peek_char r = CHR 0x22 \<or> at_end r")
    case True
    then show ?thesis using "1.prems" by (subst (asm) read_string_chars.simps) (auto split: if_splits)
  next
    case False
    obtain v r1 where v: "read_char_in_literal r = (v, r1)" by (rule prod.exhaust)
    have l: "later r r1" using read_char_in_literal_position [OF v] by (simp add: later_def)
    have p: "peek_char r \<noteq> CHR 0x22" "\<not> at_end r" using False by simp_all
    have eq: "read_string_chars r acc = (case v of None \<Rightarrow> Inr (None, r1)
        | Some c \<Rightarrow> read_string_chars r1 (acc @ [char_of (unat c)]))"
      by (subst read_string_chars.simps) (simp add: p v)
    show ?thesis
    proof (cases v)
      case None
      then show ?thesis using "1.prems" eq l by simp
    next
      case (Some c)
      have "later r1 r'" using "1.prems" eq Some v by (intro "1.IH" [OF p v [symmetric] Some]) simp_all
      then show ?thesis by (rule later_trans [OF l])
    qed
  qed
qed


lemma punctuator_later:
  assumes "punctuator c r = Some (t, r')"
  shows "later r r'"
proof -
  have n: "later r (snd (if_next r c t p))" if "later r (snd p)" for c t p
    using that by (simp add: if_next_def later_advance)
  have m: "later r (snd (if_next_two r c d t2 t1 p))" if "later r (snd p)" for c d t2 t1 p
    using that by (simp add: if_next_two_def if_next_def later_advance)
  have "pred_option (\<lambda>p. later r (snd p)) (punctuator c r)"
    unfolding punctuator_def option.pred_map map_option_case
    by (simp only: split: if_split option.split) (simp add: n m)
  then show ?thesis using assms by simp
qed

lemma lex_token_progress:
  assumes "lex_token ops r = Inr (res, r')" "\<not> at_end r"
  shows "buffer r' = buffer r" "position_in r < position_in r'"
proof -
  let ?c = "peek_char r" and ?r = "advance r"
  have bk: "later r (back_up ?r)" "buffer (back_up ?r) = buffer r" by (simp_all add: later_advance_back_up)
  have same: "peek_char (back_up ?r) = ?c" if "\<not> position_in r < position_in (back_up ?r)"
  proof -
    have "position_in (back_up ?r) = position_in r" using that bk by (simp add: later_def)
    then show ?thesis using bk(2) by (simp add: peek_char_def at_end_def)
  qed
  have lt: "later r s \<and> position_in r < position_in s" if "later ?r s" for s
    using that advance_forward [of r] by (auto simp: later_def)
  have from_back: "later r s \<and> position_in r < position_in s"
    if "later (back_up ?r) s" "peek_char (back_up ?r) = ?c \<Longrightarrow> later (advance (back_up ?r)) s" for s
  proof (cases "position_in r < position_in (back_up ?r)")
    case True
    then show ?thesis using that(1) bk by (auto simp: later_def)
  next
    case False
    then have "later (advance (back_up ?r)) s" using that(2) same by blast
    then show ?thesis using advance_forward [of "back_up ?r"] bk by (auto simp: later_def)
  qed
  have "later r r' \<and> position_in r < position_in r'"
  proof -
    consider "isdigit ?c" | "?c = CHR 0x22" | "?c = CHR 0x27" | "?c = CHR ''.''" | "?c = CHR '' '' \<or> ?c = CHR 0x0A"
      | t s where "punctuator ?c ?r = Some (t, s)" "r' = s"
      | "lex_symbol ?r = Inr (res, r')"
      using assms(1) by (auto simp: lex_token_def read_char_def Let_def split: if_splits option.splits)
    then show ?thesis
    proof cases
      case 1
      then obtain t where "read_numeric_literal ops (back_up ?r) = Inr (t, r')"
        using assms(1) by (auto simp: lex_token_def read_char_def)
      from read_numeric_literal_later [OF this] 1 show ?thesis by (intro from_back) auto
    next
      case 2
      then have "lex_string ?r = Inr (res, r')" using assms(1) by (simp add: lex_token_def read_char_def isdigit_def between_def)
      then obtain s r1 where "read_string_chars ?r [] = Inr (s, r1)" "r' = r1 \<or> r' = advance r1"
        by (auto simp: lex_string_def split: option.splits)
      then show ?thesis using read_string_chars_later later_advance lt by blast
    next
      case 3
      then have l: "lex_char ?r = (res, r')" using assms(1) by (simp add: lex_token_def read_char_def isdigit_def between_def)
      obtain v r1 where v: "read_char_in_literal ?r = (v, r1)" by (rule prod.exhaust)
      have "later ?r r1" using read_char_in_literal_position [OF v] by (simp add: later_def)
      moreover have "r' = r1 \<or> r' = advance r1" using l v by (auto simp: lex_char_def split: option.splits if_splits)
      ultimately show ?thesis using later_advance lt by blast
    next
      case 4
      then have "lex_dot ops ?r = Inr (res, r')" using assms(1) by (simp add: lex_token_def read_char_def isdigit_def between_def)
      then consider "r' = advance (advance ?r)" | "r' = back_up (advance ?r)" | "r' = ?r"
        | t where "read_float_literal ops (back_up ?r) 10 = Inr (t, r')"
        by (auto simp: lex_dot_def Let_def split: if_splits)
      then show ?thesis
      proof cases
        case 4
        have "char_to_digit CHR ''.'' 10 = None" by (simp add: char_to_digit_def between_def)
        have "later (advance (back_up ?r)) (snd (read_significand (back_up ?r) 10 st))" if "peek_char (back_up ?r) = CHR ''.''" for st
          using that read_significand_later by (subst read_significand.simps) simp
        then show ?thesis using read_float_literal_later [OF 4] read_significand_later later_trans \<open>?c = CHR ''.''\<close>
          by (intro from_back) metis+
      qed (simp_all only: lt later_intros later_refl)
    next
      case 5
      then have "r' = ?r" using assms(1) by (auto simp: lex_token_def read_char_def isdigit_def between_def)
      then show ?thesis by (simp only: lt later_refl)
    next
      case 6
      then show ?thesis using punctuator_later lt by blast
    next
      case 7
      then obtain s where "read_symbol (back_up ?r) = (Some s, r')"
        by (auto simp: lex_symbol_def split: prod.splits option.splits)
      from read_symbol_later [OF this] show ?thesis
        using later_steps(1) by (intro from_back) auto
    qed
  qed
  then show "buffer r' = buffer r" "position_in r < position_in r'" by (simp_all add: later_def)
qed

section \<open>Returning\<close>

lemma read_exponent_returns: "read_exponent r x \<noteq> Inl No_Return"
proof (induction r x rule: read_exponent.induct)
  case (1 r x)
  then show ?case by (subst read_exponent.simps) (auto split: option.split)
qed

lemma read_float_literal_returns: "read_float_literal ops r radix \<noteq> Inl No_Return"
  using read_exponent_returns
  by (auto simp: read_float_literal_def optional_exponent_def double_from_decimal_exponent_def
      rbind_Inl_iff Let_def case_prod_unfold split: if_splits)

lemma read_numeric_literal_returns: "read_numeric_literal ops r \<noteq> Inl No_Return"
  using read_float_literal_returns
  by (auto simp: read_numeric_literal_def Let_def case_prod_unfold split: literal_type.splits)

lemma lex_token_stuck:
  assumes "lex_token ops r = Inl No_Return"
  shows "peek_char r = CHR 0x22 \<and> read_string_chars (advance r) [] = Inl No_Return"
proof -
  have "lex_dot ops (advance r) \<noteq> Inl No_Return" "lex_symbol (advance r) \<noteq> Inl No_Return"
    using read_float_literal_returns
    by (auto simp: lex_dot_def lex_symbol_def Let_def rbind_Inl_iff split: prod.splits option.splits)
  then show ?thesis
    using assms read_numeric_literal_returns
    by (auto simp: lex_token_def read_char_def Let_def rbind_Inl_iff lex_string_def split: if_splits option.splits)
qed

lemma lex_aux_stuck:
  assumes "lex_aux fuel ops r toks = Inl No_Return" "remaining r < fuel"
  shows "\<exists>s. buffer s = buffer r \<and> \<not> at_end s \<and> peek_char s = CHR 0x22 \<and> read_string_chars (advance s) [] = Inl No_Return"
  using assms
proof (induction fuel arbitrary: r toks)
  case (Suc fuel)
  have e: "\<not> at_end r" using Suc.prems by auto
  show ?case
  proof (cases "lex_token ops r")
    case (Inl stop)
    then show ?thesis using Suc.prems e lex_token_stuck [of ops r] by auto
  next
    case (Inr p)
    obtain res r' where p: "p = (res, r')" by (rule prod.exhaust)
    have step: "buffer r' = buffer r" "position_in r < position_in r'"
      using lex_token_progress [OF Inr [unfolded p] e] by simp_all
    then have "remaining r' < fuel" using Suc.prems(2) e by (auto simp: remaining_def at_end_def)
    moreover have "\<exists>toks'. lex_aux fuel ops r' toks' = Inl No_Return"
      using Suc.prems(1) e Inr p by (auto split: lexed.splits)
    ultimately show ?thesis using Suc.IH step(1) by metis
  qed
qed simp

lemma join_onto_returns: "join_onto t ts \<noteq> Inl No_Return"
  by (induction t ts rule: join_onto.induct) (auto split: token.splits)

lemma join_literals_returns: "join_literals ts \<noteq> Inl No_Return"
proof (induction ts rule: join_literals.induct)
  case (2 t ts)
  then show ?case using join_onto_returns [of t ts] by (auto simp: rbind_Inl_iff split: sum.splits)
qed simp


definition no_floats :: float_ops where
  "no_floats = \<lparr>f64_mul = \<lambda>_ _. 0, f64_ldexp = \<lambda>_ _. 0, f64_of_int = \<lambda>_. 0, power_of_ten = \<lambda>_. 0\<rparr>"

definition first_adjustment :: "string \<Rightarrow> adjustment" where
  "first_adjustment name = \<lparr>adjustment_type = NORMAL_ADJUSTMENT, location = 0,
     new_source_loc = \<lparr>loc_filename = name, loc_offset = 0\<rparr>\<rparr>"

text \<open>A text that is a lone quote is such a case.\<close>

lemma unclosed_string_never_returns: "lex ops [CHR 0x22] [first_adjustment name] = Inl No_Return"
  by (simp add: lex_def first_adjustment_def reader_init_def lex_token_def read_char_def peek_char_def at_end_def
      isdigit_def between_def lex_string_def Let_def read_string_chars.simps [of "advance _"] skip_line_ends.simps EOF_def)


end
