(* ===== verification/Naive_Lex_Roundtrip.thy ===== *)
theory Naive_Lex_Roundtrip
  imports Naive_Lex_Properties
begin

text \<open>
  Printed tokens are read back: the texts of tokens, each followed by a space, lex to these
  tokens. In a text without backslashes every step of the reader goes on by one character.
\<close>

section \<open>The text ahead\<close>

definition ahead :: "reader \<Rightarrow> string \<Rightarrow> bool" where
  "ahead r s = (CHR 0x5C \<notin> set (buffer r) \<and> drop (position_in r) (buffer r) = s)"

lemma skip_plain: "CHR 0x5C \<notin> set buf \<Longrightarrow> skip_line_ends buf p = Suc p"
  by (subst skip_line_ends.simps) (auto simp: Let_def, metis Suc_lessD nth_mem)

lemma ahead_peek: "ahead r (c # s) \<Longrightarrow> peek_char r = c"
  by (auto simp: ahead_def peek_char_def at_end_def) (metis hd_drop_conv_nth list.sel(1) not_le)

lemma ahead_at_end: "ahead r s \<Longrightarrow> at_end r \<longleftrightarrow> s = []"
  by (auto simp: ahead_def at_end_def)

lemma ahead_advance: "ahead r (c # s) \<Longrightarrow> ahead (advance r) s"
  by (auto simp: ahead_def skip_plain) (metis drop_Suc list.sel(3) tl_drop)

lemma ahead_back: "ahead r s \<Longrightarrow> ahead (back_up (advance r)) s"
  by (simp add: ahead_def skip_plain)

lemma ahead_moved: "ahead r s \<Longrightarrow> buffer r' = buffer r \<Longrightarrow> position_in r' = position_in r \<Longrightarrow> ahead r' s"
  by (simp add: ahead_def)

section \<open>Numbers\<close>

definition digits_of_radix :: "nat \<Rightarrow> string \<Rightarrow> bool" where
  "digits_of_radix radix ds = (\<forall>d\<in>set ds. char_to_digit d radix = Some (digit_val d))"

lemma read_digits_ahead:
  assumes "digits_of_radix radix ds" "char_to_digit c radix = None" "ahead r (ds @ c # s)"
  shows "fst (read_digits r radix (of_nat n)) = of_nat (foldl (\<lambda>acc c. acc * radix + digit_val c) n ds)
    \<and> ahead (snd (read_digits r radix (of_nat n))) (c # s)"
  using assms
proof (induction ds arbitrary: r n)
  case Nil
  then have "read_digits r radix (of_nat n) = (of_nat n, r)"
    using ahead_peek [of r c s] by (subst read_digits.simps) simp
  then show ?case using Nil by simp
next
  case (Cons d ds)
  have "read_digits r radix (of_nat n) = read_digits (advance r) radix (of_nat (n * radix + digit_val d))"
    using Cons.prems ahead_peek [of r d] by (subst read_digits.simps) (simp add: digits_of_radix_def)
  then show ?case
    using Cons.IH [of "advance r" "n * radix + digit_val d"] Cons.prems ahead_advance [of r d]
    by (simp add: digits_of_radix_def)
qed

lemma skip_digits_ahead:
  assumes "digits_of_radix radix ds" "char_to_digit c radix = None" "ahead r (ds @ c # s)"
  shows "ahead (skip_digits r radix) (c # s)"
  using assms
proof (induction ds arbitrary: r)
  case Nil
  then show ?case using ahead_peek [of r c s] by (subst skip_digits.simps) simp
next
  case (Cons d ds)
  then show ?case
    using ahead_peek [of r d] ahead_advance [of r d] by (subst skip_digits.simps) (simp add: digits_of_radix_def)
qed

lemma digit_char_to_digit: "d < 10 \<Longrightarrow> char_to_digit (digit_char d) 10 = Some d"
  by (auto simp: char_to_digit_def digit_char_def between_def)

lemma digits_radix_10: "digits_of_radix 10 (digits 10 n)"
proof (induction "10::nat" n rule: digits.induct)
  case (1 n)
  then show ?case
    by (subst digits.simps) (auto simp: digits_of_radix_def digit_char_to_digit)
qed

text \<open>Only zero starts with the digit zero.\<close>

lemma digits_zero: "digits 10 n = CHR ''0'' # ds \<Longrightarrow> n = 0 \<and> ds = []"
proof (induction "10::nat" n arbitrary: ds rule: digits.induct)
  case (1 n)
  have d0: "digit_char k = CHR ''0'' \<Longrightarrow> k = 0" if "k < 10" for k
    using that digit_val_char [of k] by (simp add: digit_val_def)
  show ?case
  proof (cases "n < 10")
    case True
    then show ?thesis using 1(2) d0 by (subst (asm) digits.simps) auto
  next
    case False
    then have eq: "digits 10 n = digits 10 (n div 10) @ [digit_char (n mod 10)]" by (subst digits.simps) simp
    moreover obtain x xs where "digits 10 (n div 10) = x # xs" using digits_not_Nil [of 10 "n div 10"]
      by (cases "digits 10 (n div 10)") auto
    ultimately have "n div 10 = 0" using 1 False by auto
    then show ?thesis using False by simp
  qed
qed

lemma classify_ahead:
  assumes "ahead r (digits 10 n @ c # s)" "char_to_digit c 10 = None" "c \<notin> {CHR ''x'', CHR ''.'', CHR ''e'', CHR ''E''}"
  shows "fst (classify_numeric_literal r) = (INT_LITERAL_TYPE, 10)"
proof (cases "digits 10 n = [CHR ''0'']")
  case True
  have a: "ahead (advance r) (c # s)" using assms(1) True ahead_advance [of r "CHR ''0''"] by simp
  have "\<not> isdigit c" using assms(2) digit_in_radix [of c 10] by auto
  moreover have "skip_digits (advance r) 10 = advance r"
    using assms(2) ahead_peek [OF a] by (subst skip_digits.simps) simp
  ultimately show ?thesis
    using assms(1,3) True ahead_peek [of r "CHR ''0''"] ahead_peek [OF a] ahead_at_end [OF a]
    by (simp add: classify_numeric_literal_def expect_char_def Let_def)
next
  case False
  obtain d ds where d: "digits 10 n = d # ds" using digits_not_Nil [of 10 n] by (cases "digits 10 n") auto
  then have "d \<noteq> CHR ''0''" using False digits_zero by blast
  moreover have "ahead (skip_digits r 10) (c # s)" by (rule skip_digits_ahead [OF digits_radix_10 assms(2,1)])
  ultimately show ?thesis
    using assms(1,3) d ahead_peek [of r d] ahead_peek [of "skip_digits r 10" c]
    by (simp add: classify_numeric_literal_def expect_char_def Let_def)
qed

text \<open>The suffixes, as \<^verbatim>\<open>dump_numeric_suffix\<close> prints them.\<close>

definition dump_numeric_suffix :: "numeric_suffix \<Rightarrow> string" where
  "dump_numeric_suffix suffix =
     (if suffix AND UNSIGNED_SUFFIX \<noteq> 0 then ''U'' else []) @ (if suffix AND LONG_SUFFIX \<noteq> 0 then ''L'' else []) @
     (if suffix AND LONG_LONG_SUFFIX \<noteq> 0 then ''LL'' else []) @ (if suffix AND FLOAT_SUFFIX \<noteq> 0 then ''F'' else [])"

definition int_suffixes :: "numeric_suffix set" where
  "int_suffixes = {NO_SUFFIX, UNSIGNED_SUFFIX, LONG_SUFFIX, LONG_LONG_SUFFIX,
     UNSIGNED_SUFFIX OR LONG_SUFFIX, UNSIGNED_SUFFIX OR LONG_LONG_SUFFIX}"

lemma read_suffix_step:
  assumes "ahead r (c # s)"
  shows "c = CHR ''U'' \<Longrightarrow> read_suffix_from r x = read_suffix_from (advance r) (x OR UNSIGNED_SUFFIX)"
    and "c = CHR ''L'' \<Longrightarrow> s = d # s' \<Longrightarrow> d \<noteq> CHR ''L'' \<Longrightarrow>
      read_suffix_from r x = read_suffix_from (advance r) (x OR LONG_SUFFIX)"
    and "c = CHR ''L'' \<Longrightarrow> s = CHR ''L'' # s' \<Longrightarrow>
      read_suffix_from r x = read_suffix_from (advance (advance r)) (x OR LONG_LONG_SUFFIX)"
    and "\<not> is_numeric_suffix_char c \<Longrightarrow> read_suffix_from r x = (x, back_up (advance r))"
  using ahead_peek [OF assms] ahead_at_end [OF assms] ahead_peek [of "advance r"] ahead_advance [OF assms]
  by (subst read_suffix_from.simps; auto simp: is_numeric_suffix_char_def)+

lemma optional_suffix_ahead:
  assumes "suffix \<in> int_suffixes" "ahead r (dump_numeric_suffix suffix @ CHR '' '' # s)"
  shows "\<exists>r'. optional_suffix r = (suffix, r') \<and> ahead r' (CHR '' '' # s)"
proof -
  have blank: "\<not> is_numeric_suffix_char CHR '' ''" by (simp add: is_numeric_suffix_char_def)
  have fin: "read_suffix_from t x = (x, back_up (advance t))" "ahead (back_up (advance t)) (CHR '' '' # s)"
    if "ahead t (CHR '' '' # s)" for t x
    using that read_suffix_step(4) [OF that blank] ahead_back by simp_all
  have u: "is_numeric_suffix_char CHR ''U''" "is_numeric_suffix_char CHR ''L''" by (simp_all add: is_numeric_suffix_char_def)
  note ahd = ahead_peek ahead_advance read_suffix_step(1) [OF _ refl] read_suffix_step(2) [OF _ refl refl]
    read_suffix_step(3) [OF _ refl refl]
  consider "suffix = NO_SUFFIX" | "suffix = UNSIGNED_SUFFIX" | "suffix = LONG_SUFFIX" | "suffix = LONG_LONG_SUFFIX"
    | "suffix = UNSIGNED_SUFFIX OR LONG_SUFFIX" | "suffix = UNSIGNED_SUFFIX OR LONG_LONG_SUFFIX"
    using assms(1) by (auto simp: int_suffixes_def)
  then show ?thesis
  proof cases
    case 1
    then show ?thesis using assms(2) blank ahead_peek [of r "CHR '' ''" s]
      by (simp add: optional_suffix_def dump_numeric_suffix_def suffix_defs)
  next
    case 2
    then have a: "ahead r (CHR ''U'' # CHR '' '' # s)" using assms(2) by (simp add: dump_numeric_suffix_def suffix_defs)
    show ?thesis using fin [OF ahead_advance [OF a]] ahd(1,3) [OF a] u 2
      by (simp add: optional_suffix_def read_numeric_suffix_def suffix_defs)
  next
    case 3
    then have a: "ahead r (CHR ''L'' # CHR '' '' # s)" using assms(2) by (simp add: dump_numeric_suffix_def suffix_defs)
    show ?thesis using fin [OF ahead_advance [OF a]] ahd(1,4) [OF a] u 3
      by (simp add: optional_suffix_def read_numeric_suffix_def suffix_defs)
  next
    case 4
    then have a: "ahead r (CHR ''L'' # CHR ''L'' # CHR '' '' # s)" using assms(2) by (simp add: dump_numeric_suffix_def suffix_defs)
    show ?thesis using fin [OF ahead_advance [OF ahead_advance [OF a]]] ahd(1,5) [OF a] u 4
      by (simp add: optional_suffix_def read_numeric_suffix_def suffix_defs)
  next
    case 5
    then have a: "ahead r (CHR ''U'' # CHR ''L'' # CHR '' '' # s)" using assms(2) by (simp add: dump_numeric_suffix_def suffix_defs)
    show ?thesis
      using fin [OF ahead_advance [OF ahead_advance [OF a]]] ahd(1,3) [OF a] ahd(4) [OF ahead_advance [OF a]] u 5
      by (simp add: optional_suffix_def read_numeric_suffix_def suffix_defs)
  next
    case 6
    then have a: "ahead r (CHR ''U'' # CHR ''L'' # CHR ''L'' # CHR '' '' # s)"
      using assms(2) by (simp add: dump_numeric_suffix_def suffix_defs)
    show ?thesis
      using fin [OF ahead_advance [OF ahead_advance [OF ahead_advance [OF a]]]] ahd(1,3) [OF a]
        ahd(5) [OF ahead_advance [OF a]] u 6
      by (simp add: optional_suffix_def read_numeric_suffix_def suffix_defs)
  qed
qed

lemma suffix_head:
  assumes "suffix \<in> int_suffixes"
  shows "\<exists>c t. dump_numeric_suffix suffix @ CHR '' '' # s = c # t \<and> c \<in> {CHR ''U'', CHR ''L'', CHR '' ''}"
  using assms by (auto simp: int_suffixes_def dump_numeric_suffix_def suffix_defs)

lemma read_numeric_literal_ahead:
  assumes "int_suffix i \<in> int_suffixes"
    and "ahead r (fmt_u (int_value i) @ dump_numeric_suffix (int_suffix i) @ CHR '' '' # s)"
  shows "\<exists>r'. read_numeric_literal ops r = Inr (TOK_INT_LITERAL i, r') \<and> ahead r' (CHR '' '' # s)"
proof -
  obtain c t where c: "dump_numeric_suffix (int_suffix i) @ CHR '' '' # s = c # t" "c \<in> {CHR ''U'', CHR ''L'', CHR '' ''}"
    using suffix_head [OF assms(1)] by blast
  have a: "ahead r (digits 10 (unat (int_value i)) @ c # t)" using assms(2) c(1) by (simp add: fmt_u_def)
  have n: "char_to_digit c 10 = None" using c(2) by (auto simp: char_to_digit_def between_def)
  have k: "fst (classify_numeric_literal r) = (INT_LITERAL_TYPE, 10)" using c(2) by (intro classify_ahead [OF a n]) auto
  let ?r = "(snd (classify_numeric_literal r))\<lparr>position_in := position_in r, adjusted_position := adjusted_position r\<rparr>"
  have "ahead ?r (digits 10 (unat (int_value i)) @ c # t)" by (rule ahead_moved [OF a]) (simp_all add: classify_fields)
  from read_digits_ahead [OF digits_radix_10 n this, of 0]
  have d: "fst (read_digits ?r 10 0) = int_value i" "ahead (snd (read_digits ?r 10 0)) (c # t)"
    using digits_value_digits [of 10 "unat (int_value i)"] by (simp_all add: digits_value_def)
  obtain r' where "optional_suffix (snd (read_digits ?r 10 0)) = (int_suffix i, r')" "ahead r' (CHR '' '' # s)"
    using optional_suffix_ahead [OF assms(1), of "snd (read_digits ?r 10 0)" s] d(2) c(1) by auto
  then show ?thesis using d(1) k
    by (simp add: read_numeric_literal_def read_int_literal_def Let_def case_prod_unfold)
qed

section \<open>Symbols, strings and punctuators\<close>

lemma read_ident_ahead:
  assumes "\<forall>c\<in>set cs. ident_char c" "ahead r (cs @ CHR '' '' # s)"
  shows "ahead (read_ident r) (CHR '' '' # s) \<and> position_in (read_ident r) = position_in r + length cs \<and>
    filename (read_ident r) = filename r"
  using assms
proof (induction cs arbitrary: r)
  case Nil
  then have "read_ident r = r"
    using ahead_peek [of r "CHR '' ''" s]
    by (subst read_ident.simps) (simp add: ident_char_def initial_ident_char_def between_def)
  then show ?case using Nil by simp
next
  case (Cons c cs)
  then have "read_ident r = read_ident (advance r)"
    using ahead_peek [of r c] ahead_at_end [OF Cons.prems(2)] by (subst read_ident.simps) simp
  moreover have "position_in (advance r) = Suc (position_in r)"
    using Cons.prems(2) by (simp add: ahead_def skip_plain)
  ultimately show ?case using Cons.IH [of "advance r"] Cons.prems ahead_advance [of r c] by simp
qed

lemma read_symbol_ahead:
  assumes "initial_ident_char c" "\<forall>c\<in>set cs. ident_char c" "ahead r ((c # cs) @ CHR '' '' # s)"
  shows "\<exists>r'. read_symbol r = (Some (c # cs), r') \<and> ahead r' (CHR '' '' # s)"
proof -
  have ids: "\<forall>c\<in>set (c # cs). ident_char c" using assms(1,2) by (simp add: ident_char_def)
  have "drop (position_in r) (buffer r) = (c # cs) @ CHR '' '' # s" using assms(3) by (simp add: ahead_def)
  then show ?thesis
    using read_ident_ahead [OF ids assms(3)] assms(1) ahead_peek [of r c] assms(3)
    by (simp add: read_symbol_def Let_def)
qed

lemma read_string_chars_ahead:
  assumes "CHR 0x22 \<notin> set cs" "ahead r (cs @ CHR 0x22 # s)"
  shows "\<exists>r'. read_string_chars r acc = Inr (Some (acc @ cs), r') \<and> ahead r' (CHR 0x22 # s)"
  using assms
proof (induction cs arbitrary: r acc)
  case Nil
  then show ?case using ahead_peek [of r] by (subst read_string_chars.simps) auto
next
  case (Cons c cs)
  have a: "ahead r (c # cs @ CHR 0x22 # s)" using Cons.prems(2) by simp
  then have "c \<noteq> CHR 0x5C" by (metis ahead_def in_set_dropD list.set_intros(1))
  moreover have lt: "(of_char c :: nat) \<le> 255" using nat_of_char_less_256 [of c] by linarith
  moreover have m: "(of_char c :: nat) mod 18446744073709551616 = of_char c" using lt by (intro mod_less) linarith
  ultimately have "read_char_in_literal r = (Some (of_nat (of_char c)), advance r)"
    using ahead_peek [OF a]
    by (simp add: read_char_in_literal_def literal_value_def read_char_def word_less_nat_alt unat_of_nat not_less)
  then have "read_string_chars r acc = read_string_chars (advance r) (acc @ [c])"
    using Cons.prems(1) ahead_peek [OF a] ahead_at_end [OF a]
    by (subst read_string_chars.simps) (auto simp: unat_of_nat m)
  then show ?case using Cons.IH [of "advance r" "acc @ [c]"] Cons.prems(1) ahead_advance [OF a] by simp
qed

definition punctuators :: "(token \<times> string) list" where
  "punctuators =
     [(TOK_PLUS, ''+''), (TOK_INCREMENT, ''++''), (TOK_PLUS_ASSIGN, ''+=''),
      (TOK_MINUS, ''-''), (TOK_DECREMENT, ''--''), (TOK_MINUS_ASSIGN, ''-=''), (TOK_ARROW, ''->''),
      (TOK_ASTERISK, ''*''), (TOK_MULTIPLY_ASSIGN, ''*=''), (TOK_DIVIDE, ''/''), (TOK_DIVIDE_ASSIGN, ''/=''),
      (TOK_MODULO, ''%''), (TOK_MODULO_ASSIGN, ''%=''),
      (TOK_AMPERSAND, ''&''), (TOK_LOGICAL_AND, ''&&''), (TOK_BIT_AND_ASSIGN, ''&=''),
      (TOK_BIT_OR, ''|''), (TOK_LOGICAL_OR, ''||''), (TOK_BIT_OR_ASSIGN, ''|=''),
      (TOK_BIT_XOR, ''^''), (TOK_BIT_XOR_ASSIGN, ''^=''), (TOK_ASSIGN, ''=''), (TOK_EQUAL, ''==''),
      (TOK_LOGICAL_NOT, ''!''), (TOK_NOT_EQUAL, ''!=''),
      (TOK_LESS_THAN, ''<''), (TOK_LESS_THAN_OR_EQUAL, ''<=''), (TOK_LEFT_SHIFT, ''<<''), (TOK_LEFT_SHIFT_ASSIGN, ''<<=''),
      (TOK_GREATER_THAN, ''>''), (TOK_GREATER_THAN_OR_EQUAL, ''>=''), (TOK_RIGHT_SHIFT, ''>>''), (TOK_RIGHT_SHIFT_ASSIGN, ''>>=''),
      (TOK_DOT, ''.''), (TOK_ELLIPSIS, ''...''), (TOK_BIT_NOT, ''~''), (TOK_QUESTION_MARK, ''?''),
      (TOK_COLON, '':''), (TOK_SEMICOLON, '';''), (TOK_COMMA, '',''), (TOK_LCURLY, ''{''), (TOK_RCURLY, ''}''),
      (TOK_LROUND, ''(''), (TOK_RROUND, '')''), (TOK_LSQUARE, ''[''), (TOK_RSQUARE, '']'')]"

definition lexes_as :: "float_ops \<Rightarrow> reader \<Rightarrow> token \<Rightarrow> string \<Rightarrow> bool" where
  "lexes_as ops r t s = (\<exists>r'. lex_token ops r = Inr (Got t True, r') \<and> ahead r' (CHR '' '' # s))"

lemma lexes_one:
  assumes "ahead r (c # CHR '' '' # s)"
    and "peek_char r = c \<Longrightarrow> peek_char (advance r) = CHR '' '' \<Longrightarrow> lex_token ops r = Inr (Got t True, advance r)"
  shows "lexes_as ops r t s"
  using assms ahead_peek ahead_advance unfolding lexes_as_def by blast

lemma lexes_two:
  assumes "ahead r (c # d # CHR '' '' # s)"
    and "peek_char r = c \<Longrightarrow> peek_char (advance r) = d \<Longrightarrow> peek_char (advance (advance r)) = CHR '' '' \<Longrightarrow>
      lex_token ops r = Inr (Got t True, advance (advance r))"
  shows "lexes_as ops r t s"
  using assms(2) ahead_peek [OF assms(1)] ahead_peek [OF ahead_advance [OF assms(1)]]
    ahead_peek [OF ahead_advance [OF ahead_advance [OF assms(1)]]] ahead_advance [OF ahead_advance [OF assms(1)]]
  unfolding lexes_as_def by blast

lemma lexes_three:
  assumes "ahead r (c # d # e # CHR '' '' # s)"
    and "peek_char r = c \<Longrightarrow> peek_char (advance r) = d \<Longrightarrow> peek_char (advance (advance r)) = e \<Longrightarrow>
      lex_token ops r = Inr (Got t True, advance (advance (advance r)))"
  shows "lexes_as ops r t s"
  using assms(2) ahead_peek [OF assms(1)] ahead_peek [OF ahead_advance [OF assms(1)]]
    ahead_peek [OF ahead_advance [OF ahead_advance [OF assms(1)]]]
    ahead_advance [OF ahead_advance [OF ahead_advance [OF assms(1)]]]
  unfolding lexes_as_def by blast

lemmas punctuator_defs = lex_token_def read_char_def Let_def isdigit_def between_def lex_dot_def punctuator_def
  if_next_def if_next_two_def

lemma lex_token_punctuators:
  "list_all (\<lambda>(t, pt). \<forall>r. ahead r (pt @ CHR '' '' # s) \<longrightarrow> lexes_as ops r t s) punctuators"
  unfolding punctuators_def list.pred_inject prod.case append.simps
  by (intro conjI allI impI list.pred_inject(1); erule lexes_three lexes_two lexes_one, simp add: punctuator_defs)

section \<open>Token sequences\<close>

definition token_text :: "token \<Rightarrow> string" where
  "token_text t =
     (case t of
        TOK_INT_LITERAL i \<Rightarrow> fmt_u (int_value i) @ dump_numeric_suffix (int_suffix i)
      | TOK_SYMBOL s \<Rightarrow> s
      | TOK_STRING_LITERAL s \<Rightarrow> CHR 0x22 # s @ [CHR 0x22]
      | _ \<Rightarrow> the (map_of punctuators t))"

definition printable :: "token \<Rightarrow> bool" where
  "printable t =
     (case t of
        TOK_INT_LITERAL i \<Rightarrow> int_suffix i \<in> int_suffixes
      | TOK_SYMBOL s \<Rightarrow> s \<noteq> [] \<and> initial_ident_char (hd s) \<and> (\<forall>c\<in>set s. ident_char c) \<and>
          s \<noteq> ''__LINE__'' \<and> s \<noteq> ''__FILE__''
      | TOK_STRING_LITERAL s \<Rightarrow> CHR 0x22 \<notin> set s \<and> CHR 0x5C \<notin> set s
      | _ \<Rightarrow> t \<in> fst ` set punctuators)"

lemma punctuators_plain: "list_all (\<lambda>(t, pt). CHR 0x5C \<notin> set pt) punctuators"
  by (simp add: punctuators_def)

lemma decimal_chars: "c \<in> set (digits 10 n) \<Longrightarrow> isdigit c"
  using digits_decimal [of c n] by (simp add: decimal_def isdigit_def between_def)

lemma ident_not_backslash: "ident_char c \<Longrightarrow> c \<noteq> CHR 0x5C"
  by (auto simp: ident_char_def initial_ident_char_def between_def)

lemma token_text_plain:
  assumes "printable t"
  shows "CHR 0x5C \<notin> set (token_text t)"
proof (cases "t \<in> fst ` set punctuators")
  case True
  then obtain pt where "map_of punctuators t = Some pt" by (metis map_of_eq_None_iff not_None_eq)
  moreover from this have "CHR 0x5C \<notin> set pt"
    using punctuators_plain map_of_SomeD [of punctuators t pt] by (auto simp: list_all_iff)
  moreover have "token_text t = the (map_of punctuators t)"
    using True by (auto simp: token_text_def punctuators_def)
  ultimately show ?thesis by simp
next
  case False
  have "CHR 0x5C \<notin> set (digits 10 n)" for n using decimal_chars [of "CHR 0x5C" n] by (auto simp: isdigit_def between_def)
  moreover have "\<not> ident_char CHR 0x5C" using ident_not_backslash by blast
  ultimately show ?thesis using assms False
    by (auto simp: token_text_def printable_def dump_numeric_suffix_def fmt_u_def split: token.splits)
qed

lemma not_punctuator:
  assumes "initial_ident_char c"
  shows "punctuator c r = None" "\<not> isdigit c" "c \<notin> {CHR 0x22, CHR 0x27, CHR ''.'', CHR '' '', CHR 0x0A}"
proof -
  have "(of_char c :: nat) \<in> {97..122} \<union> {65..90} \<union> {95}"
    using assms by (auto simp: initial_ident_char_def between_def)
  then have ne: "c \<noteq> d" if "(of_char d :: nat) \<notin> {97..122} \<union> {65..90} \<union> {95}" for d using that by auto
  show "c \<notin> {CHR 0x22, CHR 0x27, CHR ''.'', CHR '' '', CHR 0x0A}" by (simp add: ne)
  show "\<not> isdigit c" using assms by (auto simp: initial_ident_char_def isdigit_def between_def)
  show "punctuator c r = None" by (simp add: punctuator_def ne)
qed

lemma lexes_symbol:
  assumes "printable (TOK_SYMBOL x)" "ahead r (x @ CHR '' '' # s)"
  shows "lexes_as ops r (TOK_SYMBOL x) s"
proof -
  obtain c cs where x: "x = c # cs" using assms(1) by (cases x) (auto simp: printable_def)
  have c: "initial_ident_char c" "\<forall>c\<in>set cs. ident_char c" "x \<noteq> ''__LINE__''" "x \<noteq> ''__FILE__''"
    using assms(1) x by (auto simp: printable_def)
  have a: "ahead (back_up (advance r)) ((c # cs) @ CHR '' '' # s)" using ahead_back [OF assms(2)] x by simp
  obtain r' where "read_symbol (back_up (advance r)) = (Some x, r')" "ahead r' (CHR '' '' # s)"
    using read_symbol_ahead [OF c(1,2) a] x by auto
  then have "lex_symbol (advance r) = Inr (Got (TOK_SYMBOL x) True, r')" "ahead r' (CHR '' '' # s)"
    using c(3,4) by (simp_all add: lex_symbol_def)
  moreover have "peek_char r = c" using assms(2) x ahead_peek by simp
  ultimately show ?thesis using not_punctuator [OF c(1)] by (auto simp: lexes_as_def lex_token_def read_char_def)
qed

lemma lexes_number:
  assumes "printable (TOK_INT_LITERAL i)" "ahead r (token_text (TOK_INT_LITERAL i) @ CHR '' '' # s)"
  shows "lexes_as ops r (TOK_INT_LITERAL i) s"
proof -
  obtain d ds where d: "digits 10 (unat (int_value i)) = d # ds"
    using digits_not_Nil [of 10 "unat (int_value i)"] by (cases "digits 10 (unat (int_value i))") auto
  have "isdigit d" using decimal_chars [of d "unat (int_value i)"] d by simp
  moreover have "peek_char r = d" using assms(2) d ahead_peek by (simp add: token_text_def fmt_u_def)
  moreover obtain r' where "read_numeric_literal ops (back_up (advance r)) = Inr (TOK_INT_LITERAL i, r')" "ahead r' (CHR '' '' # s)"
    using read_numeric_literal_ahead [of i "back_up (advance r)" s ops] assms ahead_back [OF assms(2)]
    by (auto simp: printable_def token_text_def)
  ultimately show ?thesis by (simp add: lexes_as_def lex_token_def read_char_def)
qed

lemma lexes_string:
  assumes "printable (TOK_STRING_LITERAL x)" "ahead r (token_text (TOK_STRING_LITERAL x) @ CHR '' '' # s)"
  shows "lexes_as ops r (TOK_STRING_LITERAL x) s"
proof -
  have a: "ahead r (CHR 0x22 # x @ CHR 0x22 # CHR '' '' # s)" using assms(2) by (simp add: token_text_def)
  obtain r' where "read_string_chars (advance r) [] = Inr (Some x, r')" "ahead r' (CHR 0x22 # CHR '' '' # s)"
    using read_string_chars_ahead [OF _ ahead_advance [OF a], of "[]"] assms(1) by (auto simp: printable_def)
  then show ?thesis using ahead_peek [OF a] ahead_advance [of r' "CHR 0x22"]
    by (auto simp: lexes_as_def lex_token_def read_char_def isdigit_def between_def lex_string_def)
qed

lemma lexes_token:
  assumes "printable t" "ahead r (token_text t @ CHR '' '' # s)"
  shows "lexes_as ops r t s"
proof (cases "t \<in> fst ` set punctuators")
  case True
  then obtain pt where pt: "map_of punctuators t = Some pt" by (metis map_of_eq_None_iff not_None_eq)
  moreover have "token_text t = the (map_of punctuators t)"
    using True by (auto simp: token_text_def punctuators_def)
  ultimately show ?thesis
    using assms(2) lex_token_punctuators [of s ops] map_of_SomeD [OF pt] by (auto simp: list_all_iff)
next
  case False
  then consider i where "t = TOK_INT_LITERAL i" | x where "t = TOK_SYMBOL x" | x where "t = TOK_STRING_LITERAL x"
    using assms(1) by (cases t) (auto simp: printable_def)
  then show ?thesis
    using assms lexes_number lexes_string lexes_symbol by cases (auto simp: token_text_def)
qed

definition print_tokens :: "token list \<Rightarrow> string" where
  "print_tokens ts = concat (map (\<lambda>t. token_text t @ '' '') ts)"

lemma ahead_remaining: "ahead r s \<Longrightarrow> remaining r = length s"
  by (auto simp: ahead_def remaining_def)

lemma lex_aux_tokens:
  assumes "\<forall>t\<in>set ts. printable t" "ahead r (print_tokens ts)" "length (print_tokens ts) < fuel"
  shows "\<exists>out. lex_aux fuel ops r toks = Inr (toks @ out, True) \<and> map token_of out = ts \<and> (\<forall>t\<in>set out. owned t)"
  using assms
proof (induction ts arbitrary: fuel r toks)
  case Nil
  then show ?case by (cases fuel) (auto simp: print_tokens_def ahead_at_end)
next
  case (Cons t ts)
  have a: "ahead r (token_text t @ CHR '' '' # print_tokens ts)" using Cons.prems(2) by (simp add: print_tokens_def)
  then have e: "\<not> at_end r" by (simp add: ahead_at_end)
  obtain r' where r': "lex_token ops r = Inr (Got t True, r')" "ahead r' (CHR '' '' # print_tokens ts)"
    using lexes_token [OF _ a, of ops] Cons.prems(1) by (auto simp: lexes_as_def)
  have "length (CHR '' '' # print_tokens ts) < length (print_tokens (t # ts))"
    using lex_token_progress [OF r'(1) e] ahead_remaining [OF r'(2)] ahead_remaining [OF Cons.prems(2)] e
    by (auto simp: remaining_def at_end_def)
  then obtain f where f: "fuel = Suc (Suc f)" "length (print_tokens ts) < f"
    using Cons.prems(3) by (intro that [of "fuel - 2"]) simp_all
  let ?tok = "\<lparr>token_of = t, owned = True, token_range = range_from r' (reader_source_loc r)\<rparr>"
  have "lex_token ops r' = Inr (Got_Nothing, advance r')"
    using ahead_peek [OF r'(2)] by (simp add: lex_token_def read_char_def isdigit_def between_def)
  then have step: "lex_aux fuel ops r toks = lex_aux f ops (advance r') (toks @ [?tok])"
    using f(1) e r' ahead_at_end [OF r'(2)] by simp
  obtain out where "lex_aux f ops (advance r') (toks @ [?tok]) = Inr ((toks @ [?tok]) @ out, True)"
    "map token_of out = ts" "\<forall>t\<in>set out. owned t"
    using Cons.IH [OF _ ahead_advance [OF r'(2)] f(2), of "toks @ [?tok]"] Cons.prems(1) by auto
  then show ?case using step by (intro exI [of _ "?tok # out"]) simp
qed

text \<open>The joining of adjacent string literals.\<close>

fun merge_strings :: "token list \<Rightarrow> token list" where
  "merge_strings (TOK_STRING_LITERAL a # TOK_STRING_LITERAL b # ts) = merge_strings (TOK_STRING_LITERAL (a @ b) # ts)"
| "merge_strings (t # ts) = t # merge_strings ts"
| "merge_strings [] = []"

lemma join_onto_merges:
  assumes "owned t" "\<forall>t\<in>set ts. owned t"
  shows "\<exists>t' ts'. join_onto t ts = Inr (t', ts') \<and> (\<forall>t\<in>set ts'. owned t) \<and>
    merge_strings (token_of t # map token_of ts) = token_of t' # merge_strings (map token_of ts')"
  using assms
proof (induction t ts rule: join_onto.induct)
  case (1 t)
  then show ?case by (cases "token_of t") auto
next
  case (2 t u ts)
  show ?case
  proof (cases "\<exists>a b. token_of t = TOK_STRING_LITERAL a \<and> token_of u = TOK_STRING_LITERAL b")
    case True
    then obtain a b where ab: "token_of t = TOK_STRING_LITERAL a" "token_of u = TOK_STRING_LITERAL b" by blast
    then show ?thesis using "2.IH" [OF refl ab] "2.prems" by simp
  next
    case False
    then have "join_onto t (u # ts) = Inr (t, u # ts)" by (auto split: token.split)
    moreover have "merge_strings (token_of t # token_of u # map token_of ts)
        = token_of t # merge_strings (token_of u # map token_of ts)"
      using False by (cases "token_of t"; cases "token_of u") auto
    ultimately show ?thesis using "2.prems" by simp
  qed
qed

lemma join_literals_merges:
  assumes "\<forall>t\<in>set ts. owned t"
  shows "\<exists>out. join_literals ts = Inr out \<and> map token_of out = merge_strings (map token_of ts)"
  using assms
proof (induction ts rule: join_literals.induct)
  case (2 t ts)
  obtain t' ts' where j: "join_onto t ts = Inr (t', ts')" "\<forall>t\<in>set ts'. owned t"
    "merge_strings (token_of t # map token_of ts) = token_of t' # merge_strings (map token_of ts')"
    using join_onto_merges [of t ts] "2.prems" by auto
  then show ?case using "2.IH" [OF j(1) refl] by auto
qed simp

text \<open>
  C4. Lexing is the inverse of printing: a sequence of integer literals with C suffixes, symbols,
  string literals without quotes and backslashes and punctuators, printed with a space after each
  token, lexes without an error to the same tokens, with runs of adjacent string literals joined.
\<close>

theorem lex_print_tokens:
  assumes "\<forall>t\<in>set ts. printable t" "location a = 0" "adjustment_type a = NORMAL_ADJUSTMENT"
  shows "\<exists>toks. lex ops (print_tokens ts) (a # adjs) = Inr (toks, True) \<and> map token_of toks = merge_strings ts"
proof -
  let ?r = "reader_init (print_tokens ts) (a # adjs) False (loc_filename (new_source_loc a))\<lparr>next_adjustment := 1\<rparr>"
  have "CHR 0x5C \<notin> set (print_tokens ts)" using assms(1) token_text_plain by (auto simp: print_tokens_def)
  then have ah: "ahead ?r (print_tokens ts)" by (simp add: ahead_def reader_init_def)
  obtain out where out: "lex_aux (Suc (length (print_tokens ts))) ops ?r [] = Inr (out, True)"
    "map token_of out = ts" "\<forall>t\<in>set out. owned t"
    using lex_aux_tokens [OF assms(1) ah lessI, of ops "[]"] by auto
  then show ?thesis
    using assms(2,3) join_literals_merges [OF out(3)] by (auto simp: lex_def Let_def simp del: lex_aux.simps)
qed

theorem lex_print_tokens_witness:
  "\<exists>toks. lex no_floats ''x = 42UL ; '' [first_adjustment ''a.c''] = Inr (toks, True) \<and>
     map token_of toks = [TOK_SYMBOL ''x'', TOK_ASSIGN,
       TOK_INT_LITERAL \<lparr>int_value = 42, int_suffix = UNSIGNED_SUFFIX OR LONG_SUFFIX\<rparr>, TOK_SEMICOLON]"
proof -
  let ?ts = "[TOK_SYMBOL ''x'', TOK_ASSIGN,
     TOK_INT_LITERAL \<lparr>int_value = 42, int_suffix = UNSIGNED_SUFFIX OR LONG_SUFFIX\<rparr>, TOK_SEMICOLON]"
  have "print_tokens ?ts = ''x = 42UL ; ''"
    by code_simp
  moreover have "\<forall>t\<in>set ?ts. printable t"
    by (simp add: printable_def punctuators_def int_suffixes_def initial_ident_char_def ident_char_def between_def)
  ultimately show ?thesis
    using lex_print_tokens [of ?ts "first_adjustment ''a.c''" no_floats "[]"] by (simp add: first_adjustment_def)
qed

section \<open>Locations after numbers\<close>

text \<open>
  The classification of a number moves the next adjustment of the reader on, and it is not moved
  back with the position: an adjustment at the end of a number, as at the end of the expansion of
  a macro to a number, is lost, and the following tokens keep the locations of the expansion. After
  a symbol of the same length they get the location of the adjustment.
\<close>

definition macro_end :: "adjustment list" where
  "macro_end = [first_adjustment ''a.c'', \<lparr>adjustment_type = END_MACRO_ADJUSTMENT, location = 2,
     new_source_loc = \<lparr>loc_filename = ''a.c'', loc_offset = 14\<rparr>\<rparr>]"

definition start_offsets :: "(source_token list \<times> bool) run \<Rightarrow> u32 list" where
  "start_offsets res =
     (case res of Inr (toks, _) \<Rightarrow> map (\<lambda>t. loc_offset (range_start (token_range t))) toks | Inl _ \<Rightarrow> [])"

lemma number_loses_adjustment:
  "start_offsets (lex no_floats ''ab;'' macro_end) = [0, 14]"
  "start_offsets (lex no_floats ''12;'' macro_end) = [0, 2]"
  by code_simp+

end
