(* ===== verification/Naive_File.thy ===== *)
theory Naive_File
  imports Naive_Asm
begin

text \<open>
  Files as the tools use them (\<^verbatim>\<open>src/src/file.h\<close>, \<^verbatim>\<open>file.c\<close>): the bytes of an open file and
  the position in it, with the checked wrappers of the standard input and output functions, the
  kind of a file by its first bytes, and archives. Writing past the end fills the gap with zero
  bytes, as POSIX says of a file position beyond the end. Opening a file may fail; reads, writes
  and seeks of an open file do what was asked for, but a read past the end does not give the
  requested number of items.
\<close>

record c_file =
  fbytes :: "u8 list"
  fposition :: nat

definition open_file :: "u8 list \<Rightarrow> c_file" where
  "open_file bs = \<lparr>fbytes = bs, fposition = 0\<rparr>"

definition overwrite :: "u8 list \<Rightarrow> nat \<Rightarrow> u8 list \<Rightarrow> u8 list" where
  "overwrite bs p xs = take p bs @ replicate (p - length bs) 0 @ xs @ drop (p + length xs) bs"

definition checked_fwrite :: "c_file \<Rightarrow> u8 list \<Rightarrow> c_file" where
  "checked_fwrite f xs =
     (if xs = [] then f
      else f\<lparr>fbytes := overwrite (fbytes f) (fposition f) xs, fposition := fposition f + length xs\<rparr>)"

definition checked_ftell :: "c_file \<Rightarrow> nat" where
  "checked_ftell f = fposition f"

definition checked_fseek :: "c_file \<Rightarrow> nat \<Rightarrow> c_file" where
  "checked_fseek f p = f\<lparr>fposition := p\<rparr>"

text \<open>\<^verbatim>\<open>fread\<close> of one item of \<open>n\<close> bytes, \<open>None\<close> where it returns 0, and its checked form.\<close>

definition fread_item :: "c_file \<Rightarrow> nat \<Rightarrow> (u8 list \<times> c_file) option" where
  "fread_item f n =
     (if fposition f + n \<le> length (fbytes f)
      then Some (take n (drop (fposition f) (fbytes f)), f\<lparr>fposition := fposition f + n\<rparr>) else None)"

abbreviation io_error :: "'a run" where
  "io_error \<equiv> Inl (Exit EXIT_CODE_IO_ERROR)"

definition checked_fread :: "c_file \<Rightarrow> nat \<Rightarrow> (u8 list \<times> c_file) run" where
  "checked_fread f n =
     (if n = 0 then Inr ([], f) else case fread_item f n of None \<Rightarrow> io_error | Some r \<Rightarrow> Inr r)"

section \<open>Characters and integers as bytes\<close>

definition char_byte :: "char \<Rightarrow> u8" where
  "char_byte c = of_nat (of_char c)"

definition byte_char :: "u8 \<Rightarrow> char" where
  "byte_char b = char_of (unat b)"

definition string_bytes :: "string \<Rightarrow> u8 list" where
  "string_bytes s = map char_byte s"

definition bytes_string :: "u8 list \<Rightarrow> string" where
  "bytes_string bs = map byte_char bs"

text \<open>The \<open>n\<close> low bytes of a number, least significant first: a field of a structure.\<close>

definition le :: "nat \<Rightarrow> u64 \<Rightarrow> u8 list" where
  "le n x = map (int_byte x) [0..<n]"

definition field :: "u8 list \<Rightarrow> nat \<Rightarrow> nat \<Rightarrow> u64" where
  "field bs off n = read_int (take n (drop off bs))"

text \<open>The zero-terminated string at an offset of a buffer.\<close>

definition c_string_at :: "u8 list \<Rightarrow> nat \<Rightarrow> string run" where
  "c_string_at bs i =
     (let rest = drop i bs in
      if 0 \<in> set rest then Inr (bytes_string (takeWhile (\<lambda>b. b \<noteq> 0) rest)) else undefined_behaviour)"

section \<open>Kinds of files\<close>

datatype file_kind = ELF_FILE_TYPE | AR_FILE_TYPE | UNKNOWN_FILE_TYPE

definition ELF_MAGIC :: string where
  "ELF_MAGIC = [CHR 0x7F, CHR ''E'', CHR ''L'', CHR ''F'']"

definition AR_GLOBAL_HEADER :: string where
  "AR_GLOBAL_HEADER = [CHR 0x21, CHR 0x3C, CHR ''a'', CHR ''r'', CHR ''c'', CHR ''h'', CHR 0x3E, CHR 0x0A]"

definition file_type_of_bytes :: "u8 list \<Rightarrow> file_kind" where
  "file_type_of_bytes bs =
     (if length bs \<ge> 4 \<and> strneq (bytes_string bs) ELF_MAGIC 4 then ELF_FILE_TYPE
      else if length bs \<ge> length AR_GLOBAL_HEADER \<and>
        strneq (bytes_string bs) AR_GLOBAL_HEADER (length AR_GLOBAL_HEADER) then AR_FILE_TYPE
      else UNKNOWN_FILE_TYPE)"

definition file_type :: "c_file \<Rightarrow> file_kind" where
  "file_type f = file_type_of_bytes (take 8 (drop (fposition f) (fbytes f)))"

section \<open>Archive members\<close>

record ar_file_header =
  ar_name :: string
  modification_timestamp_decimal :: string
  owner_id_decimal :: string
  group_id_decimal :: string
  mode_octal :: string
  size_bytes_decimal :: string
  ar_magic :: string

definition encode_ar_header :: "ar_file_header \<Rightarrow> u8 list" where
  "encode_ar_header h = string_bytes (ar_name h @ modification_timestamp_decimal h @ owner_id_decimal h @
     group_id_decimal h @ mode_octal h @ size_bytes_decimal h @ ar_magic h)"

definition decode_ar_header :: "u8 list \<Rightarrow> ar_file_header" where
  "decode_ar_header bs =
     (let part = (\<lambda>i n. take n (drop i (bytes_string bs)))
      in \<lparr>ar_name = part 0 16, modification_timestamp_decimal = part 16 12, owner_id_decimal = part 28 6,
          group_id_decimal = part 34 6, mode_octal = part 40 8, size_bytes_decimal = part 48 10, ar_magic = part 58 2\<rparr>)"

text \<open>\<^verbatim>\<open>atol\<close> of the C library here (\<^verbatim>\<open>src/libc/atol.c\<close>): the leading digits.\<close>

fun atol_loop :: "int \<Rightarrow> string \<Rightarrow> int" where
  "atol_loop x [] = x"
| "atol_loop x (c # cs) = (if (48 :: nat) \<le> of_char c \<and> (of_char c :: nat) \<le> 57 then atol_loop (x * 10 + of_char c - 48) cs else x)"

definition atol :: "string \<Rightarrow> int" where
  "atol s = atol_loop 0 s"

section \<open>Round trips\<close>

lemma char_byte_inverse [simp]: "byte_char (char_byte c) = c"
  by (simp add: char_byte_def byte_char_def unat_of_nat)

lemma byte_char_inverse [simp]: "char_byte (byte_char b) = b"
  using unsigned_less [of b, where 'a = nat] by (simp add: char_byte_def byte_char_def)

lemma string_bytes_inverse [simp]: "bytes_string (string_bytes s) = s"
  by (simp add: bytes_string_def string_bytes_def comp_def)

lemma bytes_string_inverse [simp]: "string_bytes (bytes_string bs) = bs"
  by (simp add: bytes_string_def string_bytes_def comp_def)

lemma string_bytes_simps [simp]: "length (string_bytes s) = length s" "string_bytes [] = []"
  "string_bytes (s @ t) = string_bytes s @ string_bytes t"
  by (simp_all add: string_bytes_def)

lemma length_le [simp]: "length (le n x) = n"
  by (simp add: le_def)

lemma read_le: "n \<le> 8 \<Longrightarrow> read_int (le n x) = take_bit (n * 8) x"
  using read_int_bytes [of 0 n x] by (simp add: le_def)

lemma field_here: "n \<le> 8 \<Longrightarrow> field (le n x @ bs) 0 n = take_bit (n * 8) x"
  by (simp add: field_def read_le)

lemma field_skip: "length as \<le> off \<Longrightarrow> field (as @ bs) off n = field bs (off - length as) n"
  by (simp add: field_def)

lemma take_bit_ucast:
  "(take_bit 16 (ucast (a :: u16)) :: u64) = ucast a" "(take_bit 32 (ucast (b :: u32)) :: u64) = ucast b"
  "(take_bit 8 (ucast (c :: u8)) :: u64) = ucast c" "(take_bit 64 d :: u64) = d"
  by (rule bit_word_eqI; auto simp: bit_take_bit_iff bit_unsigned_iff dest: bit_imp_le_length)+

lemma ucast_ucast_back [simp]:
  "(ucast (ucast (a :: u16) :: u64) :: u16) = a" "(ucast (ucast (b :: u32) :: u64) :: u32) = b"
  "(ucast (ucast (c :: u8) :: u64) :: u8) = c"
  by (rule bit_word_eqI; auto simp: bit_unsigned_iff dest: bit_imp_le_length)+

lemmas field_simps_le = field_here field_skip take_bit_ucast

end
