(* ===== verification/Naive_Elf.thy ===== *)
theory Naive_Elf
  imports Naive_File Naive_Maths
begin

text \<open>
  ELF files (\<^verbatim>\<open>src/src/backend/elf.c\<close>): the structures of the format as packed bytes, the writing
  of an object file from an assembled module, the reading of object files into the linker's module
  and symbol table, and the linking of an executable.

  An index into the section headers is a \<open>nat\<close>. Where \<^verbatim>\<open>process_elf_file\<close> and
  \<^verbatim>\<open>link_elf_executable\<close> return a code other than success the model stops with that code; the
  code \<^verbatim>\<open>false\<close>, which is \<^verbatim>\<open>EXIT_CODE_SUCCESS\<close>, is a normal return.
\<close>

section \<open>Structures\<close>

definition EM_X86_64 :: u16 where "EM_X86_64 = 62"

datatype elf_file_type = ET_REL | ET_EXEC

fun elf_type_code :: "elf_file_type \<Rightarrow> u16" where
  "elf_type_code ET_REL = 1" | "elf_type_code ET_EXEC = 2"

record elf_header =
  ident :: "u8 list"
  object_file_type :: u16
  target_architecture :: u16
  elf_version :: u32
  header_entry_point :: u64
  pht_location :: u64
  sht_location :: u64
  architecture_specific_flags :: u32
  header_size :: u16
  program_header_size :: u16
  pht_entries :: u16
  section_header_size :: u16
  sht_entries :: u16
  shstrtab_index :: u16

definition encode_elf_header :: "elf_header \<Rightarrow> u8 list" where
  "encode_elf_header h =
     ident h @ le 2 (ucast (object_file_type h)) @ le 2 (ucast (target_architecture h)) @
     le 4 (ucast (elf_version h)) @ le 8 (header_entry_point h) @ le 8 (pht_location h) @ le 8 (sht_location h) @
     le 4 (ucast (architecture_specific_flags h)) @ le 2 (ucast (header_size h)) @
     le 2 (ucast (program_header_size h)) @ le 2 (ucast (pht_entries h)) @ le 2 (ucast (section_header_size h)) @
     le 2 (ucast (sht_entries h)) @ le 2 (ucast (shstrtab_index h))"

definition decode_elf_header :: "u8 list \<Rightarrow> elf_header" where
  "decode_elf_header bs =
     \<lparr>ident = take 16 bs, object_file_type = ucast (field bs 16 2), target_architecture = ucast (field bs 18 2),
      elf_version = ucast (field bs 20 4), header_entry_point = field bs 24 8, pht_location = field bs 32 8,
      sht_location = field bs 40 8, architecture_specific_flags = ucast (field bs 48 4),
      header_size = ucast (field bs 52 2), program_header_size = ucast (field bs 54 2),
      pht_entries = ucast (field bs 56 2), section_header_size = ucast (field bs 58 2),
      sht_entries = ucast (field bs 60 2), shstrtab_index = ucast (field bs 62 2)\<rparr>"

record elf_program_header =
  ph_type :: u32
  ph_flags :: u32
  segment_location :: u64
  ph_virtual_address :: u64
  ph_physical_address :: u64
  segment_size_in_file :: u64
  segment_size_in_process :: u64
  ph_alignment :: u64

definition encode_program_header :: "elf_program_header \<Rightarrow> u8 list" where
  "encode_program_header h =
     le 4 (ucast (ph_type h)) @ le 4 (ucast (ph_flags h)) @ le 8 (segment_location h) @ le 8 (ph_virtual_address h) @
     le 8 (ph_physical_address h) @ le 8 (segment_size_in_file h) @ le 8 (segment_size_in_process h) @
     le 8 (ph_alignment h)"

definition PT_LOAD :: u32 where "PT_LOAD = 1"
definition PF_X :: u32 where "PF_X = 1"
definition PF_W :: u32 where "PF_W = 2"
definition PF_R :: u32 where "PF_R = 4"

record elf_section_header =
  shstrtab_index_for_name :: u32
  sh_type :: u32
  sh_flags :: u64
  sh_virtual_address :: u64
  section_location :: u64
  section_size :: u64
  linked_section :: u32
  misc_info :: u32
  sh_alignment :: u64
  entry_size :: u64

definition encode_section_header :: "elf_section_header \<Rightarrow> u8 list" where
  "encode_section_header h =
     le 4 (ucast (shstrtab_index_for_name h)) @ le 4 (ucast (sh_type h)) @ le 8 (sh_flags h) @
     le 8 (sh_virtual_address h) @ le 8 (section_location h) @ le 8 (section_size h) @
     le 4 (ucast (linked_section h)) @ le 4 (ucast (misc_info h)) @ le 8 (sh_alignment h) @ le 8 (entry_size h)"

definition decode_section_header :: "u8 list \<Rightarrow> elf_section_header" where
  "decode_section_header bs =
     \<lparr>shstrtab_index_for_name = ucast (field bs 0 4), sh_type = ucast (field bs 4 4), sh_flags = field bs 8 8,
      sh_virtual_address = field bs 16 8, section_location = field bs 24 8, section_size = field bs 32 8,
      linked_section = ucast (field bs 40 4), misc_info = ucast (field bs 44 4), sh_alignment = field bs 48 8,
      entry_size = field bs 56 8\<rparr>"

definition SHT_NULL :: u32 where "SHT_NULL = 0"
definition SHT_PROGBITS :: u32 where "SHT_PROGBITS = 1"
definition SHT_SYMTAB :: u32 where "SHT_SYMTAB = 2"
definition SHT_STRTAB :: u32 where "SHT_STRTAB = 3"
definition SHT_RELA :: u32 where "SHT_RELA = 4"
definition SHT_NOBITS :: u32 where "SHT_NOBITS = 8"

definition SHF_WRITE :: u64 where "SHF_WRITE = 1"
definition SHF_ALLOC :: u64 where "SHF_ALLOC = 2"
definition SHF_EXECINSTR :: u64 where "SHF_EXECINSTR = 4"

definition SHN_UNDEF :: u16 where "SHN_UNDEF = 0"
definition SHN_ABS :: u16 where "SHN_ABS = 0xFFF1"

record elf64_symbol =
  strtab_index_for_name :: u32
  type_and_binding :: u8
  st_reserved :: u8
  st_section :: u16
  st_value :: u64
  st_size :: u64

definition encode_symbol :: "elf64_symbol \<Rightarrow> u8 list" where
  "encode_symbol s =
     le 4 (ucast (strtab_index_for_name s)) @ le 1 (ucast (type_and_binding s)) @ le 1 (ucast (st_reserved s)) @
     le 2 (ucast (st_section s)) @ le 8 (st_value s) @ le 8 (st_size s)"

definition decode_symbol :: "u8 list \<Rightarrow> elf64_symbol" where
  "decode_symbol bs =
     \<lparr>strtab_index_for_name = ucast (field bs 0 4), type_and_binding = ucast (field bs 4 1),
      st_reserved = ucast (field bs 5 1), st_section = ucast (field bs 6 2), st_value = field bs 8 8,
      st_size = field bs 16 8\<rparr>"

definition STB_LOCAL :: u8 where "STB_LOCAL = 0"
definition STB_GLOBAL :: u8 where "STB_GLOBAL = 1"

definition STT_OBJECT :: u8 where "STT_OBJECT = 1"
definition STT_FUNC :: u8 where "STT_FUNC = 2"
definition STT_SECTION :: u8 where "STT_SECTION = 3"
definition STT_FILE :: u8 where "STT_FILE = 4"

definition ELF64_SYMBOL_TYPE_AND_BINDING :: "u8 \<Rightarrow> u8 \<Rightarrow> u8" where
  "ELF64_SYMBOL_TYPE_AND_BINDING t b = push_bit 4 b OR t"

definition ELF64_SYMBOL_BINDING :: "u8 \<Rightarrow> u8" where
  "ELF64_SYMBOL_BINDING x = drop_bit 4 x"

definition ELF64_SYMBOL_TYPE :: "u8 \<Rightarrow> u8" where
  "ELF64_SYMBOL_TYPE x = x AND 0xF"

record elf64_rela =
  rela_section_offset :: u64
  type_and_symbol :: u64
  rela_addend :: u64

definition encode_rela :: "elf64_rela \<Rightarrow> u8 list" where
  "encode_rela r = le 8 (rela_section_offset r) @ le 8 (type_and_symbol r) @ le 8 (rela_addend r)"

definition decode_rela :: "u8 list \<Rightarrow> elf64_rela" where
  "decode_rela bs =
     \<lparr>rela_section_offset = field bs 0 8, type_and_symbol = field bs 8 8, rela_addend = field bs 16 8\<rparr>"

definition ELF64_RELA_TYPE_AND_SYMBOL :: "u32 \<Rightarrow> u32 \<Rightarrow> u64" where
  "ELF64_RELA_TYPE_AND_SYMBOL t s = push_bit 32 (ucast s) OR (ucast t AND 0xFFFFFFFF)"

definition ELF64_RELA_SYMBOL :: "u64 \<Rightarrow> u32" where
  "ELF64_RELA_SYMBOL x = ucast (drop_bit 32 x)"

definition ELF64_RELA_TYPE :: "u64 \<Rightarrow> u32" where
  "ELF64_RELA_TYPE x = ucast (x AND 0xFFFFFFFF)"

definition R_X86_64_64 :: u32 where "R_X86_64_64 = 1"
definition R_X86_64_PC32 :: u32 where "R_X86_64_PC32 = 2"
definition R_X86_64_32 :: u32 where "R_X86_64_32 = 10"
definition R_X86_64_32S :: u32 where "R_X86_64_32S = 11"

section \<open>The sections written\<close>

definition NUM_SECTIONS :: nat where "NUM_SECTIONS = 9"

text \<open>The names of the sections, each with a zero byte after it, after a first zero byte.\<close>

definition section_names :: "string list" where
  "section_names = [''.text'', ''.rela.text'', ''.bss'', ''.data'', ''.rela.data'', ''.shstrtab'', ''.symtab'', ''.strtab'']"

definition SHSTRTAB_CONTENTS :: "u8 list" where
  "SHSTRTAB_CONTENTS = 0 # concat (map (\<lambda>s. string_bytes s @ [0]) section_names)"

definition TEXT_NAME :: u32 where "TEXT_NAME = 1"
definition RELA_TEXT_NAME :: u32 where "RELA_TEXT_NAME = 7"
definition BSS_NAME :: u32 where "BSS_NAME = 18"
definition DATA_NAME :: u32 where "DATA_NAME = 23"
definition RELA_DATA_NAME :: u32 where "RELA_DATA_NAME = 29"
definition SHSTRTAB_NAME :: u32 where "SHSTRTAB_NAME = 40"
definition SYMTAB_NAME :: u32 where "SYMTAB_NAME = 50"
definition STRTAB_NAME :: u32 where "STRTAB_NAME = 58"

definition TEXT_INDEX :: nat where "TEXT_INDEX = 1"
definition RELA_TEXT_INDEX :: nat where "RELA_TEXT_INDEX = 2"
definition BSS_INDEX :: nat where "BSS_INDEX = 3"
definition DATA_INDEX :: nat where "DATA_INDEX = 4"
definition RELA_DATA_INDEX :: nat where "RELA_DATA_INDEX = 5"
definition SHSTRTAB_INDEX :: nat where "SHSTRTAB_INDEX = 6"
definition SYMTAB_INDEX :: nat where "SYMTAB_INDEX = 7"
definition STRTAB_INDEX :: nat where "STRTAB_INDEX = 8"

record section_info =
  info_size :: u32
  info_offset :: u32
  info_virtual_address :: u32
  info_contents :: "u8 list"

record elf_file =
  output_file :: c_file
  elf_type :: elf_file_type
  entry_point_virtual_address :: u32
  next_string_index :: u32
  curr_symbol_index :: u32
  last_local_symbol_index :: u32
  section_infos :: "section_info list"

definition no_section :: section_info where
  "no_section = \<lparr>info_size = 0, info_offset = 0, info_virtual_address = 0, info_contents = []\<rparr>"

definition init_elf_file :: "c_file \<Rightarrow> elf_file_type \<Rightarrow> elf_file" where
  "init_elf_file f t =
     \<lparr>output_file = f, elf_type = t, entry_point_virtual_address = 0, next_string_index = 1, curr_symbol_index = 0,
      last_local_symbol_index = 0, section_infos = replicate NUM_SECTIONS no_section\<rparr>"

abbreviation info :: "elf_file \<Rightarrow> nat \<Rightarrow> section_info" where
  "info e i \<equiv> section_infos e ! i"

definition upd_info :: "nat \<Rightarrow> (section_info \<Rightarrow> section_info) \<Rightarrow> elf_file \<Rightarrow> elf_file" where
  "upd_info i g e = e\<lparr>section_infos := (section_infos e)[i := g (section_infos e ! i)]\<rparr>"

definition emit :: "u8 list \<Rightarrow> elf_file \<Rightarrow> elf_file" where
  "emit bs e = e\<lparr>output_file := checked_fwrite (output_file e) bs\<rparr>"

definition seek :: "nat \<Rightarrow> elf_file \<Rightarrow> elf_file" where
  "seek p e = e\<lparr>output_file := checked_fseek (output_file e) p\<rparr>"

definition tell :: "elf_file \<Rightarrow> u32" where
  "tell e = of_nat (checked_ftell (output_file e))"

section \<open>Relocations of a module\<close>

text \<open>
  The relocation of a fixup in the text, \<open>None\<close> for those that \<^verbatim>\<open>assemble\<close> has patched. The addend
  is computed in 32 bits without a sign and is extended with zeros.
\<close>

definition text_rela :: "asm_symbol list \<Rightarrow> fixup \<Rightarrow> elf64_rela option run" where
  "text_rela heap f =
     (if fixup_section f \<noteq> TEXT_SECTION then Inr None
      else rbind (at heap (fixup_symbol f)) (\<lambda>sb.
        if fixup_kind f = FIXUP_RELATIVE \<and> symbol_defined sb \<and> symbol_section sb = TEXT_SECTION then Inr None
        else if symtab_index sb = 0 then exit_ice
        else Inr (Some (case fixup_kind f of
          FIXUP_RELATIVE \<Rightarrow>
            \<lparr>rela_section_offset = ucast (fixup_offset f),
             type_and_symbol = ELF64_RELA_TYPE_AND_SYMBOL R_X86_64_PC32 (symtab_index sb),
             rela_addend = ucast (fixup_offset f - next_instr_offset f)\<rparr>
        | FIXUP_ABSOLUTE \<Rightarrow>
            \<lparr>rela_section_offset = ucast (fixup_offset f),
             type_and_symbol = ELF64_RELA_TYPE_AND_SYMBOL R_X86_64_64 (symtab_index sb),
             rela_addend = 0\<rparr>))))"

text \<open>The assertion on the type of a fixup in the data assigns, so it never fails.\<close>

definition data_rela :: "asm_symbol list \<Rightarrow> fixup \<Rightarrow> elf64_rela option run" where
  "data_rela heap f =
     (if fixup_section f \<noteq> DATA_SECTION then Inr None
      else rbind (at heap (fixup_symbol f)) (\<lambda>sb.
        if symtab_index sb = 0 then exit_ice
        else Inr (Some
          \<lparr>rela_section_offset = ucast (fixup_offset f),
           type_and_symbol = ELF64_RELA_TYPE_AND_SYMBOL R_X86_64_64 (symtab_index sb),
           rela_addend = 0\<rparr>)))"

fun write_relas :: "(fixup \<Rightarrow> elf64_rela option run) \<Rightarrow> elf_file \<Rightarrow> fixup list \<Rightarrow> elf_file run" where
  "write_relas rela e [] = Inr e"
| "write_relas rela e (f # fs) =
     rbind (rela f) (\<lambda>r. write_relas rela (case r of None \<Rightarrow> e | Some r \<Rightarrow> emit (encode_rela r) e) fs)"

section \<open>Writing\<close>

definition first_section_offset :: "elf_file_type \<Rightarrow> u32" where
  "first_section_offset t = 64 + 64 * of_nat NUM_SECTIONS + 56 * (case t of ET_EXEC \<Rightarrow> 3 | ET_REL \<Rightarrow> 0)"

definition section_bytes :: "section_info \<Rightarrow> u8 list" where
  "section_bytes s = take (unat (info_size s)) (info_contents s)"

definition write_contents :: "asm_symbol list \<Rightarrow> elf_file \<Rightarrow> fixup list \<Rightarrow> elf_file run" where
  "write_contents heap e fs =
     (let first = first_section_offset (elf_type e);
          e = upd_info TEXT_INDEX (\<lambda>s. s\<lparr>info_offset := first, info_virtual_address := 0x8000000 + first\<rparr>) e;
          e = seek (unat first) e;
          text = info e TEXT_INDEX
      in rbind (write_relas (text_rela heap) (emit (section_bytes text) e) fs) (\<lambda>e.
        let rela_text = info_offset text + info_size text;
            rela_text_size = tell e - rela_text;
            e = upd_info RELA_TEXT_INDEX (\<lambda>s. s\<lparr>info_offset := rela_text, info_size := rela_text_size\<rparr>) e;
            bss = rela_text + rela_text_size;
            bss_address = align_to (info_virtual_address text) 0x1000000 + bss;
            e = upd_info BSS_INDEX (\<lambda>s. s\<lparr>info_offset := bss, info_virtual_address := bss_address\<rparr>) e;
            e = upd_info DATA_INDEX (\<lambda>s. s\<lparr>info_offset := bss,
              info_virtual_address := align_to bss_address 0x1000000 + bss\<rparr>) e;
            data = info e DATA_INDEX
        in rbind (write_relas (data_rela heap) (emit (section_bytes data) e) fs) (\<lambda>e.
          let rela_data = info_offset data + info_size data;
              rela_data_size = tell e - rela_data;
              e = upd_info RELA_DATA_INDEX (\<lambda>s. s\<lparr>info_offset := rela_data, info_size := rela_data_size\<rparr>) e;
              shstrtab = rela_data + rela_data_size;
              shstrtab_size = of_nat (length SHSTRTAB_CONTENTS);
              e = upd_info SHSTRTAB_INDEX (\<lambda>s. s\<lparr>info_offset := shstrtab, info_size := shstrtab_size\<rparr>) e;
              e = emit SHSTRTAB_CONTENTS e;
              e = upd_info SYMTAB_INDEX (\<lambda>s. s\<lparr>info_offset := shstrtab + shstrtab_size\<rparr>) e;
              e = emit (replicate 24 0) e
          in Inr (e\<lparr>curr_symbol_index := curr_symbol_index e + 1\<rparr>))))"

definition add_symbol ::
  "elf_file \<Rightarrow> u8 \<Rightarrow> u8 \<Rightarrow> u16 \<Rightarrow> string \<Rightarrow> u32 \<Rightarrow> u32 \<Rightarrow> elf_file" where
  "add_symbol e type binding section name v sz =
     (let e = (if elf_type e = ET_EXEC \<and> string_eq name ''_start''
               then e\<lparr>entry_point_virtual_address := v\<rparr> else e);
          e = (if binding = STB_LOCAL then e\<lparr>last_local_symbol_index := curr_symbol_index e\<rparr> else e);
          symbol = \<lparr>strtab_index_for_name = next_string_index e,
            type_and_binding = ELF64_SYMBOL_TYPE_AND_BINDING type binding, st_reserved = 0, st_section = section,
            st_value = scast v, st_size = ucast sz\<rparr>
      in emit (encode_symbol symbol)
           (e\<lparr>next_string_index := next_string_index e + of_nat (length name + 1),
             curr_symbol_index := curr_symbol_index e + 1\<rparr>))"

definition finish_symtab_section :: "elf_file \<Rightarrow> elf_file" where
  "finish_symtab_section e =
     (let sz = tell e - info_offset (info e SYMTAB_INDEX);
          e = upd_info SYMTAB_INDEX (\<lambda>s. s\<lparr>info_size := sz\<rparr>) e;
          e = upd_info STRTAB_INDEX (\<lambda>s. s\<lparr>info_offset := info_offset (info e SYMTAB_INDEX) + sz\<rparr>) e
      in emit [0] e)"

text \<open>\<^verbatim>\<open>fprintf\<close> with a precision stops at a zero character.\<close>

definition add_string :: "elf_file \<Rightarrow> string \<Rightarrow> elf_file" where
  "add_string e s = emit [0] (emit (string_bytes (takeWhile (\<lambda>c. c \<noteq> CHR 0x00) s)) e)"

definition load_segment :: "section_info \<Rightarrow> u32 \<Rightarrow> u32 \<Rightarrow> elf_program_header" where
  "load_segment s file_size flags =
     \<lparr>ph_type = PT_LOAD, ph_flags = flags, segment_location = ucast (info_offset s),
      ph_virtual_address = ucast (info_virtual_address s), ph_physical_address = 0,
      segment_size_in_file = ucast file_size, segment_size_in_process = ucast (info_size s), ph_alignment = 0x1000\<rparr>"

definition program_headers :: "elf_file \<Rightarrow> elf_program_header list" where
  "program_headers e =
     [load_segment (info e TEXT_INDEX) (info_size (info e TEXT_INDEX)) (PF_R OR PF_X),
      load_segment (info e BSS_INDEX) 0 (PF_R OR PF_W),
      load_segment (info e DATA_INDEX) (info_size (info e DATA_INDEX)) (PF_R OR PF_W)]"

definition null_header :: elf_section_header where
  "null_header = \<lparr>shstrtab_index_for_name = 0, sh_type = SHT_NULL, sh_flags = 0, sh_virtual_address = 0,
     section_location = 0, section_size = 0, linked_section = 0, misc_info = 0, sh_alignment = 0, entry_size = 0\<rparr>"

definition placed_header :: "elf_file \<Rightarrow> nat \<Rightarrow> u32 \<Rightarrow> u32 \<Rightarrow> elf_section_header" where
  "placed_header e i name ty = null_header\<lparr>shstrtab_index_for_name := name, sh_type := ty,
     section_location := ucast (info_offset (info e i)), section_size := ucast (info_size (info e i))\<rparr>"

definition section_headers :: "elf_file \<Rightarrow> elf_section_header list" where
  "section_headers e =
     [null_header,
      (placed_header e TEXT_INDEX TEXT_NAME SHT_PROGBITS)\<lparr>sh_flags := SHF_ALLOC OR SHF_EXECINSTR,
        sh_virtual_address := ucast (info_virtual_address (info e TEXT_INDEX))\<rparr>,
      (placed_header e RELA_TEXT_INDEX RELA_TEXT_NAME SHT_RELA)\<lparr>misc_info := of_nat TEXT_INDEX,
        linked_section := of_nat SYMTAB_INDEX, entry_size := 24\<rparr>,
      (placed_header e BSS_INDEX BSS_NAME SHT_NOBITS)\<lparr>sh_flags := SHF_ALLOC OR SHF_WRITE,
        sh_virtual_address := ucast (info_virtual_address (info e BSS_INDEX))\<rparr>,
      (placed_header e DATA_INDEX DATA_NAME SHT_PROGBITS)\<lparr>sh_flags := SHF_ALLOC OR SHF_WRITE,
        sh_virtual_address := ucast (info_virtual_address (info e DATA_INDEX))\<rparr>,
      (placed_header e RELA_DATA_INDEX RELA_DATA_NAME SHT_RELA)\<lparr>misc_info := of_nat DATA_INDEX,
        linked_section := of_nat SYMTAB_INDEX, entry_size := 24\<rparr>,
      placed_header e SHSTRTAB_INDEX SHSTRTAB_NAME SHT_STRTAB,
      (placed_header e SYMTAB_INDEX SYMTAB_NAME SHT_SYMTAB)\<lparr>misc_info := last_local_symbol_index e + 1,
        linked_section := of_nat STRTAB_INDEX, entry_size := 24\<rparr>,
      placed_header e STRTAB_INDEX STRTAB_NAME SHT_STRTAB]"

definition file_header :: "elf_file \<Rightarrow> elf_header" where
  "file_header e =
     \<lparr>ident = string_bytes ELF_MAGIC @ [2, 1, 1] @ replicate 9 0, object_file_type = elf_type_code (elf_type e),
      target_architecture = EM_X86_64, elf_version = 1,
      header_entry_point = (case elf_type e of ET_EXEC \<Rightarrow> scast (entry_point_virtual_address e) | ET_REL \<Rightarrow> 0),
      pht_location = (case elf_type e of ET_EXEC \<Rightarrow> 64 + 64 * of_nat NUM_SECTIONS | ET_REL \<Rightarrow> 0),
      sht_location = 64, architecture_specific_flags = 0, header_size = 64, program_header_size = 56,
      pht_entries = (case elf_type e of ET_EXEC \<Rightarrow> 3 | ET_REL \<Rightarrow> 0), section_header_size = 64,
      sht_entries = of_nat NUM_SECTIONS, shstrtab_index = of_nat SHSTRTAB_INDEX\<rparr>"

text \<open>
  The entry point is compared with \<open>-1\<close> although it starts as 0. The assertion on the last local
  symbol comes while the headers are written, so nothing else is lost by checking it first.
\<close>

definition finish_strtab_section :: "elf_file \<Rightarrow> elf_file run" where
  "finish_strtab_section e =
     (let e = upd_info STRTAB_INDEX (\<lambda>s. s\<lparr>info_size := tell e - info_offset (info e STRTAB_INDEX)\<rparr>) e in
      if elf_type e = ET_EXEC \<and> entry_point_virtual_address e = -1 then exit_ice
      else if last_local_symbol_index e = 0 then exit_ice
      else
        let e = (case elf_type e of
                   ET_EXEC \<Rightarrow> emit (concat (map encode_program_header (program_headers e)))
                     (seek (64 + 64 * NUM_SECTIONS) e)
                 | ET_REL \<Rightarrow> e);
            e = emit (encode_elf_header (file_header e)) (seek 0 e);
            e = emit (concat (map encode_section_header (section_headers e))) (seek 64 e)
        in Inr e)"

section \<open>Object files\<close>

definition symbol_section_index :: "asm_symbol \<Rightarrow> u16 run" where
  "symbol_section_index sb =
     (if \<not> symbol_defined sb then Inr SHN_UNDEF
      else case symbol_section sb of
        UNKNOWN_SECTION \<Rightarrow> exit_ice
      | TEXT_SECTION \<Rightarrow> Inr (of_nat TEXT_INDEX)
      | BSS_SECTION \<Rightarrow> Inr (of_nat BSS_INDEX)
      | DATA_SECTION \<Rightarrow> Inr (of_nat DATA_INDEX))"

definition symbol_binding :: "asm_symbol \<Rightarrow> u8" where
  "symbol_binding sb =
     (if symbol_defined sb \<and> symbol_linkage sb = ASM_LOCAL_LINKAGE then STB_LOCAL else STB_GLOBAL)"

fun add_symbols :: "elf_file \<Rightarrow> asm_symbol list \<Rightarrow> elf_file run" where
  "add_symbols e [] = Inr e"
| "add_symbols e (sb # syms) =
     rbind (symbol_section_index sb) (\<lambda>section.
       add_symbols (add_symbol e STT_FUNC (symbol_binding sb) section (symbol_name sb) (symbol_offset sb)
         (symbol_size sb)) syms)"

fun symbols_of :: "asm_symbol list \<Rightarrow> symbol_ref list \<Rightarrow> asm_symbol list run" where
  "symbols_of heap [] = Inr []"
| "symbols_of heap (r # rs) = rbind (at heap r) (\<lambda>s. rbind (symbols_of heap rs) (\<lambda>ss. Inr (s # ss)))"

definition set_section :: "nat \<Rightarrow> u32 \<Rightarrow> u8 list \<Rightarrow> elf_file \<Rightarrow> elf_file" where
  "set_section i sz bs = upd_info i (\<lambda>s. s\<lparr>info_size := sz, info_contents := bs\<rparr>)"

definition elf_file_for :: "elf_file_type \<Rightarrow> asm_module \<Rightarrow> elf_file" where
  "elf_file_for t m =
     set_section DATA_INDEX (of_nat (length (data_bytes m))) (data_bytes m)
       (set_section BSS_INDEX (bss_size m) []
         (set_section TEXT_INDEX (of_nat (length (text_bytes m))) (text_bytes m)
           (init_elf_file (open_file []) t)))"

text \<open>The bytes of the object file; \<open>opened\<close> tells whether the output could be opened.\<close>

definition write_elf_object_file :: "bool \<Rightarrow> asm_module \<Rightarrow> u8 list run" where
  "write_elf_object_file opened m =
     (if \<not> opened then io_error
      else
        rbind (write_contents (symbol_heap m) (elf_file_for ET_REL m) (fixups m)) (\<lambda>e.
        rbind (symbols_of (symbol_heap m) (symbols m)) (\<lambda>syms.
        rbind (add_symbols e syms) (\<lambda>e.
          let e = add_symbol e STT_FILE STB_LOCAL SHN_ABS (input_file_name m) 0 0;
              e = finish_symtab_section e;
              e = fold (\<lambda>sb e. add_string e (symbol_name sb)) syms e;
              e = add_string e (input_file_name m)
          in rbind (finish_strtab_section e) (\<lambda>e. Inr (fbytes (output_file e)))))))"

end
