(* ===== verification/Naive_Linker.thy ===== *)
theory Naive_Linker
  imports Naive_Elf
begin

text \<open>
  The linker of \<^verbatim>\<open>src/src/backend/elf.c\<close>: object files and archives are read into one module and one
  symbol table, and the executable is written with its relocations applied.
\<close>

section \<open>Symbols\<close>

record relocation =
  reloc_type :: u32
  reloc_section_index :: nat
  reloc_section_offset :: u32
  reloc_addend :: u32

text \<open>The fields after the relocations have no defined value unless the symbol is defined.\<close>

record link_symbol =
  ls_defined :: bool
  ls_name :: string
  ls_relocs :: "relocation list"
  ls_binding :: u8
  ls_section_index :: nat
  ls_section_offset :: u32
  ls_size :: u32

record link_state =
  linked :: asm_module
  symbol_table :: "link_symbol list"

definition link_init :: link_state where
  "link_init = \<lparr>linked = init_asm_module [], symbol_table = []\<rparr>"

section \<open>Relocations\<close>

definition relocation_of :: "u32 \<Rightarrow> nat \<Rightarrow> elf64_rela \<Rightarrow> relocation" where
  "relocation_of existing_section_size section_index r =
     \<lparr>reloc_type = ELF64_RELA_TYPE (type_and_symbol r), reloc_section_index = section_index,
      reloc_section_offset = existing_section_size + ucast (rela_section_offset r),
      reloc_addend = ucast (rela_addend r)\<rparr>"

definition add_reloc ::
  "u32 list \<Rightarrow> u32 \<Rightarrow> nat \<Rightarrow> elf64_rela \<Rightarrow> link_symbol list \<Rightarrow> link_symbol list run" where
  "add_reloc file_symbols existing_section_size section_index r table =
     rbind (at file_symbols (unat (ELF64_RELA_SYMBOL (type_and_symbol r)))) (\<lambda>i.
     rbind (at table (unat i)) (\<lambda>s.
       Inr (table[unat i := s\<lparr>ls_relocs := ls_relocs s @ [relocation_of existing_section_size section_index r]\<rparr>])))"

text \<open>The loop over the entries, from the position of the file.\<close>

fun read_relas ::
  "nat \<Rightarrow> (elf64_rela \<Rightarrow> 's \<Rightarrow> 's run) \<Rightarrow> c_file \<Rightarrow> 's \<Rightarrow> ('s \<times> c_file) run" where
  "read_relas 0 add f s = Inr (s, f)"
| "read_relas (Suc n) add f s =
     rbind (checked_fread f 24) (\<lambda>(bs, f). rbind (add (decode_rela bs) s) (\<lambda>s. read_relas n add f s))"

text \<open>The entries are counted in 32 bits. The position of a section is computed in 64 bits.\<close>

definition section_position :: "u32 \<Rightarrow> elf_section_header \<Rightarrow> nat" where
  "section_position initial_location h = unat (ucast initial_location + section_location h)"

definition section_entries :: "elf_section_header \<Rightarrow> nat" where
  "section_entries h = unat (ucast (section_size h div entry_size h) :: u32)"

definition process_rela_section ::
  "elf_section_header option \<Rightarrow> u32 list \<Rightarrow> link_symbol list \<Rightarrow> c_file \<Rightarrow> u32 \<Rightarrow> u32 \<Rightarrow> nat \<Rightarrow>
    (link_symbol list \<times> c_file) run" where
  "process_rela_section rela_header file_symbols table f initial_location existing_section_size section_index =
     (case rela_header of
        None \<Rightarrow> Inr (table, f)
      | Some h \<Rightarrow>
          if sh_type h \<noteq> SHT_RELA \<or> entry_size h \<noteq> 24 then exit_ice
          else read_relas (section_entries h) (add_reloc file_symbols existing_section_size section_index)
                 (checked_fseek f (section_position initial_location h)) table)"

section \<open>Sections of a file\<close>

record found_sections =
  text_header :: "(nat \<times> elf_section_header) option"
  symtab_header :: "elf_section_header option"
  strtab_header :: "elf_section_header option"
  rela_text_header :: "elf_section_header option"
  rela_data_header :: "elf_section_header option"
  bss_header :: "(nat \<times> elf_section_header) option"
  data_header :: "(nat \<times> elf_section_header) option"

definition nothing_found :: found_sections where
  "nothing_found = \<lparr>text_header = None, symtab_header = None, strtab_header = None, rela_text_header = None,
     rela_data_header = None, bss_header = None, data_header = None\<rparr>"

definition note_section :: "nat \<Rightarrow> elf_section_header \<Rightarrow> string \<Rightarrow> found_sections \<Rightarrow> found_sections run" where
  "note_section i h name s =
     (if name = ''.text'' then Inr (s\<lparr>text_header := Some (i, h)\<rparr>)
      else if name = ''.symtab'' then Inr (s\<lparr>symtab_header := Some h\<rparr>)
      else if name = ''.strtab'' then Inr (s\<lparr>strtab_header := Some h\<rparr>)
      else if take 5 name = ''.rela'' then
        (if name = ''.rela.text'' then Inr (s\<lparr>rela_text_header := Some h\<rparr>)
         else if name = ''.rela.data'' then Inr (s\<lparr>rela_data_header := Some h\<rparr>)
         else exit_unimplemented)
      else if name = ''.bss'' then Inr (s\<lparr>bss_header := Some (i, h)\<rparr>)
      else if name = ''.data'' then Inr (s\<lparr>data_header := Some (i, h)\<rparr>)
      else Inr s)"

fun find_sections ::
  "u8 list \<Rightarrow> nat \<Rightarrow> elf_section_header list \<Rightarrow> found_sections \<Rightarrow> found_sections run" where
  "find_sections shstrtab i [] s = Inr s"
| "find_sections shstrtab i (h # hs) s =
     rbind (c_string_at shstrtab (unat (shstrtab_index_for_name h))) (\<lambda>name.
     rbind (note_section i h name s) (\<lambda>s. find_sections shstrtab (Suc i) hs s))"

text \<open>An absent section has the index \<^verbatim>\<open>SHN_UNDEF\<close>.\<close>

definition index_of :: "(nat \<times> elf_section_header) option \<Rightarrow> u16" where
  "index_of x = (case x of None \<Rightarrow> SHN_UNDEF | Some (i, _) \<Rightarrow> of_nat i)"

abbreviation linker_error :: "'a run" where
  "linker_error \<equiv> Inl (Exit EXIT_CODE_LINKER_ERROR)"

text \<open>The header of the file and of its sections; \<open>None\<close> where the function returns \<^verbatim>\<open>false\<close>.\<close>

definition read_headers :: "c_file \<Rightarrow> u32 \<Rightarrow> ((elf_section_header list \<times> u8 list) \<times> c_file) option run" where
  "read_headers f initial_location =
     (case fread_item f 64 of
        None \<Rightarrow> Inr None
      | Some (bs, f) \<Rightarrow>
          let h = decode_elf_header bs in
          if \<not> shstrtab_index h < sht_entries h then exit_ice
          else if \<not> strneq (bytes_string (ident h)) ELF_MAGIC 4 then exit_ice
          else if target_architecture h \<noteq> EM_X86_64 then Inr None
          else if section_header_size h \<noteq> 64 then exit_ice
          else
            let sht_offset = ucast (sht_location h) :: u32;
                n = unat (sht_entries h)
            in rbind (checked_fread (checked_fseek f (unat (initial_location + sht_offset))) (64 * n)) (\<lambda>(bs, f).
              let headers = map (\<lambda>i. decode_section_header (take 64 (drop (64 * i) bs))) [0..<n];
                  sh = headers ! unat (shstrtab_index h)
              in if sh_type sh \<noteq> SHT_STRTAB then exit_ice
                 else rbind (checked_fread (checked_fseek f (section_position initial_location sh))
                        (unat (section_size sh))) (\<lambda>(shstrtab, f). Inr (Some ((headers, shstrtab), f)))))"

section \<open>Symbols of a file\<close>

definition find_symbol :: "link_symbol list \<Rightarrow> u8 \<Rightarrow> string \<Rightarrow> nat option" where
  "find_symbol table binding name =
     (if binding = STB_GLOBAL
      then List.find (\<lambda>i. ls_binding (table ! i) = STB_GLOBAL \<and> string_eq (ls_name (table ! i)) name)
             [0..<length table]
      else None)"

record symbol_place =
  place_section :: nat
  place_base :: u32

definition fresh_symbol :: link_symbol where
  "fresh_symbol = \<lparr>ls_defined = False, ls_name = [], ls_relocs = [], ls_binding = 0, ls_section_index = 0,
     ls_section_offset = 0, ls_size = 0\<rparr>"

text \<open>
  One entry of a symbol table: \<open>places\<close> gives for a section index of the file the section of the
  executable and what was there before. The result is the table and the symbol's index in it.
\<close>

definition link_undefined :: "u8 \<Rightarrow> string \<Rightarrow> link_symbol list \<Rightarrow> link_symbol list \<times> nat" where
  "link_undefined binding name table =
     (case find_symbol table binding name of
        Some i \<Rightarrow> (table, i)
      | None \<Rightarrow> (table @ [fresh_symbol\<lparr>ls_name := name, ls_binding := binding\<rparr>], length table))"

definition define_symbol :: "elf64_symbol \<Rightarrow> symbol_place \<Rightarrow> u8 \<Rightarrow> string \<Rightarrow> link_symbol \<Rightarrow> link_symbol" where
  "define_symbol sb p binding name s =
     s\<lparr>ls_section_index := place_section p, ls_section_offset := place_base p + ucast (st_value sb), ls_defined := True,
       ls_name := name, ls_binding := binding, ls_size := ucast (st_size sb)\<rparr>"

definition link_defined ::
  "elf64_symbol \<Rightarrow> symbol_place \<Rightarrow> u8 \<Rightarrow> string \<Rightarrow> link_symbol list \<Rightarrow> (link_symbol list \<times> nat) run" where
  "link_defined sb p binding name table =
     (case find_symbol table binding name of
        None \<Rightarrow> Inr (table @ [define_symbol sb p binding name fresh_symbol], length table)
      | Some i \<Rightarrow>
          if ls_defined (table ! i) then linker_error
          else Inr (table[i := define_symbol sb p binding name (table ! i)], i))"

definition skipped :: "(u16 \<Rightarrow> symbol_place option) \<Rightarrow> nat \<Rightarrow> elf64_symbol \<Rightarrow> bool" where
  "skipped places i sb =
     (let type = ELF64_SYMBOL_TYPE (type_and_binding sb)
      in i = 0 \<or> type = STT_FILE \<or> type = STT_SECTION \<and> places (st_section sb) = None)"

definition link_symbol_entry ::
  "(u16 \<Rightarrow> symbol_place option) \<Rightarrow> u8 list \<Rightarrow> nat \<Rightarrow> elf64_symbol \<Rightarrow> link_symbol list \<times> u32 list \<Rightarrow>
    (link_symbol list \<times> u32 list) run" where
  "link_symbol_entry places strtab i sb = (\<lambda>(table, file_symbols).
     rbind (c_string_at strtab (unat (strtab_index_for_name sb))) (\<lambda>name.
       let binding = ELF64_SYMBOL_BINDING (type_and_binding sb) in
       if skipped places i sb then Inr (table, file_symbols)
       else if st_section sb = SHN_UNDEF then
         (let (table, k) = link_undefined binding name table in Inr (table, file_symbols[i := of_nat k]))
       else case places (st_section sb) of
         Some p \<Rightarrow> rbind (link_defined sb p binding name table) (\<lambda>(table, k). Inr (table, file_symbols[i := of_nat k]))
       | None \<Rightarrow> exit_ice))"

fun read_symbols ::
  "nat \<Rightarrow> nat \<Rightarrow> (nat \<Rightarrow> elf64_symbol \<Rightarrow> 's \<Rightarrow> 's run) \<Rightarrow> c_file \<Rightarrow> 's \<Rightarrow> ('s \<times> c_file) run" where
  "read_symbols i 0 add f s = Inr (s, f)"
| "read_symbols i (Suc n) add f s =
     rbind (checked_fread f 24) (\<lambda>(bs, f). rbind (add i (decode_symbol bs) s) (\<lambda>s. read_symbols (Suc i) n add f s))"

section \<open>Object files\<close>

text \<open>Bytes of a section, appended to what is there; nothing is read of an empty section.\<close>

definition read_section :: "c_file \<Rightarrow> u32 \<Rightarrow> elf_section_header option \<Rightarrow> (u8 list \<times> c_file) run" where
  "read_section f initial_location h =
     (case h of
        None \<Rightarrow> Inr ([], f)
      | Some h \<Rightarrow>
          if section_size h = 0 then Inr ([], f)
          else checked_fread (checked_fseek f (section_position initial_location h)) (unat (section_size h)))"

text \<open>The tests of the sections of the executable go in the order of the code: text, bss, data.\<close>

definition symbol_places :: "found_sections \<Rightarrow> asm_module \<Rightarrow> u16 \<Rightarrow> symbol_place option" where
  "symbol_places s m section =
     (if section = index_of (text_header s)
      then Some \<lparr>place_section = TEXT_INDEX, place_base = of_nat (length (text_bytes m))\<rparr>
      else if section = index_of (bss_header s) then Some \<lparr>place_section = BSS_INDEX, place_base = bss_size m\<rparr>
      else if section = index_of (data_header s)
      then Some \<lparr>place_section = DATA_INDEX, place_base = of_nat (length (data_bytes m))\<rparr>
      else None)"

definition append_sections :: "asm_module \<Rightarrow> u8 list \<Rightarrow> u8 list \<Rightarrow> u32 \<Rightarrow> asm_module" where
  "append_sections m text data bss =
     m\<lparr>text_bytes := text_bytes m @ text, data_bytes := data_bytes m @ data, bss_size := bss_size m + bss\<rparr>"

definition process_sections ::
  "found_sections \<Rightarrow> c_file \<Rightarrow> u32 \<Rightarrow> link_state \<Rightarrow> (link_state \<times> c_file) run" where
  "process_sections s f initial_location st =
     (case (text_header s, symtab_header s, strtab_header s) of
        (Some (_, text), Some symtab, Some strtab) \<Rightarrow>
          if sh_type text \<noteq> SHT_PROGBITS \<or> sh_type symtab \<noteq> SHT_SYMTAB \<or> entry_size symtab \<noteq> 24 \<or>
             sh_type strtab \<noteq> SHT_STRTAB then exit_ice
          else
            rbind (checked_fread (checked_fseek f (section_position initial_location strtab))
              (unat (section_size strtab))) (\<lambda>(names, f).
            rbind (read_section f initial_location (Some text)) (\<lambda>(text_bs, f).
            rbind (read_section f initial_location (map_option snd (data_header s))) (\<lambda>(data_bs, f).
              let m = linked st;
                  bss = (case bss_header s of None \<Rightarrow> 0 | Some (_, h) \<Rightarrow> ucast (section_size h));
                  n = section_entries symtab;
                  f = checked_fseek f (section_position initial_location symtab)
              in rbind (read_symbols 0 n (link_symbol_entry (symbol_places s m) names) f
                         (symbol_table st, replicate n 0)) (\<lambda>((table, file_symbols), f).
                 rbind (process_rela_section (rela_text_header s) file_symbols table f initial_location
                         (of_nat (length (text_bytes m))) TEXT_INDEX) (\<lambda>(table, f).
                 rbind (process_rela_section (rela_data_header s) file_symbols table f initial_location
                         (of_nat (length (data_bytes m))) DATA_INDEX) (\<lambda>(table, f).
                   Inr (\<lparr>linked = append_sections m text_bs data_bs bss, symbol_table = table\<rparr>, f)))))))
      | _ \<Rightarrow> linker_error)"

definition process_elf_file :: "c_file \<Rightarrow> link_state \<Rightarrow> (link_state \<times> c_file) run" where
  "process_elf_file f st =
     (let initial_location = of_nat (checked_ftell f) in
      rbind (read_headers f initial_location) (\<lambda>r.
        case r of
          None \<Rightarrow> Inr (st, f)
        | Some ((headers, shstrtab), f) \<Rightarrow>
            rbind (find_sections shstrtab 0 headers nothing_found) (\<lambda>s.
              process_sections s f initial_location st)))"

section \<open>Archives\<close>

text \<open>The name without the spaces at its end; a name of spaces only is left as it is.\<close>

definition member_name :: "string \<Rightarrow> string" where
  "member_name name =
     (let stripped = rev (dropWhile (\<lambda>c. c = CHR '' '') (rev name))
      in takeWhile (\<lambda>c. c \<noteq> CHR 0x00) (if stripped = [] then name else stripped))"

text \<open>
  The members of an archive. A size is not negative, so every round goes forward by at least a
  header and as many rounds as the file has bytes are enough.
\<close>

fun link_archive :: "nat \<Rightarrow> c_file \<Rightarrow> link_state \<Rightarrow> link_state run" where
  "link_archive 0 f st = Inl No_Return"
| "link_archive (Suc fuel) f st =
     (let f = (if checked_ftell f mod 2 = 1 then checked_fseek f (checked_ftell f + 1) else f) in
      case fread_item f 60 of
        None \<Rightarrow> Inr st
      | Some (bs, f) \<Rightarrow>
          let h = decode_ar_header bs;
              file_start = checked_ftell f;
              next_member = checked_fseek f (file_start + nat (atol (size_bytes_decimal h)))
          in if ar_magic h \<noteq> [CHR 0x60, CHR 0x0A] then exit_ice
             else if member_name (ar_name h) = ''/'' \<or> member_name (ar_name h) = ''//''
             then link_archive fuel next_member st
             else rbind (process_elf_file f st) (\<lambda>(st, _). link_archive fuel next_member st))"

definition link_input :: "u8 list \<Rightarrow> link_state \<Rightarrow> link_state run" where
  "link_input bs st =
     (let f = open_file bs in
      case file_type f of
        ELF_FILE_TYPE \<Rightarrow> rbind (process_elf_file f st) (\<lambda>(st, _). Inr st)
      | AR_FILE_TYPE \<Rightarrow> link_archive (Suc (length bs)) (checked_fseek f (length AR_GLOBAL_HEADER)) st
      | UNKNOWN_FILE_TYPE \<Rightarrow> exit_ice)"

text \<open>The input files in order; \<open>files\<close> gives their bytes, \<open>None\<close> for one that cannot be opened.\<close>

fun link_inputs :: "(string \<Rightarrow> u8 list option) \<Rightarrow> string list \<Rightarrow> link_state \<Rightarrow> link_state run" where
  "link_inputs files [] st = Inr st"
| "link_inputs files (name # names) st =
     (case files name of
        None \<Rightarrow> io_error
      | Some bs \<Rightarrow> rbind (link_input bs st) (\<lambda>st. link_inputs files names st))"

section \<open>Executables\<close>

definition reloc_value :: "u32 \<Rightarrow> u32 \<Rightarrow> relocation \<Rightarrow> u32 run" where
  "reloc_value symbol_mem_location reloc_mem_location r =
     (if reloc_type r = R_X86_64_PC32 then Inr (symbol_mem_location + reloc_addend r - reloc_mem_location)
      else if reloc_type r \<in> {R_X86_64_64, R_X86_64_32S, R_X86_64_32} then Inr (symbol_mem_location + reloc_addend r)
      else exit_unimplemented)"

definition apply_reloc :: "u32 \<Rightarrow> relocation \<Rightarrow> elf_file \<Rightarrow> elf_file run" where
  "apply_reloc symbol_mem_location r e =
     (let s = info e (reloc_section_index r);
          reloc_mem_location = info_virtual_address s + reloc_section_offset r
      in rbind (reloc_value symbol_mem_location reloc_mem_location r) (\<lambda>v.
           let file_offset = reloc_mem_location - info_virtual_address s + info_offset s
           in Inr (emit (le 4 (ucast v)) (seek (unat file_offset) e))))"

fun apply_relocs :: "u32 \<Rightarrow> relocation list \<Rightarrow> elf_file \<Rightarrow> elf_file run" where
  "apply_relocs loc [] e = Inr e"
| "apply_relocs loc (r # rs) e = rbind (apply_reloc loc r e) (\<lambda>e. apply_relocs loc rs e)"

definition symbol_location :: "elf_file \<Rightarrow> link_symbol \<Rightarrow> u32" where
  "symbol_location e s = info_virtual_address (info e (ls_section_index s)) + ls_section_offset s"

definition write_symbol :: "link_symbol \<Rightarrow> elf_file \<Rightarrow> elf_file run" where
  "write_symbol s e =
     (if \<not> ls_defined s then (if ls_relocs s \<noteq> [] then linker_error else Inr e)
      else
        let loc = symbol_location e s in
        rbind (if ls_section_index s = TEXT_INDEX then Inr STT_FUNC
               else if ls_section_index s = BSS_INDEX \<or> ls_section_index s = DATA_INDEX then Inr STT_OBJECT
               else exit_ice) (\<lambda>type.
          let e = add_symbol e type (ls_binding s) (of_nat (ls_section_index s)) (ls_name s) loc (ls_size s);
              prev_location = tell e
          in rbind (apply_relocs loc (ls_relocs s) e) (\<lambda>e. Inr (seek (unat prev_location) e))))"

fun write_symbols :: "link_symbol list \<Rightarrow> elf_file \<Rightarrow> elf_file run" where
  "write_symbols [] e = Inr e"
| "write_symbols (s # ss) e = rbind (write_symbol s e) (\<lambda>e. write_symbols ss e)"

text \<open>The bytes of the executable. The names of all symbols are written, also of those left out.\<close>

definition write_executable :: "link_state \<Rightarrow> u8 list run" where
  "write_executable st =
     rbind (write_contents [] (elf_file_for ET_EXEC (linked st)) []) (\<lambda>e.
     rbind (write_symbols (symbol_table st) e) (\<lambda>e.
     rbind (finish_strtab_section
       (fold (\<lambda>s e. add_string e (ls_name s)) (symbol_table st) (finish_symtab_section e))) (\<lambda>e.
       Inr (fbytes (output_file e)))))"

definition link_elf_executable :: "bool \<Rightarrow> (string \<Rightarrow> u8 list option) \<Rightarrow> string list \<Rightarrow> u8 list run" where
  "link_elf_executable opened files names =
     (if \<not> opened then io_error
      else rbind (link_inputs files names link_init) write_executable)"

end
