(* ===== verification/Naive_Elf_Properties.thy ===== *)
theory Naive_Elf_Properties
  imports Naive_Linker
begin

text \<open>
  Correctness of the object files: what \<^verbatim>\<open>write_elf_object_file\<close> writes is read back by
  \<^verbatim>\<open>process_elf_file\<close> as if the module had been linked in memory.
\<close>

section \<open>Structures read back\<close>

lemma take_bit_fields [simp]:
  "take_bit 16 (ucast (a :: u16) :: u64) = ucast a" "take_bit 32 (ucast (b :: u32) :: u64) = ucast b"
  "take_bit 8 (ucast (c :: u8) :: u64) = ucast c" "take_bit 64 (d :: u64) = d"
  by (fact take_bit_ucast)+

lemma decode_encode_elf_header:
  "length (ident h) = 16 \<Longrightarrow> decode_elf_header (encode_elf_header h @ bs) = h"
  by (simp add: decode_elf_header_def encode_elf_header_def field_skip field_here)

lemma decode_encode_section_header: "decode_section_header (encode_section_header h @ bs) = h"
  by (simp add: decode_section_header_def encode_section_header_def field_skip field_here)

lemma decode_encode_symbol: "decode_symbol (encode_symbol s @ bs) = s"
  by (simp add: decode_symbol_def encode_symbol_def field_skip field_here)

lemma decode_encode_rela: "decode_rela (encode_rela r @ bs) = r"
  by (simp add: decode_rela_def encode_rela_def field_skip field_here)

lemma encode_lengths [simp]:
  "length (ident h) = 16 \<Longrightarrow> length (encode_elf_header h) = 64" "length (encode_program_header p) = 56"
  "length (encode_section_header s) = 64" "length (encode_symbol y) = 24" "length (encode_rela r) = 24"
  by (simp_all add: encode_elf_header_def encode_program_header_def encode_section_header_def encode_symbol_def
      encode_rela_def)

section \<open>Writing in sequence\<close>

lemma overwrite_overwrite: "overwrite (overwrite bs p xs) (p + length xs) ys = overwrite bs p (xs @ ys)"
proof (cases "p \<le> length bs")
  case True
  then show ?thesis by (simp add: overwrite_def ac_simps)
next
  case False
  then show ?thesis by (simp add: overwrite_def)
qed

lemma overwrite_Nil: "p \<le> length bs \<Longrightarrow> overwrite bs p [] = bs"
  by (simp add: overwrite_def)

lemma fwrite_fwrite: "checked_fwrite (checked_fwrite f xs) ys = checked_fwrite f (xs @ ys)"
  by (cases "xs = []"; cases "ys = []") (simp_all add: checked_fwrite_def overwrite_overwrite ac_simps)

lemma emit_emit [simp]: "emit ys (emit xs e) = emit (xs @ ys) e"
  by (simp add: emit_def fwrite_fwrite)

lemma emit_Nil [simp]: "emit [] e = e"
  by (simp add: emit_def checked_fwrite_def)

lemma upd_info_emit [simp]: "upd_info i g (emit bs e) = emit bs (upd_info i g e)"
  by (simp add: upd_info_def emit_def)

lemma emit_fields [simp]:
  "section_infos (emit bs e) = section_infos e" "elf_type (emit bs e) = elf_type e"
  "next_string_index (emit bs e) = next_string_index e" "curr_symbol_index (emit bs e) = curr_symbol_index e"
  "last_local_symbol_index (emit bs e) = last_local_symbol_index e"
  "entry_point_virtual_address (emit bs e) = entry_point_virtual_address e"
  by (simp_all add: emit_def)

lemma emit_updates [simp]:
  "emit bs e\<lparr>next_string_index := a\<rparr> = emit bs (e\<lparr>next_string_index := a\<rparr>)"
  "emit bs e\<lparr>curr_symbol_index := a\<rparr> = emit bs (e\<lparr>curr_symbol_index := a\<rparr>)"
  "emit bs e\<lparr>last_local_symbol_index := a\<rparr> = emit bs (e\<lparr>last_local_symbol_index := a\<rparr>)"
  "emit bs e\<lparr>entry_point_virtual_address := a\<rparr> = emit bs (e\<lparr>entry_point_virtual_address := a\<rparr>)"
  by (simp_all add: emit_def)

lemma tell_emit [simp]: "tell (emit bs e) = tell e + of_nat (length bs)"
  by (simp add: tell_def emit_def checked_ftell_def checked_fwrite_def)

lemma upd_info_fields [simp]:
  "output_file (upd_info i g e) = output_file e" "elf_type (upd_info i g e) = elf_type e"
  "tell (upd_info i g e) = tell e" "length (section_infos (upd_info i g e)) = length (section_infos e)"
  "last_local_symbol_index (upd_info i g e) = last_local_symbol_index e"
  "curr_symbol_index (upd_info i g e) = curr_symbol_index e" "next_string_index (upd_info i g e) = next_string_index e"
  "entry_point_virtual_address (upd_info i g e) = entry_point_virtual_address e"
  by (simp_all add: upd_info_def tell_def)

lemma info_upd_info [simp]:
  "i < length (section_infos e) \<Longrightarrow> info (upd_info i g e) j = (if i = j then g (info e j) else info e j)"
  by (simp add: upd_info_def)

lemma seek_fields [simp]:
  "section_infos (seek p e) = section_infos e" "elf_type (seek p e) = elf_type e" "tell (seek p e) = of_nat p"
  "next_string_index (seek p e) = next_string_index e" "curr_symbol_index (seek p e) = curr_symbol_index e"
  "last_local_symbol_index (seek p e) = last_local_symbol_index e"
  "entry_point_virtual_address (seek p e) = entry_point_virtual_address e"
  by (simp_all add: seek_def tell_def checked_ftell_def checked_fseek_def)

lemma upd_info_seek [simp]: "upd_info i g (seek p e) = seek p (upd_info i g e)"
  by (simp add: upd_info_def seek_def)

lemma seek_updates [simp]: "seek p e\<lparr>curr_symbol_index := a\<rparr> = seek p (e\<lparr>curr_symbol_index := a\<rparr>)"
  "seek p e\<lparr>next_string_index := a\<rparr> = seek p (e\<lparr>next_string_index := a\<rparr>)"
  "seek p e\<lparr>last_local_symbol_index := a\<rparr> = seek p (e\<lparr>last_local_symbol_index := a\<rparr>)"
  "seek p e\<lparr>entry_point_virtual_address := a\<rparr> = seek p (e\<lparr>entry_point_virtual_address := a\<rparr>)"
  by (simp_all add: seek_def)

section \<open>Relocations as a list\<close>

fun collect :: "('a \<Rightarrow> 'b option run) \<Rightarrow> 'a list \<Rightarrow> 'b list run" where
  "collect g [] = Inr []"
| "collect g (x # xs) = rbind (g x) (\<lambda>r. rbind (collect g xs) (\<lambda>rs. Inr (case r of None \<Rightarrow> rs | Some r \<Rightarrow> r # rs)))"

lemma write_relas_collect:
  "write_relas g e fs = rbind (collect g fs) (\<lambda>rs. Inr (emit (concat (map encode_rela rs)) e))"
proof (induction fs arbitrary: e)
  case (Cons f fs)
  show ?case
  proof (cases "g f")
    case (Inr r)
    then show ?thesis using Cons.IH by (cases r; cases "collect g fs") auto
  qed simp
qed simp

section \<open>Where the sections are\<close>

abbreviation relas :: "elf64_rela list \<Rightarrow> u8 list" where
  "relas rs \<equiv> concat (map encode_rela rs)"

lemma length_relas [simp]: "length (relas rs) = 24 * length rs"
  by (induction rs) simp_all

definition rela_text_at :: "elf_file_type \<Rightarrow> asm_module \<Rightarrow> u32" where
  "rela_text_at t m = first_section_offset t + of_nat (length (text_bytes m))"

definition data_at :: "elf_file_type \<Rightarrow> asm_module \<Rightarrow> elf64_rela list \<Rightarrow> u32" where
  "data_at t m rt = rela_text_at t m + of_nat (24 * length rt)"

definition rela_data_at :: "elf_file_type \<Rightarrow> asm_module \<Rightarrow> elf64_rela list \<Rightarrow> u32" where
  "rela_data_at t m rt = data_at t m rt + of_nat (length (data_bytes m))"

definition shstrtab_at :: "elf_file_type \<Rightarrow> asm_module \<Rightarrow> elf64_rela list \<Rightarrow> elf64_rela list \<Rightarrow> u32" where
  "shstrtab_at t m rt rd = rela_data_at t m rt + of_nat (24 * length rd)"

definition symtab_at :: "elf_file_type \<Rightarrow> asm_module \<Rightarrow> elf64_rela list \<Rightarrow> elf64_rela list \<Rightarrow> u32" where
  "symtab_at t m rt rd = shstrtab_at t m rt rd + of_nat (length SHSTRTAB_CONTENTS)"

definition text_address :: "elf_file_type \<Rightarrow> u32" where
  "text_address t = 0x8000000 + first_section_offset t"

definition bss_address :: "elf_file_type \<Rightarrow> asm_module \<Rightarrow> elf64_rela list \<Rightarrow> u32" where
  "bss_address t m rt = align_to (text_address t) 0x1000000 + data_at t m rt"

definition data_address :: "elf_file_type \<Rightarrow> asm_module \<Rightarrow> elf64_rela list \<Rightarrow> u32" where
  "data_address t m rt = align_to (bss_address t m rt) 0x1000000 + data_at t m rt"

definition placed_sections ::
  "elf_file_type \<Rightarrow> asm_module \<Rightarrow> elf64_rela list \<Rightarrow> elf64_rela list \<Rightarrow> section_info list" where
  "placed_sections t m rt rd =
     [no_section,
      \<lparr>info_size = of_nat (length (text_bytes m)), info_offset = first_section_offset t,
        info_virtual_address = text_address t, info_contents = text_bytes m\<rparr>,
      no_section\<lparr>info_size := of_nat (24 * length rt), info_offset := rela_text_at t m\<rparr>,
      \<lparr>info_size = bss_size m, info_offset = data_at t m rt, info_virtual_address = bss_address t m rt, info_contents = []\<rparr>,
      \<lparr>info_size = of_nat (length (data_bytes m)), info_offset = data_at t m rt,
        info_virtual_address = data_address t m rt, info_contents = data_bytes m\<rparr>,
      no_section\<lparr>info_size := of_nat (24 * length rd), info_offset := rela_data_at t m rt\<rparr>,
      no_section\<lparr>info_size := of_nat (length SHSTRTAB_CONTENTS), info_offset := shstrtab_at t m rt rd\<rparr>,
      no_section\<lparr>info_offset := symtab_at t m rt rd\<rparr>,
      no_section]"

definition placed_file ::
  "elf_file_type \<Rightarrow> asm_module \<Rightarrow> elf64_rela list \<Rightarrow> elf64_rela list \<Rightarrow> elf_file" where
  "placed_file t m rt rd =
     seek (unat (first_section_offset t)) ((init_elf_file (open_file []) t)\<lparr>curr_symbol_index := 1,
       section_infos := placed_sections t m rt rd\<rparr>)"

definition first_contents :: "asm_module \<Rightarrow> elf64_rela list \<Rightarrow> elf64_rela list \<Rightarrow> u8 list" where
  "first_contents m rt rd =
     text_bytes m @ relas rt @ data_bytes m @ relas rd @ SHSTRTAB_CONTENTS @ replicate 24 0"

lemmas index_defs = TEXT_INDEX_def RELA_TEXT_INDEX_def BSS_INDEX_def DATA_INDEX_def RELA_DATA_INDEX_def
  SHSTRTAB_INDEX_def SYMTAB_INDEX_def STRTAB_INDEX_def

lemmas section_at_defs = rela_text_at_def data_at_def rela_data_at_def shstrtab_at_def symtab_at_def
  bss_address_def data_address_def text_address_def

lemma length_shstrtab: "length SHSTRTAB_CONTENTS = 66"
  by (simp add: SHSTRTAB_CONTENTS_def section_names_def)

lemma length_word: "n < 2 ^ 32 \<Longrightarrow> unat (of_nat n :: u32) = n"
  by (simp add: unat_of_nat)

lemma elf_file_for_fields [simp]:
  "length (section_infos (elf_file_for t m)) = 9" "elf_type (elf_file_for t m) = t"
  "curr_symbol_index (elf_file_for t m) = 0"
  "info_size (info (elf_file_for t m) TEXT_INDEX) = of_nat (length (text_bytes m))"
  "info_contents (info (elf_file_for t m) TEXT_INDEX) = text_bytes m"
  "info_size (info (elf_file_for t m) DATA_INDEX) = of_nat (length (data_bytes m))"
  "info_contents (info (elf_file_for t m) DATA_INDEX) = data_bytes m"
  by (simp_all add: elf_file_for_def set_section_def init_elf_file_def NUM_SECTIONS_def index_defs)

lemma index_bounds [simp]:
  "TEXT_INDEX < 9" "RELA_TEXT_INDEX < 9" "BSS_INDEX < 9" "DATA_INDEX < 9" "RELA_DATA_INDEX < 9" "SHSTRTAB_INDEX < 9"
  "SYMTAB_INDEX < 9" "STRTAB_INDEX < 9"
  by (simp_all add: index_defs)

lemma index_neqs [simp]:
  "RELA_TEXT_INDEX \<noteq> DATA_INDEX" "BSS_INDEX \<noteq> DATA_INDEX" "TEXT_INDEX \<noteq> DATA_INDEX" "SYMTAB_INDEX \<noteq> STRTAB_INDEX"
  by (simp_all add: index_defs)

lemma nine_sections: "replicate 9 x = [x, x, x, x, x, x, x, x, x]"
  by (simp add: eval_nat_numeral)

lemma write_contents_result:
  assumes "length (text_bytes m) < 2 ^ 32" "length (data_bytes m) < 2 ^ 32"
    and "collect (text_rela heap) fs = Inr rt" "collect (data_rela heap) fs = Inr rd"
  shows "write_contents heap (elf_file_for t m) fs = Inr (emit (first_contents m rt rd) (placed_file t m rt rd))"
proof -
  have "write_contents heap (elf_file_for t m) fs =
    Inr (emit (first_contents m rt rd) (seek (unat (first_section_offset t))
      (upd_info SYMTAB_INDEX (\<lambda>s. s\<lparr>info_offset := symtab_at t m rt rd\<rparr>)
      (upd_info SHSTRTAB_INDEX (\<lambda>s. s\<lparr>info_offset := shstrtab_at t m rt rd, info_size := of_nat (length SHSTRTAB_CONTENTS)\<rparr>)
      (upd_info RELA_DATA_INDEX (\<lambda>s. s\<lparr>info_offset := rela_data_at t m rt, info_size := of_nat (24 * length rd)\<rparr>)
      (upd_info DATA_INDEX (\<lambda>s. s\<lparr>info_offset := data_at t m rt, info_virtual_address := data_address t m rt\<rparr>)
      (upd_info BSS_INDEX (\<lambda>s. s\<lparr>info_offset := data_at t m rt, info_virtual_address := bss_address t m rt\<rparr>)
      (upd_info RELA_TEXT_INDEX (\<lambda>s. s\<lparr>info_offset := rela_text_at t m, info_size := of_nat (24 * length rt)\<rparr>)
      (upd_info TEXT_INDEX (\<lambda>s. s\<lparr>info_offset := first_section_offset t, info_virtual_address := text_address t\<rparr>)
        (elf_file_for t m))))))))\<lparr>curr_symbol_index := 1\<rparr>))"
    using assms
    by (simp add: write_contents_def write_relas_collect Let_def section_bytes_def length_word
        section_at_defs first_contents_def ac_simps)
  then show ?thesis
    by (simp add: elf_file_for_def set_section_def init_elf_file_def upd_info_def NUM_SECTIONS_def
        nine_sections index_defs placed_file_def placed_sections_def no_section_def)
qed

section \<open>Symbols and names\<close>

definition symtab_entry :: "u32 \<Rightarrow> u8 \<Rightarrow> u8 \<Rightarrow> u16 \<Rightarrow> u32 \<Rightarrow> u32 \<Rightarrow> elf64_symbol" where
  "symtab_entry i type binding section v sz =
     \<lparr>strtab_index_for_name = i, type_and_binding = ELF64_SYMBOL_TYPE_AND_BINDING type binding, st_reserved = 0,
      st_section = section, st_value = scast v, st_size = ucast sz\<rparr>"

fun symtab_entries :: "u32 \<Rightarrow> asm_symbol list \<Rightarrow> elf64_symbol list run" where
  "symtab_entries i [] = Inr []"
| "symtab_entries i (sb # sbs) =
     rbind (symbol_section_index sb) (\<lambda>section.
     rbind (symtab_entries (i + of_nat (length (symbol_name sb) + 1)) sbs) (\<lambda>es.
       Inr (symtab_entry i STT_FUNC (symbol_binding sb) section (symbol_offset sb) (symbol_size sb) # es)))"

definition names_size :: "string list \<Rightarrow> nat" where
  "names_size names = sum_list (map (\<lambda>s. length s + 1) names)"

definition names_bytes :: "string list \<Rightarrow> u8 list" where
  "names_bytes names = concat (map (\<lambda>s. string_bytes s @ [0]) names)"

lemma length_names_bytes [simp]: "length (names_bytes names) = names_size names"
  by (induction names) (simp_all add: names_bytes_def names_size_def)

lemma names_simps [simp]:
  "names_size [] = 0" "names_size (s # ss) = length s + 1 + names_size ss"
  "names_bytes [] = []" "names_bytes (s # ss) = string_bytes s @ 0 # names_bytes ss"
  by (simp_all add: names_size_def names_bytes_def)

lemma length_symtab_entries: "symtab_entries i sbs = Inr es \<Longrightarrow> length es = length sbs"
  by (induction sbs arbitrary: i es) auto

lemma add_symbol_object:
  assumes "elf_type e = ET_REL"
  shows "add_symbol e type binding section name v sz =
    emit (encode_symbol (symtab_entry (next_string_index e) type binding section v sz))
      (e\<lparr>last_local_symbol_index := (if binding = STB_LOCAL then curr_symbol_index e else last_local_symbol_index e),
        next_string_index := next_string_index e + of_nat (length name + 1),
        curr_symbol_index := curr_symbol_index e + 1\<rparr>)"
  using assms by (simp add: add_symbol_def symtab_entry_def)

lemma add_symbols_object:
  assumes "elf_type e = ET_REL" "add_symbols e sbs = Inr e'"
  shows "\<exists>es l. symtab_entries (next_string_index e) sbs = Inr es \<and>
    e' = emit (concat (map encode_symbol es)) (e\<lparr>last_local_symbol_index := l,
      next_string_index := next_string_index e + of_nat (names_size (map symbol_name sbs)),
      curr_symbol_index := curr_symbol_index e + of_nat (length sbs)\<rparr>)"
  using assms
proof (induction sbs arbitrary: e)
  case Nil
  then show ?case by (auto intro!: exI [of _ "last_local_symbol_index e"])
next
  case (Cons sb sbs)
  obtain sc where sec: "symbol_section_index sb = Inr sc" using Cons.prems(2) by auto
  let ?e = "add_symbol e STT_FUNC (symbol_binding sb) sc (symbol_name sb) (symbol_offset sb) (symbol_size sb)"
  have "add_symbols ?e sbs = Inr e'" "elf_type ?e = ET_REL"
    using Cons.prems sec by (simp_all add: add_symbol_object)
  from Cons.IH [OF this(2,1)] obtain es l where
    "symtab_entries (next_string_index ?e) sbs = Inr es"
    "e' = emit (concat (map encode_symbol es)) (?e\<lparr>last_local_symbol_index := l,
      next_string_index := next_string_index ?e + of_nat (names_size (map symbol_name sbs)),
      curr_symbol_index := curr_symbol_index ?e + of_nat (length sbs)\<rparr>)" by blast
  then show ?case using Cons.prems(1) sec
    by (auto simp: add_symbol_object algebra_simps intro!: exI [of _ l])
qed

lemma fold_add_string:
  assumes "\<forall>s\<in>set names. CHR 0x00 \<notin> set s"
  shows "fold (\<lambda>s e. add_string e s) names e = emit (names_bytes names) e"
  using assms
proof (induction names arbitrary: e)
  case (Cons s ss)
  have "takeWhile (\<lambda>c. c \<noteq> CHR 0x00) s = s" by (rule takeWhile_eq_all_conv [THEN iffD2]) (use Cons.prems in auto)
  then have "add_string e s = emit (string_bytes s @ [0]) e" for e unfolding add_string_def by (simp only: emit_emit)
  then show ?case using Cons by simp
qed simp

section \<open>The bytes of an object file\<close>

definition object_sections ::
  "asm_module \<Rightarrow> elf64_rela list \<Rightarrow> elf64_rela list \<Rightarrow> nat \<Rightarrow> nat \<Rightarrow> section_info list" where
  "object_sections m rt rd n k =
     (placed_sections ET_REL m rt rd)
       [SYMTAB_INDEX := no_section\<lparr>info_offset := symtab_at ET_REL m rt rd, info_size := of_nat (24 * n)\<rparr>,
        STRTAB_INDEX := no_section\<lparr>info_offset := symtab_at ET_REL m rt rd + of_nat (24 * n), info_size := of_nat k\<rparr>]"

definition object_file :: "asm_module \<Rightarrow> elf64_rela list \<Rightarrow> elf64_rela list \<Rightarrow> nat \<Rightarrow> nat \<Rightarrow> elf_file" where
  "object_file m rt rd n k = (init_elf_file (open_file []) ET_REL)\<lparr>last_local_symbol_index := of_nat (n - 1),
     section_infos := object_sections m rt rd n k\<rparr>"

definition symtab_bytes :: "elf64_symbol list \<Rightarrow> u8 list" where
  "symtab_bytes es = replicate 24 0 @ concat (map encode_symbol es)"

lemma length_symtab_bytes [simp]: "length (symtab_bytes es) = 24 * (length es + 1)"
  by (induction es) (simp_all add: symtab_bytes_def)

definition object_bytes ::
  "asm_module \<Rightarrow> elf64_rela list \<Rightarrow> elf64_rela list \<Rightarrow> elf64_symbol list \<Rightarrow> string list \<Rightarrow> u8 list" where
  "object_bytes m rt rd es names =
     (let e = object_file m rt rd (length es + 1) (1 + names_size names) in
      encode_elf_header (file_header e) @ concat (map encode_section_header (section_headers e)) @
      text_bytes m @ relas rt @ data_bytes m @ relas rd @ SHSTRTAB_CONTENTS @ symtab_bytes es @ 0 # names_bytes names)"

lemma headers_in_front:
  assumes "fbytes (output_file e) = []" "length h + length hs = p" "xs \<noteq> []" "h \<noteq> []" "hs \<noteq> []"
  shows "fbytes (output_file (emit hs (seek (length h) (emit h (seek 0 (emit xs (seek p e))))))) = h @ hs @ xs"
  using assms by (auto simp: emit_def seek_def checked_fwrite_def checked_fseek_def overwrite_def)

lemma emit_nonempty_infos: "section_headers (emit bs e) = section_headers e" "file_header (emit bs e) = file_header e"
  "section_headers (seek p e) = section_headers e" "file_header (seek p e) = file_header e"
  by (simp_all add: section_headers_def file_header_def placed_header_def split: elf_file_type.split)

definition file_entry :: "asm_symbol list \<Rightarrow> elf64_symbol" where
  "file_entry sbs = symtab_entry (1 + of_nat (names_size (map symbol_name sbs))) STT_FILE STB_LOCAL SHN_ABS 0 0"

definition object_names :: "asm_module \<Rightarrow> asm_symbol list \<Rightarrow> string list" where
  "object_names m sbs = map symbol_name sbs @ [input_file_name m]"

lemma write_contents_collects:
  assumes "write_contents heap (elf_file_for t m) fs = Inr e"
  shows "\<exists>rt rd. collect (text_rela heap) fs = Inr rt \<and> collect (data_rela heap) fs = Inr rd"
  using assms by (auto simp: write_contents_def write_relas_collect Let_def)

lemma fold_add_names: "fold (\<lambda>sb e. add_string e (symbol_name sb)) sbs e = fold (\<lambda>s e. add_string e s) (map symbol_name sbs) e"
  by (simp add: fold_map comp_def)

lemma placed_file_fields [simp]:
  "elf_type (placed_file t m rt rd) = t" "next_string_index (placed_file t m rt rd) = 1"
  "curr_symbol_index (placed_file t m rt rd) = 1" "tell (placed_file t m rt rd) = first_section_offset t"
  "section_infos (placed_file t m rt rd) = placed_sections t m rt rd"
  by (simp_all add: placed_file_def init_elf_file_def)

lemma placed_sections_fields [simp]:
  "length (placed_sections t m rt rd) = 9" "placed_sections t m rt rd ! SYMTAB_INDEX = no_section\<lparr>info_offset := symtab_at t m rt rd\<rparr>"
  "placed_sections t m rt rd ! STRTAB_INDEX = no_section"
  by (simp_all add: placed_sections_def index_defs)

lemma length_first_contents:
  "first_section_offset t + of_nat (length (first_contents m rt rd)) = symtab_at t m rt rd + 24"
  by (simp add: first_contents_def section_at_defs)

lemma finish_object_bytes:
  assumes "elf_type e = ET_REL" "finish_strtab_section (emit xs (seek 640 e)) = Inr e'" "xs \<noteq> []" "fbytes (output_file e) = []"
    and "length (section_infos e) = 9"
  defines "f \<equiv> upd_info STRTAB_INDEX (\<lambda>s. s\<lparr>info_size := 640 + of_nat (length xs) - info_offset (info e STRTAB_INDEX)\<rparr>) e"
  shows "fbytes (output_file e') =
    encode_elf_header (file_header f) @ concat (map encode_section_header (section_headers f)) @ xs"
proof -
  have id16: "length (ident (file_header f)) = 16" by (simp add: file_header_def ELF_MAGIC_def)
  have hs: "length (concat (map encode_section_header (section_headers f))) = 576" by (simp add: section_headers_def)
  have "e' = emit (concat (map encode_section_header (section_headers f))) (seek 64
      (emit (encode_elf_header (file_header f)) (seek 0 (emit xs (seek 640 f)))))"
    using assms(1,2) unfolding f_def
    by (auto simp: finish_strtab_section_def Let_def emit_nonempty_infos split: if_splits)
  moreover have "fbytes (output_file f) = []" using assms(4) by (simp add: f_def)
  moreover have "length (encode_elf_header (file_header f)) = 64" by (rule encode_lengths(1) [OF id16])
  moreover from this have "encode_elf_header (file_header f) \<noteq> []" by auto
  moreover have "concat (map encode_section_header (section_headers f)) \<noteq> []" using hs by force
  ultimately show ?thesis
    using headers_in_front [of f "encode_elf_header (file_header f)" "concat (map encode_section_header (section_headers f))" 640 xs]
      hs assms(3) by simp
qed

lemma first_object_offset: "first_section_offset ET_REL = 640" "first_section_offset ET_EXEC = 808"
  by (simp_all add: first_section_offset_def NUM_SECTIONS_def)

lemma unat_first_offset: "unat (first_section_offset ET_REL) = 640" "unat (first_section_offset ET_EXEC) = 808"
  unfolding first_object_offset by code_simp+

lemma placed_object: "placed_file ET_REL m rt rd =
  seek 640 ((init_elf_file (open_file []) ET_REL)\<lparr>curr_symbol_index := 1, section_infos := placed_sections ET_REL m rt rd\<rparr>)"
  by (simp add: placed_file_def unat_first_offset)

lemma names_append [simp]: "names_size (xs @ ys) = names_size xs + names_size ys"
  "names_bytes (xs @ ys) = names_bytes xs @ names_bytes ys"
  by (simp_all add: names_size_def names_bytes_def)

lemma finish_symtab_emit:
  assumes "length (section_infos e) = 9"
  shows "finish_symtab_section (emit xs e) = emit (xs @ [0])
    (upd_info STRTAB_INDEX (\<lambda>s. s\<lparr>info_offset := tell e + of_nat (length xs)\<rparr>)
      (upd_info SYMTAB_INDEX (\<lambda>s. s\<lparr>info_size := tell e + of_nat (length xs) - info_offset (info e SYMTAB_INDEX)\<rparr>) e))"
  using assms by (simp add: finish_symtab_section_def Let_def)

lemma object_headers_cong:
  assumes "section_infos e = section_infos e'" "last_local_symbol_index e = last_local_symbol_index e'"
    "elf_type e = ET_REL" "elf_type e' = ET_REL"
  shows "section_headers e = section_headers e'" "file_header e = file_header e'"
  using assms by (simp_all add: section_headers_def placed_header_def file_header_def)

lemma write_object_bytes:
  assumes "write_elf_object_file True m = Inr obj" "symbols_of (symbol_heap m) (symbols m) = Inr sbs"
    and sizes: "length (text_bytes m) < 2 ^ 32" "length (data_bytes m) < 2 ^ 32" "length sbs + 2 < 2 ^ 32"
    and names: "\<forall>s\<in>set (object_names m sbs). CHR 0x00 \<notin> set s"
  shows "\<exists>rt rd es. collect (text_rela (symbol_heap m)) (fixups m) = Inr rt \<and>
    collect (data_rela (symbol_heap m)) (fixups m) = Inr rd \<and> symtab_entries 1 sbs = Inr es \<and>
    obj = object_bytes m rt rd (es @ [file_entry sbs]) (object_names m sbs)"
proof -
  obtain e0 e1 e2 where w: "write_contents (symbol_heap m) (elf_file_for ET_REL m) (fixups m) = Inr e0"
    "add_symbols e0 sbs = Inr e1"
    "finish_strtab_section (add_string (fold (\<lambda>sb e. add_string e (symbol_name sb)) sbs
      (finish_symtab_section (add_symbol e1 STT_FILE STB_LOCAL SHN_ABS (input_file_name m) 0 0))) (input_file_name m)) = Inr e2"
    "obj = fbytes (output_file e2)"
    using assms(1,2) by (auto simp: write_elf_object_file_def Let_def)
  obtain rt rd where c: "collect (text_rela (symbol_heap m)) (fixups m) = Inr rt"
    "collect (data_rela (symbol_heap m)) (fixups m) = Inr rd" using write_contents_collects [OF w(1)] by blast
  have e0: "e0 = emit (first_contents m rt rd) (placed_file ET_REL m rt rd)"
    using w(1) write_contents_result [OF sizes(1,2) c] by simp
  obtain es l where es: "symtab_entries 1 sbs = Inr es"
    "e1 = emit (concat (map encode_symbol es)) (e0\<lparr>last_local_symbol_index := l,
      next_string_index := 1 + of_nat (names_size (map symbol_name sbs)), curr_symbol_index := 1 + of_nat (length sbs)\<rparr>)"
    using add_symbols_object [of e0 sbs e1] w(2) e0 by auto
  let ?n = "length es + 2"
  define xs where "xs = first_contents m rt rd @ concat (map encode_symbol (es @ [file_entry sbs]))"
  define k where "k = (of_nat (24 * ?n) :: u32)"
  let ?e = "(init_elf_file (open_file []) ET_REL)\<lparr>curr_symbol_index := 2 + of_nat (length sbs),
      last_local_symbol_index := 1 + of_nat (length sbs), next_string_index := 1 + of_nat (names_size (object_names m sbs)),
      section_infos := placed_sections ET_REL m rt rd\<rparr>"
  let ?f = "upd_info STRTAB_INDEX (\<lambda>s. s\<lparr>info_offset := symtab_at ET_REL m rt rd + k\<rparr>)
      (upd_info SYMTAB_INDEX (\<lambda>s. s\<lparr>info_size := k\<rparr>) ?e)"
  have len: "length es = length sbs" by (rule length_symtab_entries [OF es(1)])
  have sz: "640 + of_nat (length xs) = symtab_at ET_REL m rt rd + k"
    using length_first_contents [of ET_REL m rt rd] len unfolding xs_def k_def
    by (simp add: first_object_offset length_concat comp_def sum_list_triv algebra_simps)
  have "add_symbol e1 STT_FILE STB_LOCAL SHN_ABS (input_file_name m) 0 0 = emit xs (seek 640 ?e)"
    using es(2) e0 unfolding xs_def
    by (simp add: add_symbol_object file_entry_def placed_object init_elf_file_def object_names_def algebra_simps)
  then have st: "finish_symtab_section (add_symbol e1 STT_FILE STB_LOCAL SHN_ABS (input_file_name m) 0 0) =
      emit (xs @ [0]) (seek 640 ?f)"
    using finish_symtab_emit [of "seek 640 ?e" xs] sz by simp
  let ?ys = "xs @ 0 # names_bytes (object_names m sbs)"
  have "add_string (fold (\<lambda>sb e. add_string e (symbol_name sb)) sbs (emit (xs @ [0]) (seek 640 ?f))) (input_file_name m) =
      emit ?ys (seek 640 ?f)"
    using fold_add_string [of "map symbol_name sbs" "emit (xs @ [0]) (seek 640 ?f)"]
      fold_add_string [of "[input_file_name m]"] names
    unfolding fold_add_names by (simp add: object_names_def)
  then have fin: "finish_strtab_section (emit ?ys (seek 640 ?f)) = Inr e2" using w(3) st by simp
  have "obj = encode_elf_header (file_header (object_file m rt rd ?n (1 + names_size (object_names m sbs)))) @
      concat (map encode_section_header (section_headers (object_file m rt rd ?n (1 + names_size (object_names m sbs))))) @ ?ys"
  proof -
    let ?g = "upd_info STRTAB_INDEX (\<lambda>s. s\<lparr>info_size := 640 + of_nat (length ?ys) - info_offset (info ?f STRTAB_INDEX)\<rparr>) ?f"
    let ?o = "object_file m rt rd ?n (1 + names_size (object_names m sbs))"
    have "640 + of_nat (length ?ys) = (640 + of_nat (length xs)) + (1 + of_nat (names_size (object_names m sbs)) :: u32)"
      by simp
    then have q: "640 + of_nat (length ?ys) - (symtab_at ET_REL m rt rd + k) = 1 + of_nat (names_size (object_names m sbs))"
      unfolding sz by (simp only: add_diff_cancel_left')
    have off: "info_offset (info ?f STRTAB_INDEX) = symtab_at ET_REL m rt rd + k" by simp
    have "section_infos ?g = section_infos ?o" "last_local_symbol_index ?g = last_local_symbol_index ?o"
      "elf_type ?g = ET_REL" "elf_type ?o = ET_REL"
      using len unfolding off q by (simp_all add: object_file_def init_elf_file_def object_sections_def upd_info_def k_def)
    then have "section_headers ?g = section_headers ?o" "file_header ?g = file_header ?o"
      by (rule object_headers_cong)+
    then show ?thesis
      using finish_object_bytes [OF _ fin] w(4) by (simp add: init_elf_file_def open_file_def)
  qed
  then have "obj = object_bytes m rt rd (es @ [file_entry sbs]) (object_names m sbs)"
    by (simp add: object_bytes_def Let_def xs_def first_contents_def symtab_bytes_def)
  then show ?thesis using c es(1) by blast
qed

end
