(* ===== verification/Naive_Linker_Properties.thy ===== *)
theory Naive_Linker_Properties
  imports Naive_Elf_Properties
begin

text \<open>
  Correctness of the linker: reading an object file back links the module it was written from,
  alone or as a member of an archive.
\<close>

section \<open>Reading\<close>

lemma read_here:
  assumes "fbytes f = a @ x @ b" "fposition f = length a" "n = length x"
  shows "checked_fread f n = Inr (x, f\<lparr>fposition := length a + n\<rparr>)"
  using assms by (auto simp: checked_fread_def fread_item_def)

lemma fread_here:
  assumes "fbytes f = a @ x @ b" "fposition f = length a" "n = length x"
  shows "fread_item f n = Some (x, f\<lparr>fposition := length a + n\<rparr>)"
  using assms by (auto simp: fread_item_def)

lemma fseek_fields [simp]: "fbytes (checked_fseek f p) = fbytes f" "fposition (checked_fseek f p) = p"
  "checked_fseek (checked_fseek f p) q = checked_fseek f q" "checked_fseek (f\<lparr>fposition := p\<rparr>) q = checked_fseek f q"
  "(checked_fseek f p)\<lparr>fposition := q\<rparr> = checked_fseek f q"
  by (simp_all add: checked_fseek_def)

fun each_symbol :: "nat \<Rightarrow> (nat \<Rightarrow> elf64_symbol \<Rightarrow> 's \<Rightarrow> 's run) \<Rightarrow> elf64_symbol list \<Rightarrow> 's \<Rightarrow> 's run" where
  "each_symbol i add [] s = Inr s"
| "each_symbol i add (e # es) s = rbind (add i e s) (\<lambda>s. each_symbol (Suc i) add es s)"

fun each_rela :: "(elf64_rela \<Rightarrow> 's \<Rightarrow> 's run) \<Rightarrow> elf64_rela list \<Rightarrow> 's \<Rightarrow> 's run" where
  "each_rela add [] s = Inr s"
| "each_rela add (r # rs) s = rbind (add r s) (\<lambda>s. each_rela add rs s)"

lemma read_symbols_each:
  assumes "fbytes f = a @ concat (map encode_symbol es) @ b" "fposition f = length a"
  shows "read_symbols i (length es) add f s =
    rbind (each_symbol i add es s) (\<lambda>s. Inr (s, f\<lparr>fposition := length a + 24 * length es\<rparr>))"
  using assms
proof (induction es arbitrary: i f s a)
  case (Cons e es)
  have r: "checked_fread f 24 = Inr (encode_symbol e, f\<lparr>fposition := length a + 24\<rparr>)"
    using Cons.prems by (intro read_here) auto
  show ?case
  proof (cases "add i e s")
    case (Inr s')
    then show ?thesis
      using Cons.IH [of "f\<lparr>fposition := length a + 24\<rparr>" "a @ encode_symbol e" "Suc i" s'] Cons.prems r
        decode_encode_symbol [of e "[]"] by (simp add: algebra_simps)
  qed (use r decode_encode_symbol [of e "[]"] in simp)
qed simp

lemma read_relas_each:
  assumes "fbytes f = a @ relas rs @ b" "fposition f = length a"
  shows "read_relas (length rs) add f s =
    rbind (each_rela add rs s) (\<lambda>s. Inr (s, f\<lparr>fposition := length a + 24 * length rs\<rparr>))"
  using assms
proof (induction rs arbitrary: f s a)
  case (Cons e es)
  have r: "checked_fread f 24 = Inr (encode_rela e, f\<lparr>fposition := length a + 24\<rparr>)"
    using Cons.prems by (intro read_here) auto
  show ?case
  proof (cases "add e s")
    case (Inr s')
    then show ?thesis
      using Cons.IH [of "f\<lparr>fposition := length a + 24\<rparr>" "a @ encode_rela e" s'] Cons.prems r
        decode_encode_rela [of e "[]"] by (simp add: algebra_simps)
  qed (use r decode_encode_rela [of e "[]"] in simp)
qed simp

section \<open>The headers of an object file\<close>

text \<open>The offsets of the sections as numbers.\<close>

definition offs_rela_text :: "asm_module \<Rightarrow> nat" where
  "offs_rela_text m = 640 + length (text_bytes m)"

definition offs_data :: "asm_module \<Rightarrow> elf64_rela list \<Rightarrow> nat" where
  "offs_data m rt = offs_rela_text m + 24 * length rt"

definition offs_rela_data :: "asm_module \<Rightarrow> elf64_rela list \<Rightarrow> nat" where
  "offs_rela_data m rt = offs_data m rt + length (data_bytes m)"

definition offs_shstrtab :: "asm_module \<Rightarrow> elf64_rela list \<Rightarrow> elf64_rela list \<Rightarrow> nat" where
  "offs_shstrtab m rt rd = offs_rela_data m rt + 24 * length rd"

definition offs_symtab :: "asm_module \<Rightarrow> elf64_rela list \<Rightarrow> elf64_rela list \<Rightarrow> nat" where
  "offs_symtab m rt rd = offs_shstrtab m rt rd + 66"

lemmas offs_defs = offs_rela_text_def offs_data_def offs_rela_data_def offs_shstrtab_def offs_symtab_def

lemma offsets:
  "rela_text_at ET_REL m = of_nat (offs_rela_text m)" "data_at ET_REL m rt = of_nat (offs_data m rt)"
  "rela_data_at ET_REL m rt = of_nat (offs_rela_data m rt)"
  "shstrtab_at ET_REL m rt rd = of_nat (offs_shstrtab m rt rd)"
  "symtab_at ET_REL m rt rd = of_nat (offs_symtab m rt rd)"
  by (simp_all add: section_at_defs offs_defs first_object_offset length_shstrtab)

definition object_size :: "asm_module \<Rightarrow> elf64_rela list \<Rightarrow> elf64_rela list \<Rightarrow> elf64_symbol list \<Rightarrow> string list \<Rightarrow> nat" where
  "object_size m rt rd es names = offs_symtab m rt rd + 24 * (length es + 1) + 1 + names_size names"

lemma ident_length: "length (ident (file_header e)) = 16"
  by (simp add: file_header_def ELF_MAGIC_def)

lemma length_section_headers: "length (concat (map encode_section_header (section_headers e))) = 576"
  by (simp add: section_headers_def)

lemma length_object_bytes: "length (object_bytes m rt rd es names) = object_size m rt rd es names"
  using encode_lengths(1) [OF ident_length] length_section_headers
  by (simp add: object_bytes_def Let_def object_size_def offs_defs length_shstrtab)

lemma decode_headers:
  assumes "bs = concat (map encode_section_header hs)"
  shows "map (\<lambda>i. decode_section_header (take 64 (drop (64 * i) bs))) [0..<length hs] = hs"
  unfolding assms
proof (induction hs)
  case (Cons h hs)
  have "map (\<lambda>i. decode_section_header (take 64 (drop (64 * i) (concat (map encode_section_header (h # hs))))))
      [0..<length (h # hs)] = decode_section_header (encode_section_header h) #
      map (\<lambda>i. decode_section_header (take 64 (drop (64 * Suc i) (concat (map encode_section_header (h # hs))))))
      [0..<length hs]"
    by (subst upt_conv_Cons) (simp_all add: map_Suc_upt [symmetric] comp_def del: upt_Suc)
  also have "\<dots> = h # hs"
    using Cons decode_encode_section_header [of h "[]"] by simp
  finally show ?case .
qed simp

lemma section_position_object:
  assumes "a + off < 2 ^ 32" "section_location h = ucast (of_nat off :: u32)"
  shows "section_position (of_nat a) h = a + off"
proof -
  have "unat (ucast (of_nat a :: u32) :: u64) + unat (ucast (of_nat off :: u32) :: u64) = a + off"
    using assms(1) by (simp add: unat_ucast_up unat_of_nat)
  moreover from this have "unat (ucast (of_nat a :: u32) + ucast (of_nat off :: u32) :: u64) = a + off"
    using assms(1) by (subst unat_add_no_wrap) simp_all
  ultimately show ?thesis using assms(2) by (simp add: section_position_def)
qed

abbreviation object_elf :: "asm_module \<Rightarrow> elf64_rela list \<Rightarrow> elf64_rela list \<Rightarrow> elf64_symbol list \<Rightarrow> string list \<Rightarrow> elf_file" where
  "object_elf m rt rd es names \<equiv> object_file m rt rd (Suc (length es)) (Suc (names_size names))"

lemma object_infos:
  "info (object_elf m rt rd es names) TEXT_INDEX = \<lparr>info_size = of_nat (length (text_bytes m)), info_offset = 640,
     info_virtual_address = text_address ET_REL, info_contents = text_bytes m\<rparr>"
  "info (object_elf m rt rd es names) RELA_TEXT_INDEX = no_section\<lparr>info_size := of_nat (24 * length rt),
     info_offset := of_nat (offs_rela_text m)\<rparr>"
  "info (object_elf m rt rd es names) BSS_INDEX = \<lparr>info_size = bss_size m, info_offset = of_nat (offs_data m rt),
     info_virtual_address = bss_address ET_REL m rt, info_contents = []\<rparr>"
  "info (object_elf m rt rd es names) DATA_INDEX = \<lparr>info_size = of_nat (length (data_bytes m)),
     info_offset = of_nat (offs_data m rt), info_virtual_address = data_address ET_REL m rt, info_contents = data_bytes m\<rparr>"
  "info (object_elf m rt rd es names) RELA_DATA_INDEX = no_section\<lparr>info_size := of_nat (24 * length rd),
     info_offset := of_nat (offs_rela_data m rt)\<rparr>"
  "info (object_elf m rt rd es names) SHSTRTAB_INDEX = no_section\<lparr>info_size := 66,
     info_offset := of_nat (offs_shstrtab m rt rd)\<rparr>"
  "info (object_elf m rt rd es names) SYMTAB_INDEX = no_section\<lparr>info_size := of_nat (24 * (length es + 1)),
     info_offset := of_nat (offs_symtab m rt rd)\<rparr>"
  "info (object_elf m rt rd es names) STRTAB_INDEX = no_section\<lparr>info_size := of_nat (1 + names_size names),
     info_offset := of_nat (offs_symtab m rt rd + 24 * (length es + 1))\<rparr>"
  by (simp_all add: object_file_def object_sections_def placed_sections_def index_defs offsets first_object_offset
      length_shstrtab no_section_def)

text \<open>An object file inside a larger file, from an offset on.\<close>

definition holds_object ::
  "c_file \<Rightarrow> nat \<Rightarrow> asm_module \<Rightarrow> elf64_rela list \<Rightarrow> elf64_rela list \<Rightarrow> elf64_symbol list \<Rightarrow> string list \<Rightarrow> bool" where
  "holds_object f p m rt rd es names =
     (\<exists>a b. fbytes f = a @ object_bytes m rt rd es names @ b \<and> length a = p \<and>
        p + object_size m rt rd es names < 2 ^ 32)"

lemma holds_object_seek [simp]:
  "holds_object (checked_fseek f q) p m rt rd es names = holds_object f p m rt rd es names"
  by (simp add: holds_object_def)

lemma object_magic: "strneq (bytes_string (string_bytes ELF_MAGIC @ bs)) ELF_MAGIC 4"
  by (simp add: string_bytes_def bytes_string_def ELF_MAGIC_def eval_nat_numeral)

lemma read_part:
  assumes "fbytes f = a @ x @ b" "length a = p" "n = length x"
  shows "checked_fread (checked_fseek f p) n = Inr (x, checked_fseek f (p + n))"
  using read_here [of "checked_fseek f p" a x b n] assms by simp

lemma read_headers_object:
  assumes h: "holds_object f p m rt rd es names" and pos: "fposition f = p"
  shows "\<exists>q. read_headers f (of_nat p) =
    Inr (Some ((section_headers (object_elf m rt rd es names), SHSTRTAB_CONTENTS), checked_fseek f q))"
proof -
  let ?e = "object_elf m rt rd es names"
  let ?hs = "concat (map encode_section_header (section_headers ?e))"
  obtain a b where ab: "fbytes f = a @ object_bytes m rt rd es names @ b" "length a = p"
    "p + object_size m rt rd es names < 2 ^ 32" using h by (auto simp: holds_object_def)
  have hl: "length (encode_elf_header (file_header ?e)) = 64" by (rule encode_lengths(1) [OF ident_length])
  have dec: "decode_elf_header (encode_elf_header (file_header ?e)) = file_header ?e"
    using decode_encode_elf_header [OF ident_length, of ?e "[]"] by simp
  obtain rest where ob: "object_bytes m rt rd es names = encode_elf_header (file_header ?e) @ ?hs @ rest"
    "rest = (text_bytes m @ relas rt @ data_bytes m @ relas rd) @ SHSTRTAB_CONTENTS @ symtab_bytes es @ 0 # names_bytes names"
    by (simp add: object_bytes_def Let_def)
  have r1: "fread_item f 64 = Some (encode_elf_header (file_header ?e), checked_fseek f (p + 64))"
    using fread_here [of f a "encode_elf_header (file_header ?e)" "?hs @ rest @ b" 64] ab(1,2) pos hl ob(1)
    by (simp add: checked_fseek_def)
  have u: "unat (of_nat p + 64 :: u32) = p + 64"
    using length_word [of "p + 64"] ab(3) by (simp add: object_size_def offs_defs)
  have r2: "checked_fread (checked_fseek f (p + 64)) 576 = Inr (?hs, checked_fseek f (p + 64 + 576))"
    by (rule read_part [of f "a @ encode_elf_header (file_header ?e)" _ "rest @ b"])
       (use ab hl ob length_section_headers in simp_all)
  have ty: "elf_type ?e = ET_REL" by (simp add: object_file_def init_elf_file_def)
  let ?sh = "section_headers ?e ! 6"
  have sh: "?sh = placed_header ?e SHSTRTAB_INDEX SHSTRTAB_NAME SHT_STRTAB" by (simp add: section_headers_def)
  have off: "section_location ?sh = ucast (of_nat (offs_shstrtab m rt rd) :: u32)" "section_size ?sh = 66"
    "sh_type ?sh = SHT_STRTAB"
    unfolding sh by (simp_all add: placed_header_def object_infos no_section_def)
  have sp: "section_position (of_nat p) ?sh = p + offs_shstrtab m rt rd"
    by (rule section_position_object [OF _ off(1)]) (use ab(3) in \<open>simp add: object_size_def offs_symtab_def\<close>)
  have r3: "checked_fread (checked_fseek f (p + offs_shstrtab m rt rd)) 66 =
      Inr (SHSTRTAB_CONTENTS, checked_fseek f (p + offs_shstrtab m rt rd + 66))"
    by (rule read_part [of f "a @ encode_elf_header (file_header ?e) @ ?hs @ text_bytes m @ relas rt @ data_bytes m @ relas rd"
          _ "symtab_bytes es @ 0 # names_bytes names @ b"])
       (use ab hl ob length_section_headers length_shstrtab in \<open>simp_all add: offs_defs\<close>)
  have nine: "length (section_headers ?e) = 9" by (simp add: section_headers_def)
  have d: "map (\<lambda>i. decode_section_header (take 64 (drop (64 * i) ?hs))) [0..<9] = section_headers ?e"
    using decode_headers [OF refl, of "section_headers ?e"] nine by simp
  have fh: "unat (sht_entries (file_header ?e)) = 9" "unat (shstrtab_index (file_header ?e)) = 6"
    "shstrtab_index (file_header ?e) < sht_entries (file_header ?e)" "sht_location (file_header ?e) = 64"
    "target_architecture (file_header ?e) = EM_X86_64" "section_header_size (file_header ?e) = 64"
    "strneq (bytes_string (ident (file_header ?e))) ELF_MAGIC 4"
    using object_magic by (simp_all add: file_header_def NUM_SECTIONS_def SHSTRTAB_INDEX_def)
  show ?thesis
    using r1 dec fh u r2 r3 d sp off
    by (simp add: read_headers_def Let_def del: upt_Suc nth_map) blast
qed

lemma section_name_strings:
  "c_string_at SHSTRTAB_CONTENTS 0 = Inr []" "c_string_at SHSTRTAB_CONTENTS (Suc 0) = Inr ''.text''"
  "c_string_at SHSTRTAB_CONTENTS 7 = Inr ''.rela.text''" "c_string_at SHSTRTAB_CONTENTS 18 = Inr ''.bss''"
  "c_string_at SHSTRTAB_CONTENTS 23 = Inr ''.data''" "c_string_at SHSTRTAB_CONTENTS 29 = Inr ''.rela.data''"
  "c_string_at SHSTRTAB_CONTENTS 40 = Inr ''.shstrtab''" "c_string_at SHSTRTAB_CONTENTS 50 = Inr ''.symtab''"
  "c_string_at SHSTRTAB_CONTENTS 58 = Inr ''.strtab''"
  by code_simp+

lemmas name_defs = TEXT_NAME_def RELA_TEXT_NAME_def BSS_NAME_def DATA_NAME_def RELA_DATA_NAME_def SHSTRTAB_NAME_def
  SYMTAB_NAME_def STRTAB_NAME_def

definition object_found :: "elf_file \<Rightarrow> found_sections" where
  "object_found e =
     \<lparr>text_header = Some (1, section_headers e ! 1), symtab_header = Some (section_headers e ! 7),
      strtab_header = Some (section_headers e ! 8), rela_text_header = Some (section_headers e ! 2),
      rela_data_header = Some (section_headers e ! 5), bss_header = Some (3, section_headers e ! 3),
      data_header = Some (4, section_headers e ! 4)\<rparr>"

lemma find_sections_object: "find_sections SHSTRTAB_CONTENTS 0 (section_headers e) nothing_found = Inr (object_found e)"
  by (simp add: section_headers_def placed_header_def null_header_def name_defs section_name_strings note_section_def
      nothing_found_def object_found_def)

lemma header_fields:
  "sh_type (section_headers e ! Suc 0) = SHT_PROGBITS" "sh_type (section_headers e ! 7) = SHT_SYMTAB"
  "entry_size (section_headers e ! 7) = 24" "sh_type (section_headers e ! 8) = SHT_STRTAB"
  "sh_type (section_headers e ! 2) = SHT_RELA" "entry_size (section_headers e ! 2) = 24"
  "sh_type (section_headers e ! 5) = SHT_RELA" "entry_size (section_headers e ! 5) = 24"
  by (simp_all add: section_headers_def placed_header_def null_header_def)

lemma header_places:
  assumes "i \<in> {1, 2, 3, 4, 5, 7, 8}"
  shows "section_location (section_headers e ! i) = ucast (info_offset (info e i))"
    "section_size (section_headers e ! i) = ucast (info_size (info e i))"
  using assms by (auto simp: section_headers_def placed_header_def index_defs)

section \<open>Linking a module in memory\<close>

text \<open>
  What linking an assembled module means, without a file: its sections are appended, its symbols
  are added to the table or resolved, and every fixup that \<^verbatim>\<open>assemble\<close> has left becomes a relocation
  of its symbol.
\<close>

definition module_place :: "asm_module \<Rightarrow> asm_symbol_section \<Rightarrow> symbol_place run" where
  "module_place m section =
     (case section of
        UNKNOWN_SECTION \<Rightarrow> exit_ice
      | TEXT_SECTION \<Rightarrow> Inr \<lparr>place_section = TEXT_INDEX, place_base = of_nat (length (text_bytes m))\<rparr>
      | BSS_SECTION \<Rightarrow> Inr \<lparr>place_section = BSS_INDEX, place_base = bss_size m\<rparr>
      | DATA_SECTION \<Rightarrow> Inr \<lparr>place_section = DATA_INDEX, place_base = of_nat (length (data_bytes m))\<rparr>)"

definition module_symbol :: "asm_symbol \<Rightarrow> symbol_place \<Rightarrow> link_symbol \<Rightarrow> link_symbol" where
  "module_symbol sb p s =
     s\<lparr>ls_section_index := place_section p, ls_section_offset := place_base p + symbol_offset sb, ls_defined := True,
       ls_name := symbol_name sb, ls_binding := symbol_binding sb, ls_size := symbol_size sb\<rparr>"

definition link_asm_symbol :: "asm_module \<Rightarrow> asm_symbol \<Rightarrow> link_symbol list \<Rightarrow> (link_symbol list \<times> nat) run" where
  "link_asm_symbol m sb table =
     (if \<not> symbol_defined sb then Inr (link_undefined STB_GLOBAL (symbol_name sb) table)
      else rbind (module_place m (symbol_section sb)) (\<lambda>p.
        case find_symbol table (symbol_binding sb) (symbol_name sb) of
          None \<Rightarrow> Inr (table @ [module_symbol sb p fresh_symbol], length table)
        | Some i \<Rightarrow>
            if ls_defined (table ! i) then linker_error
            else Inr (table[i := module_symbol sb p (table ! i)], i)))"

fun link_asm_symbols ::
  "asm_module \<Rightarrow> asm_symbol list \<Rightarrow> link_symbol list \<Rightarrow> (link_symbol list \<times> nat list) run" where
  "link_asm_symbols m [] table = Inr (table, [])"
| "link_asm_symbols m (sb # sbs) table =
     rbind (link_asm_symbol m sb table) (\<lambda>(table, k).
     rbind (link_asm_symbols m sbs table) (\<lambda>(table, ks). Inr (table, k # ks)))"

definition text_relocation :: "u32 \<Rightarrow> fixup \<Rightarrow> relocation" where
  "text_relocation base f =
     (case fixup_kind f of
        FIXUP_RELATIVE \<Rightarrow> \<lparr>reloc_type = R_X86_64_PC32, reloc_section_index = TEXT_INDEX,
          reloc_section_offset = base + fixup_offset f, reloc_addend = fixup_offset f - next_instr_offset f\<rparr>
      | FIXUP_ABSOLUTE \<Rightarrow> \<lparr>reloc_type = R_X86_64_64, reloc_section_index = TEXT_INDEX,
          reloc_section_offset = base + fixup_offset f, reloc_addend = 0\<rparr>)"

definition data_relocation :: "u32 \<Rightarrow> fixup \<Rightarrow> relocation" where
  "data_relocation base f = \<lparr>reloc_type = R_X86_64_64, reloc_section_index = DATA_INDEX,
     reloc_section_offset = base + fixup_offset f, reloc_addend = 0\<rparr>"

definition left_in_text :: "asm_symbol list \<Rightarrow> fixup \<Rightarrow> bool" where
  "left_in_text heap f = (fixup_section f = TEXT_SECTION \<and>
     \<not> (fixup_kind f = FIXUP_RELATIVE \<and> symbol_defined (heap ! fixup_symbol f) \<and>
        symbol_section (heap ! fixup_symbol f) = TEXT_SECTION))"

definition attach :: "asm_symbol list \<Rightarrow> nat list \<Rightarrow> (fixup \<Rightarrow> relocation) \<Rightarrow> fixup \<Rightarrow> link_symbol list \<Rightarrow> link_symbol list" where
  "attach heap ks reloc f table =
     (let k = ks ! (unat (symtab_index (heap ! fixup_symbol f)) - 1)
      in table[k := (table ! k)\<lparr>ls_relocs := ls_relocs (table ! k) @ [reloc f]\<rparr>])"

definition link_module :: "asm_module \<Rightarrow> asm_symbol list \<Rightarrow> link_state \<Rightarrow> link_state run" where
  "link_module m sbs st =
     (let d = linked st; heap = symbol_heap m in
      rbind (link_asm_symbols d sbs (symbol_table st)) (\<lambda>(table, ks).
        let table = fold (attach heap ks (text_relocation (of_nat (length (text_bytes d)))))
              (filter (left_in_text heap) (fixups m)) table;
            table = fold (attach heap ks (data_relocation (of_nat (length (data_bytes d)))))
              (filter (\<lambda>f. fixup_section f = DATA_SECTION) (fixups m)) table
        in Inr \<lparr>linked = append_sections d (text_bytes m) (data_bytes m) (bss_size m), symbol_table = table\<rparr>))"

section \<open>Symbols read back\<close>

lemma c_string_name:
  assumes "CHR 0x00 \<notin> set s" "bs = a @ string_bytes s @ 0 # b" "length a = i"
  shows "c_string_at bs i = Inr s"
proof -
  have nz: "char_byte c \<noteq> 0" if "c \<in> set s" for c
  proof
    assume "char_byte c = 0"
    then have "c = byte_char 0" by (metis char_byte_inverse)
    then show False using that assms(1) by (simp add: byte_char_def char_of_def)
  qed
  have "takeWhile (\<lambda>b. b \<noteq> 0) (string_bytes s @ 0 # b) = string_bytes s"
    using nz by (subst takeWhile_append2) (auto simp: string_bytes_def)
  then show ?thesis using assms(2,3) by (auto simp: c_string_at_def)
qed

lemma binding_back: "ELF64_SYMBOL_BINDING (ELF64_SYMBOL_TYPE_AND_BINDING STT_FUNC (symbol_binding sb)) = symbol_binding sb"
  "ELF64_SYMBOL_TYPE (ELF64_SYMBOL_TYPE_AND_BINDING STT_FUNC (symbol_binding sb)) = STT_FUNC"
  "ELF64_SYMBOL_TYPE (ELF64_SYMBOL_TYPE_AND_BINDING STT_FILE STB_LOCAL) = STT_FILE"
  by (simp_all add: ELF64_SYMBOL_BINDING_def ELF64_SYMBOL_TYPE_def ELF64_SYMBOL_TYPE_AND_BINDING_def symbol_binding_def
      STB_LOCAL_def STB_GLOBAL_def STT_FUNC_def STT_FILE_def)

lemma ucast_scast_u32: "ucast (scast (x :: u32) :: u64) = x"
  by (rule bit_word_eqI) (auto simp: bit_unsigned_iff bit_signed_iff dest: bit_imp_le_length)

lemma define_symbol_module:
  "define_symbol (symtab_entry i STT_FUNC (symbol_binding sb) sc (symbol_offset sb) (symbol_size sb)) p
    (symbol_binding sb) (symbol_name sb) = module_symbol sb p"
  by (rule ext) (simp add: define_symbol_def module_symbol_def symtab_entry_def ucast_scast_u32)

lemma link_entry:
  assumes "c_string_at strtab (unat idx) = Inr (symbol_name sb)" "symbol_section_index sb = Inr sc" "0 < i"
  shows "link_symbol_entry (symbol_places (object_found e) d) strtab i
      (symtab_entry idx STT_FUNC (symbol_binding sb) sc (symbol_offset sb) (symbol_size sb)) (table, fs) =
    rbind (link_asm_symbol d sb table) (\<lambda>(table, k). Inr (table, fs[i := of_nat k]))"
proof -
  let ?y = "symtab_entry idx STT_FUNC (symbol_binding sb) sc (symbol_offset sb) (symbol_size sb)"
  have y: "strtab_index_for_name ?y = idx" "st_section ?y = sc"
    "ELF64_SYMBOL_BINDING (type_and_binding ?y) = symbol_binding sb" "ELF64_SYMBOL_TYPE (type_and_binding ?y) = STT_FUNC"
    by (simp_all add: symtab_entry_def binding_back)
  have sk: "\<not> skipped (symbol_places (object_found e) d) i ?y"
    using assms(3) y(4) by (simp add: skipped_def Let_def STT_FUNC_def STT_FILE_def STT_SECTION_def)
  show ?thesis
  proof (cases "symbol_defined sb")
    case False
    then have "sc = SHN_UNDEF" "symbol_binding sb = STB_GLOBAL" using assms(2) by (simp_all add: symbol_section_index_def symbol_binding_def)
    then show ?thesis using False assms(1) y sk
      by (simp add: link_symbol_entry_def Let_def link_asm_symbol_def case_prod_unfold)
  next
    case True
    obtain p where p: "module_place d (symbol_section sb) = Inr p" "symbol_places (object_found e) d sc = Some p" "sc \<noteq> SHN_UNDEF"
      using assms(2) True
      by (cases "symbol_section sb") (auto simp: symbol_section_index_def module_place_def SHN_UNDEF_def index_defs symbol_places_def
          object_found_def index_of_def)
    show ?thesis using True assms(1) y sk p
      by (simp add: link_symbol_entry_def Let_def link_asm_symbol_def link_defined_def define_symbol_module
          split: option.split)
  qed
qed

lemma each_symbol_links:
  assumes "symtab_entries idx sbs = Inr es" "idx = of_nat (1 + names_size names)"
    and "strtab = 0 # names_bytes (names @ map symbol_name sbs @ others)"
    and "\<forall>sb\<in>set sbs. CHR 0x00 \<notin> set (symbol_name sb)"
    and "1 + names_size (names @ map symbol_name sbs) < 2 ^ 32" "0 < i" "i + length sbs \<le> length fs"
  shows "each_symbol i (link_symbol_entry (symbol_places (object_found e) d) strtab) es (table, fs) =
    rbind (link_asm_symbols d sbs table) (\<lambda>(table, ks). Inr (table, take i fs @ map of_nat ks @ drop (i + length sbs) fs))"
  using assms
proof (induction sbs arbitrary: idx es names i fs table)
  case (Cons sb sbs)
  obtain sc es' where es: "symbol_section_index sb = Inr sc"
    "symtab_entries (idx + of_nat (length (symbol_name sb) + 1)) sbs = Inr es'"
    "es = symtab_entry idx STT_FUNC (symbol_binding sb) sc (symbol_offset sb) (symbol_size sb) # es'"
    using Cons.prems(1) by auto
  have "unat idx = 1 + names_size names" using Cons.prems(2,5) length_word [of "1 + names_size names"] by simp
  then have name: "c_string_at strtab (unat idx) = Inr (symbol_name sb)"
    using Cons.prems(3,4)
    by (intro c_string_name [where a = "0 # names_bytes names" and b = "names_bytes (map symbol_name sbs @ others)"]) simp_all
  show ?case
  proof (cases "link_asm_symbol d sb table")
    case (Inl x)
    then show ?thesis using link_entry [OF name es(1) Cons.prems(6)] es(3) by simp
  next
    case (Inr tk)
    obtain table' k where tk: "tk = (table', k)" by (rule prod.exhaust)
    have step: "link_symbol_entry (symbol_places (object_found e) d) strtab i
        (symtab_entry idx STT_FUNC (symbol_binding sb) sc (symbol_offset sb) (symbol_size sb)) (table, fs) =
        Inr (table', fs[i := of_nat k])" using link_entry [OF name es(1) Cons.prems(6)] Inr tk by simp
    have "each_symbol (Suc i) (link_symbol_entry (symbol_places (object_found e) d) strtab) es' (table', fs[i := of_nat k]) =
        rbind (link_asm_symbols d sbs table') (\<lambda>(table, ks). Inr (table,
          take (Suc i) (fs[i := of_nat k]) @ map of_nat ks @ drop (Suc i + length sbs) (fs[i := of_nat k])))"
      by (rule Cons.IH [OF es(2), of "names @ [symbol_name sb]"]) (use Cons.prems in auto)
    moreover have "take (Suc i) (fs[i := of_nat k]) = take i fs @ [of_nat k]"
      using Cons.prems(7) by (simp add: take_Suc_conv_app_nth)
    ultimately show ?thesis using step es(3) Inr tk by (cases "link_asm_symbols d sbs table'") auto
  qed
qed simp

section \<open>Relocations read back\<close>

lemma rela_fields_back:
  "ELF64_RELA_TYPE (ELF64_RELA_TYPE_AND_SYMBOL t s) = t" "ELF64_RELA_SYMBOL (ELF64_RELA_TYPE_AND_SYMBOL t s) = s"
proof -
  have m: "(0xFFFFFFFF :: u64) = mask 32" by (simp add: mask_eq_exp_minus_1)
  show "ELF64_RELA_TYPE (ELF64_RELA_TYPE_AND_SYMBOL t s) = t" "ELF64_RELA_SYMBOL (ELF64_RELA_TYPE_AND_SYMBOL t s) = s"
    unfolding ELF64_RELA_TYPE_def ELF64_RELA_SYMBOL_def ELF64_RELA_TYPE_AND_SYMBOL_def m
    by (rule bit_word_eqI; auto simp: bit_unsigned_iff bit_and_iff bit_or_iff bit_mask_iff bit_push_bit_iff
        bit_drop_bit_eq dest: bit_imp_le_length)+
qed

lemma length_attach [simp]: "length (attach heap ks reloc f table) = length table"
  by (simp add: attach_def Let_def)

lemma each_rela_attach:
  assumes "collect rela fs = Inr rs" "\<And>f. f \<in> set fs \<Longrightarrow> rela f = Inr (if keep f then Some (R f) else None)"
    and "\<And>f table. f \<in> set fs \<Longrightarrow> keep f \<Longrightarrow> length table = n \<Longrightarrow> add (R f) table = Inr (attach heap ks reloc f table)"
    and "length table = n"
  shows "each_rela add rs table = Inr (fold (attach heap ks reloc) (filter keep fs) table)"
  using assms
proof (induction fs arbitrary: rs table)
  case (Cons f fs)
  obtain rs' where rs': "collect rela fs = Inr rs'" "rs = (if keep f then R f # rs' else rs')"
    using Cons.prems(1) Cons.prems(2) [of f] by (auto split: if_splits)
  have IH: "each_rela add rs' t = Inr (fold (attach heap ks reloc) (filter keep fs) t)" if "length t = n" for t
    by (rule Cons.IH [OF rs'(1)]) (use Cons.prems that in auto)
  show ?case using rs'(2) IH Cons.prems(3) [of f table] Cons.prems(4) by simp
qed simp

lemma add_reloc_attach:
  assumes "fs = 0 # map of_nat ks @ [0]" "R = \<lparr>rela_section_offset = ucast (fixup_offset f),
      type_and_symbol = ELF64_RELA_TYPE_AND_SYMBOL ty (symtab_index (heap ! fixup_symbol f)), rela_addend = ucast (ad :: u32)\<rparr>"
    and "1 \<le> unat (symtab_index (heap ! fixup_symbol f))" "unat (symtab_index (heap ! fixup_symbol f)) \<le> length ks"
    and "\<forall>k\<in>set ks. k < length table" "length table < 2 ^ 32"
    and "reloc f = \<lparr>reloc_type = ty, reloc_section_index = i, reloc_section_offset = base + fixup_offset f, reloc_addend = ad\<rparr>"
  shows "add_reloc fs base i R table = Inr (attach heap ks reloc f table)"
proof -
  let ?j = "unat (symtab_index (heap ! fixup_symbol f))"
  let ?k = "ks ! (?j - 1)"
  have k: "?k < length table" using assms(3-5) by simp
  have "?j - 1 < length ks" using assms(3,4) by linarith
  then have "at fs ?j = Inr (of_nat ?k)" using assms(1,3,4) by (simp add: nth_Cons' nth_append)
  moreover have "unat (of_nat ?k :: u32) = ?k" using k assms(6) by (intro length_word) simp
  moreover have "relocation_of base i R = reloc f"
    using assms(2,7) by (simp add: relocation_of_def rela_fields_back)
  ultimately show ?thesis using k assms(2)
    by (simp add: add_reloc_def attach_def Let_def rela_fields_back del: at_Inr_iff) (simp add: at_def)
qed

text \<open>A module as \<^verbatim>\<open>assemble\<close> leaves it: the symbols of the fixups are in its table, at their index.\<close>

definition fixups_indexed :: "asm_module \<Rightarrow> bool" where
  "fixups_indexed m =
     (\<forall>f\<in>set (fixups m). fixup_symbol f < length (symbol_heap m) \<and>
        1 \<le> unat (symtab_index (symbol_heap m ! fixup_symbol f)) \<and>
        unat (symtab_index (symbol_heap m ! fixup_symbol f)) \<le> length (symbols m))"

lemma relas_linked:
  assumes "fixups_indexed m" "heap = symbol_heap m" "fs = 0 # map of_nat ks @ [0]" "length ks = length (symbols m)"
    and "\<forall>k\<in>set ks. k < length table" "length table < 2 ^ 32"
  shows "collect (text_rela heap) (fixups m) = Inr rt \<Longrightarrow>
      each_rela (add_reloc fs base TEXT_INDEX) rt table =
        Inr (fold (attach heap ks (text_relocation base)) (filter (left_in_text heap) (fixups m)) table)"
    and "collect (data_rela heap) (fixups m) = Inr rd \<Longrightarrow>
      each_rela (add_reloc fs base DATA_INDEX) rd table =
        Inr (fold (attach heap ks (data_relocation base)) (filter (\<lambda>f. fixup_section f = DATA_SECTION) (fixups m)) table)"
proof -
  let ?y = "\<lambda>f. symtab_index (heap ! fixup_symbol f)"
  let ?T = "\<lambda>f. \<lparr>rela_section_offset = ucast (fixup_offset f),
    type_and_symbol = ELF64_RELA_TYPE_AND_SYMBOL (case fixup_kind f of FIXUP_RELATIVE \<Rightarrow> R_X86_64_PC32 | _ \<Rightarrow> R_X86_64_64) (?y f),
    rela_addend = ucast (case fixup_kind f of FIXUP_RELATIVE \<Rightarrow> fixup_offset f - next_instr_offset f | _ \<Rightarrow> 0)\<rparr>"
  let ?D = "\<lambda>f. \<lparr>rela_section_offset = ucast (fixup_offset f),
    type_and_symbol = ELF64_RELA_TYPE_AND_SYMBOL R_X86_64_64 (?y f), rela_addend = ucast (0 :: u32)\<rparr>"
  have ok: "fixup_symbol f < length heap" "1 \<le> unat (?y f)" "unat (?y f) \<le> length ks" "?y f \<noteq> 0" if "f \<in> set (fixups m)" for f
    using assms(1,2,4) that by (auto simp: fixups_indexed_def)
  show "each_rela (add_reloc fs base TEXT_INDEX) rt table =
      Inr (fold (attach heap ks (text_relocation base)) (filter (left_in_text heap) (fixups m)) table)"
    if "collect (text_rela heap) (fixups m) = Inr rt"
  proof (rule each_rela_attach [where R = ?T and n = "length table", OF that])
    fix f assume f: "f \<in> set (fixups m)"
    show "text_rela heap f = Inr (if left_in_text heap f then Some (?T f) else None)"
      using ok [OF f] by (auto simp: text_rela_def left_in_text_def at_def split: fixup_type.split)
    show "add_reloc fs base TEXT_INDEX (?T f) t = Inr (attach heap ks (text_relocation base) f t)" if "length t = length table" for t
      using assms(5,6) that ok [OF f]
      by (intro add_reloc_attach [OF assms(3) refl]) (auto simp: text_relocation_def split: fixup_type.split)
  qed simp
  show "each_rela (add_reloc fs base DATA_INDEX) rd table =
      Inr (fold (attach heap ks (data_relocation base)) (filter (\<lambda>f. fixup_section f = DATA_SECTION) (fixups m)) table)"
    if "collect (data_rela heap) (fixups m) = Inr rd"
  proof (rule each_rela_attach [where R = ?D and n = "length table", OF that])
    fix f assume f: "f \<in> set (fixups m)"
    show "data_rela heap f = Inr (if fixup_section f = DATA_SECTION then Some (?D f) else None)"
      using ok [OF f] by (auto simp: data_rela_def at_def)
    show "add_reloc fs base DATA_INDEX (?D f) t = Inr (attach heap ks (data_relocation base) f t)" if "length t = length table" for t
      using assms(5,6) that ok [OF f] by (intro add_reloc_attach [OF assms(3) refl]) (auto simp: data_relocation_def)
  qed simp
qed

section \<open>Object files\<close>

definition part_at :: "c_file \<Rightarrow> nat \<Rightarrow> u8 list \<Rightarrow> bool" where
  "part_at f p x = (\<exists>a b. fbytes f = a @ x @ b \<and> length a = p)"

lemma object_parts:
  assumes "holds_object f p m rt rd es names"
  shows "part_at f (p + 640) (text_bytes m)" "part_at f (p + offs_rela_text m) (relas rt)"
    "part_at f (p + offs_data m rt) (data_bytes m)" "part_at f (p + offs_rela_data m rt) (relas rd)"
    "part_at f (p + offs_symtab m rt rd) (symtab_bytes es)"
    "part_at f (p + (offs_symtab m rt rd + 24 * (length es + 1))) (0 # names_bytes names)"
proof -
  obtain a b where ab: "fbytes f = a @ object_bytes m rt rd es names @ b" "length a = p"
    using assms by (auto simp: holds_object_def)
  let ?e = "object_elf m rt rd es names"
  define h where "h = encode_elf_header (file_header ?e) @ concat (map encode_section_header (section_headers ?e))"
  have h: "length h = 640"
    using encode_lengths(1) [OF ident_length] length_section_headers by (simp add: h_def)
  have ob: "fbytes f = (a @ h) @ text_bytes m @ relas rt @ data_bytes m @ relas rd @ SHSTRTAB_CONTENTS @ symtab_bytes es @
      (0 # names_bytes names) @ b" using ab(1) by (simp add: object_bytes_def Let_def h_def)
  let ?c1 = "a @ h" and ?c2 = "a @ h @ text_bytes m" and ?c3 = "a @ h @ text_bytes m @ relas rt"
  let ?c4 = "a @ h @ text_bytes m @ relas rt @ data_bytes m"
  let ?c5 = "a @ h @ text_bytes m @ relas rt @ data_bytes m @ relas rd @ SHSTRTAB_CONTENTS"
  let ?c6 = "a @ h @ text_bytes m @ relas rt @ data_bytes m @ relas rd @ SHSTRTAB_CONTENTS @ symtab_bytes es"
  note len = h ab(2) length_shstrtab offs_defs
  show "part_at f (p + 640) (text_bytes m)" unfolding part_at_def ob
    by (rule exI [of _ ?c1], rule exI) (simp add: len; rule refl)
  show "part_at f (p + offs_rela_text m) (relas rt)" unfolding part_at_def ob
    by (rule exI [of _ ?c2], rule exI) (simp add: len; rule refl)
  show "part_at f (p + offs_data m rt) (data_bytes m)" unfolding part_at_def ob
    by (rule exI [of _ ?c3], rule exI) (simp add: len; rule refl)
  show "part_at f (p + offs_rela_data m rt) (relas rd)" unfolding part_at_def ob
    by (rule exI [of _ ?c4], rule exI) (simp add: len; rule refl)
  show "part_at f (p + offs_symtab m rt rd) (symtab_bytes es)" unfolding part_at_def ob
    by (rule exI [of _ ?c5], rule exI) (simp add: len; rule refl)
  show "part_at f (p + (offs_symtab m rt rd + 24 * (length es + 1))) (0 # names_bytes names)" unfolding part_at_def ob
    by (rule exI [of _ ?c6], rule exI) (simp add: len; rule refl)
qed

lemma read_part_at:
  "part_at f p x \<Longrightarrow> n = length x \<Longrightarrow> checked_fread (checked_fseek f p) n = Inr (x, checked_fseek f (p + n))"
  using read_part by (auto simp: part_at_def)

lemma part_at_seek [simp]: "part_at (checked_fseek f q) p x = part_at f p x"
  by (simp add: part_at_def)

lemma word_size_back: "n < 2 ^ 32 \<Longrightarrow> unat (ucast (of_nat n :: u32) :: u64) = n"
  by (simp add: unat_ucast_up unat_of_nat)

lemma word_size_zero: "n < 2 ^ 32 \<Longrightarrow> (ucast (of_nat n :: u32) :: u64) = 0 \<longleftrightarrow> n = 0"
  using word_size_back [of n] unat_eq_zero [of "ucast (of_nat n :: u32) :: u64"] by linarith

lemma section_entries_back:
  assumes "section_size h = ucast (of_nat (24 * n) :: u32)" "entry_size h = 24" "24 * n < 2 ^ 32"
  shows "section_entries h = n"
proof -
  have "unat (section_size h div 24) = n"
    using assms(1) word_size_back [OF assms(3)] by (simp add: unat_div)
  then show ?thesis using assms(2,3)
    by (simp add: section_entries_def unsigned_ucast_eq unsigned_take_bit_eq take_bit_nat_eq_self)
qed

lemma read_section_part:
  assumes "part_at f (a + off) x" "section_location h = ucast (of_nat off :: u32)"
    "section_size h = ucast (of_nat (length x) :: u32)" "a + off < 2 ^ 32" "length x < 2 ^ 32"
  shows "\<exists>q. read_section (checked_fseek f s) (of_nat a) (Some h) = Inr (x, checked_fseek f q)"
proof (cases "x = []")
  case True
  then show ?thesis using assms(3) by (auto simp: read_section_def)
next
  case False
  then have "section_size h \<noteq> 0" using assms(3,5) word_size_zero by simp
  then show ?thesis
    using read_part_at [OF assms(1) refl] assms(3) word_size_back [OF assms(5)] section_position_object [OF assms(4,2)]
    by (auto simp: read_section_def)
qed

lemma process_rela_part:
  assumes "part_at f (a + off) (relas rs)" "section_location h = ucast (of_nat off :: u32)"
    "section_size h = ucast (of_nat (24 * length rs) :: u32)" "sh_type h = SHT_RELA" "entry_size h = 24"
    "a + off < 2 ^ 32" "24 * length rs < 2 ^ 32"
    and "each_rela (add_reloc fs base i) rs table = Inr table'"
  shows "\<exists>q. process_rela_section (Some h) fs table (checked_fseek f s) (of_nat a) base i = Inr (table', checked_fseek f q)"
proof -
  obtain c d where "fbytes f = c @ relas rs @ d" "length c = a + off" using assms(1) by (auto simp: part_at_def)
  then show ?thesis
    using read_relas_each [of "checked_fseek f (a + off)" c rs d "add_reloc fs base i" table] assms(4,5,8)
      section_entries_back [OF assms(3,5,7)] section_position_object [OF assms(6,2)]
    by (auto simp: process_rela_section_def)
qed

lemma null_symbol_bytes: "encode_symbol \<lparr>strtab_index_for_name = 0, type_and_binding = 0, st_reserved = 0, st_section = 0,
    st_value = 0, st_size = 0\<rparr> = replicate 24 0"
  by code_simp

lemma find_symbol_bound: "find_symbol table binding name = Some i \<Longrightarrow> i < length table"
  by (auto simp: find_symbol_def find_Some_iff split: if_splits)

lemma link_asm_symbol_bounds:
  assumes "link_asm_symbol d sb table = Inr (table', k)"
  shows "k < length table'" "length table \<le> length table'" "length table' \<le> length table + 1"
  using assms find_symbol_bound
  by (auto simp: link_asm_symbol_def link_undefined_def split: if_splits option.splits)

lemma link_asm_symbols_bounds:
  assumes "link_asm_symbols d sbs table = Inr (table', ks)"
  shows "length ks = length sbs \<and> (\<forall>k\<in>set ks. k < length table') \<and> length table \<le> length table' \<and>
    length table' \<le> length table + length sbs"
  using assms
proof (induction sbs arbitrary: table ks)
  case (Cons sb sbs)
  obtain t1 k ks' where "link_asm_symbol d sb table = Inr (t1, k)" "link_asm_symbols d sbs t1 = Inr (table', ks')" "ks = k # ks'"
    using Cons.prems by auto
  then show ?case using link_asm_symbol_bounds [of d sb table t1 k] Cons.IH [of t1 ks'] by auto
qed simp

lemma symbols_of_length: "symbols_of heap rs = Inr sbs \<Longrightarrow> length sbs = length rs"
  by (induction rs arbitrary: sbs) auto

lemma file_entry_skipped:
  assumes "CHR 0x00 \<notin> set name" "1 + names_size (map symbol_name sbs) < 2 ^ 32"
  shows "link_symbol_entry places (0 # names_bytes (map symbol_name sbs @ [name])) i (file_entry sbs) s = Inr s"
proof -
  have "unat (1 + of_nat (names_size (map symbol_name sbs)) :: u32) = 1 + names_size (map symbol_name sbs)"
    using assms length_word [of "1 + names_size (map symbol_name sbs)"] by simp
  moreover have "c_string_at (0 # names_bytes (map symbol_name sbs @ [name])) (1 + names_size (map symbol_name sbs)) = Inr name"
    using assms by (intro c_string_name [where a = "0 # names_bytes (map symbol_name sbs)" and b = "[]"]) simp_all
  ultimately show ?thesis
    by (simp add: link_symbol_entry_def file_entry_def symtab_entry_def skipped_def binding_back Let_def case_prod_unfold)
qed

lemma each_symbol_append: "each_symbol i add (es @ [e]) s = rbind (each_symbol i add es s) (\<lambda>s. add (i + length es) e s)"
proof (induction es arbitrary: i s)
  case Nil
  show ?case by (cases "add i e s") simp_all
next
  case (Cons x es)
  then show ?case by (cases "add i x s") simp_all
qed

text \<open>All symbols of an object file: the null symbol, those of the module, and the file.\<close>

lemma object_symbols_linked:
  assumes "symtab_entries 1 sbs = Inr es" "\<forall>s\<in>set (object_names m sbs). CHR 0x00 \<notin> set s"
    and "1 + names_size (object_names m sbs) < 2 ^ 32" "n = length sbs + 2"
    and "strtab = 0 # names_bytes (object_names m sbs)"
  shows "each_symbol 0 (link_symbol_entry (symbol_places (object_found e) d) strtab)
      (\<lparr>strtab_index_for_name = 0, type_and_binding = 0, st_reserved = 0, st_section = 0, st_value = 0, st_size = 0\<rparr> #
        es @ [file_entry sbs]) (table, replicate n 0) =
    rbind (link_asm_symbols d sbs table) (\<lambda>(table, ks). Inr (table, 0 # map of_nat ks @ [0]))"
proof -
  let ?add = "link_symbol_entry (symbol_places (object_found e) d) strtab"
  have null: "?add 0 \<lparr>strtab_index_for_name = 0, type_and_binding = 0, st_reserved = 0, st_section = 0, st_value = 0, st_size = 0\<rparr> s = Inr s" for s
    using assms(5) by (cases s) (simp add: link_symbol_entry_def skipped_def c_string_at_def bytes_string_def Let_def)
  have l: "each_symbol 1 ?add es (table, replicate n 0) =
      rbind (link_asm_symbols d sbs table) (\<lambda>(table, ks). Inr (table, take 1 (replicate n 0) @ map of_nat ks @ drop (1 + length sbs) (replicate n 0)))"
    by (rule each_symbol_links [OF assms(1), where names = "[]" and others = "[input_file_name m]"])
       (use assms(2-5) in \<open>auto simp: object_names_def\<close>)
  have rest: "?add i (file_entry sbs) s = Inr s" for i s
    using file_entry_skipped [of "input_file_name m" sbs "symbol_places (object_found e) d" i s] assms(2,3,5)
    by (simp add: object_names_def)
  have "take 1 (replicate n (0 :: u32)) = [0]" "drop (1 + length sbs) (replicate n (0 :: u32)) = [0]"
    unfolding drop_replicate take_replicate using assms(4) by simp_all
  note l = l [unfolded this]
  show ?thesis
    using null l rest by (cases "link_asm_symbols d sbs table") (auto simp: each_symbol_append)
qed

lemma object_locations:
  fixes m rt rd es names
  defines "H \<equiv> \<lambda>i. section_headers (object_elf m rt rd es names) ! i"
  shows "section_location (H 1) = ucast (of_nat 640 :: u32)" "section_location (H 2) = ucast (of_nat (offs_rela_text m) :: u32)"
    "section_location (H 4) = ucast (of_nat (offs_data m rt) :: u32)"
    "section_location (H 5) = ucast (of_nat (offs_rela_data m rt) :: u32)"
    "section_location (H 7) = ucast (of_nat (offs_symtab m rt rd) :: u32)"
    "section_location (H 8) = ucast (of_nat (offs_symtab m rt rd + 24 * (length es + 1)) :: u32)"
  using object_infos [of m rt rd es names] unfolding H_def by (simp_all add: header_places index_defs no_section_def)

lemma object_section_sizes:
  fixes m rt rd es names
  defines "H \<equiv> \<lambda>i. section_headers (object_elf m rt rd es names) ! i"
  shows "section_size (H 1) = ucast (of_nat (length (text_bytes m)) :: u32)"
    "section_size (H 2) = ucast (of_nat (24 * length rt) :: u32)" "section_size (H 3) = ucast (bss_size m)"
    "section_size (H 4) = ucast (of_nat (length (data_bytes m)) :: u32)"
    "section_size (H 5) = ucast (of_nat (24 * length rd) :: u32)"
    "section_size (H 7) = ucast (of_nat (24 * (length es + 1)) :: u32)"
    "section_size (H 8) = ucast (of_nat (1 + names_size names) :: u32)"
  using object_infos [of m rt rd es names] unfolding H_def by (simp_all add: header_places index_defs no_section_def)

lemma object_bounds:
  assumes "holds_object f p m rt rd es names"
  shows "p + 640 < 2 ^ 32" "p + offs_rela_text m < 2 ^ 32" "p + offs_data m rt < 2 ^ 32" "p + offs_rela_data m rt < 2 ^ 32"
    "p + offs_symtab m rt rd < 2 ^ 32" "p + (offs_symtab m rt rd + 24 * (length es + 1)) < 2 ^ 32"
    "length (text_bytes m) < 2 ^ 32" "length (data_bytes m) < 2 ^ 32" "24 * length rt < 2 ^ 32" "24 * length rd < 2 ^ 32"
    "24 * (length es + 1) < 2 ^ 32" "1 + names_size names < 2 ^ 32"
  using assms by (auto simp: holds_object_def object_size_def offs_defs)

text \<open>The reads of \<^verbatim>\<open>process_sections\<close> up to the symbols, and the two relocation sections.\<close>

lemma object_reads:
  assumes h: "holds_object f p m rt rd es names"
  defines "H \<equiv> \<lambda>i. section_headers (object_elf m rt rd es names) ! i"
  shows "checked_fread (checked_fseek f (section_position (of_nat p) (H 8))) (unat (section_size (H 8))) =
      Inr (0 # names_bytes names, checked_fseek f (section_position (of_nat p) (H 8) + unat (section_size (H 8))))"
    and "\<exists>q. read_section (checked_fseek f s) (of_nat p) (Some (H 1)) = Inr (text_bytes m, checked_fseek f q)"
    and "\<exists>q. read_section (checked_fseek f s) (of_nat p) (Some (H 4)) = Inr (data_bytes m, checked_fseek f q)"
    and "section_entries (H 7) = length es + 1"
    and "\<exists>q. \<forall>add (s :: 's). read_symbols 0 (length es + 1) add (checked_fseek f (section_position (of_nat p) (H 7))) s =
      rbind (each_symbol 0 add (\<lparr>strtab_index_for_name = 0, type_and_binding = 0, st_reserved = 0, st_section = 0,
        st_value = 0, st_size = 0\<rparr> # es) s) (\<lambda>s. Inr (s, checked_fseek f q))"
proof -
  let ?null = "\<lparr>strtab_index_for_name = 0, type_and_binding = 0, st_reserved = 0, st_section = 0, st_value = 0, st_size = 0\<rparr>"
  note parts = object_parts [OF h] and lt = object_bounds [OF h]
  note loc = object_locations [of m rt rd es names, folded H_def] and siz = object_section_sizes [of m rt rd es names, folded H_def]
  have pos: "section_position (of_nat p) (H 8) = p + (offs_symtab m rt rd + 24 * (length es + 1))"
    "section_position (of_nat p) (H 7) = p + offs_symtab m rt rd"
    by (rule section_position_object, rule lt, rule loc)+
  show "checked_fread (checked_fseek f (section_position (of_nat p) (H 8))) (unat (section_size (H 8))) =
      Inr (0 # names_bytes names, checked_fseek f (section_position (of_nat p) (H 8) + unat (section_size (H 8))))"
    unfolding pos siz using word_size_back [OF lt(12)] by (intro read_part_at [OF parts(6)]) simp
  show "\<exists>q. read_section (checked_fseek f s) (of_nat p) (Some (H 1)) = Inr (text_bytes m, checked_fseek f q)"
    by (rule read_section_part [OF parts(1) loc(1) siz(1) lt(1) lt(7)])
  show "\<exists>q. read_section (checked_fseek f s) (of_nat p) (Some (H 4)) = Inr (data_bytes m, checked_fseek f q)"
    by (rule read_section_part [OF parts(3) loc(3) siz(4) lt(3) lt(8)])
  show "section_entries (H 7) = length es + 1"
    by (rule section_entries_back [OF siz(6) _ lt(11)]) (simp add: H_def header_fields)
  obtain a b where ab: "fbytes f = a @ symtab_bytes es @ b" "length a = p + offs_symtab m rt rd"
    using parts(5) by (auto simp: part_at_def)
  have "fbytes f = a @ concat (map encode_symbol (?null # es)) @ b"
    using ab(1) null_symbol_bytes by (simp add: symtab_bytes_def)
  then have "read_symbols 0 (length es + 1) add (checked_fseek f (p + offs_symtab m rt rd)) s =
      rbind (each_symbol 0 add (?null # es) s) (\<lambda>s. Inr (s, checked_fseek f (p + offs_symtab m rt rd + 24 * (length es + 1))))"
    for add and s :: 's
    using read_symbols_each [of "checked_fseek f (p + offs_symtab m rt rd)" a "?null # es" b 0 add s] ab(2)
    by (simp del: each_symbol.simps read_symbols.simps)
  then show "\<exists>q. \<forall>add (s :: 's). read_symbols 0 (length es + 1) add (checked_fseek f (section_position (of_nat p) (H 7))) s =
      rbind (each_symbol 0 add (?null # es) s) (\<lambda>s. Inr (s, checked_fseek f q))"
    unfolding pos by blast
qed

lemma object_relas:
  assumes h: "holds_object f p m rt rd es names"
  defines "H \<equiv> \<lambda>i. section_headers (object_elf m rt rd es names) ! i"
  shows "each_rela (add_reloc fs base i) rt table = Inr table' \<Longrightarrow>
      \<exists>q. process_rela_section (Some (H 2)) fs table (checked_fseek f s) (of_nat p) base i = Inr (table', checked_fseek f q)"
    and "each_rela (add_reloc fs base i) rd table = Inr table' \<Longrightarrow>
      \<exists>q. process_rela_section (Some (H 5)) fs table (checked_fseek f s) (of_nat p) base i = Inr (table', checked_fseek f q)"
proof -
  note parts = object_parts [OF h] and lt = object_bounds [OF h]
  note loc = object_locations [of m rt rd es names, folded H_def] and siz = object_section_sizes [of m rt rd es names, folded H_def]
  show "\<exists>q. process_rela_section (Some (H 2)) fs table (checked_fseek f s) (of_nat p) base i = Inr (table', checked_fseek f q)"
    if "each_rela (add_reloc fs base i) rt table = Inr table'"
    by (rule process_rela_part [OF parts(2) loc(2) siz(2) _ _ lt(2) lt(9) that]) (simp_all add: H_def header_fields)
  show "\<exists>q. process_rela_section (Some (H 5)) fs table (checked_fseek f s) (of_nat p) base i = Inr (table', checked_fseek f q)"
    if "each_rela (add_reloc fs base i) rd table = Inr table'"
    by (rule process_rela_part [OF parts(4) loc(4) siz(5) _ _ lt(4) lt(10) that]) (simp_all add: H_def header_fields)
qed

lemma process_sections_object:
  assumes h: "holds_object f p m rt rd (es @ [file_entry sbs]) (object_names m sbs)"
    and obj: "collect (text_rela (symbol_heap m)) (fixups m) = Inr rt" "collect (data_rela (symbol_heap m)) (fixups m) = Inr rd"
      "symbols_of (symbol_heap m) (symbols m) = Inr sbs" "symtab_entries 1 sbs = Inr es"
    and ok: "fixups_indexed m" "\<forall>s\<in>set (object_names m sbs). CHR 0x00 \<notin> set s"
      "length (symbol_table st) + length sbs < 2 ^ 32"
  defines "e \<equiv> object_elf m rt rd (es @ [file_entry sbs]) (object_names m sbs)"
  shows "rbind (process_sections (object_found e) (checked_fseek f q) (of_nat p) st) (\<lambda>(st, _). Inr st) = link_module m sbs st"
proof -
  let ?es = "es @ [file_entry sbs]" and ?names = "object_names m sbs" and ?d = "linked st"
  let ?H = "\<lambda>i. section_headers e ! i"
  note r = object_reads [OF h, folded e_def]
  have len: "length es = length sbs" by (rule length_symtab_entries [OF obj(4)])
  obtain q1 where q1: "checked_fread (checked_fseek f (section_position (of_nat p) (?H 8))) (unat (section_size (?H 8))) =
      Inr (0 # names_bytes ?names, checked_fseek f q1)" using r(1) by blast
  obtain q2 where q2: "read_section (checked_fseek f q1) (of_nat p) (Some (?H 1)) = Inr (text_bytes m, checked_fseek f q2)"
    using r(2) by blast
  obtain q3 where q3: "read_section (checked_fseek f q2) (of_nat p) (Some (?H 4)) = Inr (data_bytes m, checked_fseek f q3)"
    using r(3) by blast
  let ?add = "link_symbol_entry (symbol_places (object_found e) ?d) (0 # names_bytes ?names)"
  let ?init = "(symbol_table st, replicate (length ?es + 1) 0)"
  have sy: "each_symbol 0 ?add (\<lparr>strtab_index_for_name = 0, type_and_binding = 0, st_reserved = 0, st_section = 0,
      st_value = 0, st_size = 0\<rparr> # ?es) ?init =
      rbind (link_asm_symbols ?d sbs (symbol_table st)) (\<lambda>(table, ks). Inr (table, 0 # map of_nat ks @ [0]))"
    by (rule object_symbols_linked [OF obj(4) ok(2) object_bounds(12) [OF h] _ refl]) (simp add: len)
  obtain q4 where rd: "\<And>add (s :: link_symbol list \<times> u32 list).
      read_symbols 0 (length ?es + 1) add (checked_fseek f (section_position (of_nat p) (?H 7))) s =
      rbind (each_symbol 0 add (\<lparr>strtab_index_for_name = 0, type_and_binding = 0, st_reserved = 0, st_section = 0,
        st_value = 0, st_size = 0\<rparr> # ?es) s) (\<lambda>s. Inr (s, checked_fseek f q4))"
    using r(5) by blast
  have q4: "read_symbols 0 (length ?es + 1) ?add (checked_fseek f (section_position (of_nat p) (?H 7))) ?init =
      rbind (rbind (link_asm_symbols ?d sbs (symbol_table st)) (\<lambda>(table, ks). Inr (table, 0 # map of_nat ks @ [0])))
        (\<lambda>s. Inr (s, checked_fseek f q4))"
    unfolding rd sy by (rule refl)
  have bss: "ucast (section_size (?H 3)) = bss_size m"
    using object_section_sizes(3) [of m rt rd ?es ?names, folded e_def] by simp
  have ps: "process_sections (object_found e) (checked_fseek f q) (of_nat p) st =
      rbind (read_symbols 0 (length ?es + 1) ?add (checked_fseek f (section_position (of_nat p) (?H 7))) ?init)
        (\<lambda>((table, file_symbols), f).
          rbind (process_rela_section (Some (?H 2)) file_symbols table f (of_nat p) (of_nat (length (text_bytes ?d))) TEXT_INDEX)
            (\<lambda>(table, f).
          rbind (process_rela_section (Some (?H 5)) file_symbols table f (of_nat p) (of_nat (length (data_bytes ?d))) DATA_INDEX)
            (\<lambda>(table, f). Inr (\<lparr>linked = append_sections ?d (text_bytes m) (data_bytes m) (bss_size m), symbol_table = table\<rparr>, f))))"
    using q1 q2 q3 r(4) bss
    by (simp add: process_sections_def object_found_def header_fields Let_def del: read_symbols.simps replicate_Suc)
  show ?thesis
  proof (cases "link_asm_symbols ?d sbs (symbol_table st)")
    case (Inl x)
    then show ?thesis unfolding ps q4 by (simp add: link_module_def Let_def)
  next
    case (Inr y)
    obtain table ks where tk: "link_asm_symbols ?d sbs (symbol_table st) = Inr (table, ks)" using Inr by (cases y) auto
    have b: "length ks = length (symbols m)" "\<forall>k\<in>set ks. k < length table" "length table < 2 ^ 32"
      using link_asm_symbols_bounds [OF tk] ok(3) symbols_of_length [OF obj(3)] by auto
    let ?fs = "0 # map of_nat ks @ [0]"
    let ?t1 = "fold (attach (symbol_heap m) ks (text_relocation (of_nat (length (text_bytes ?d)))))
      (filter (left_in_text (symbol_heap m)) (fixups m)) table"
    let ?t2 = "fold (attach (symbol_heap m) ks (data_relocation (of_nat (length (data_bytes ?d)))))
      (filter (\<lambda>f. fixup_section f = DATA_SECTION) (fixups m)) ?t1"
    have keep: "length (fold (attach hp kk rl) gs t) = length t" for hp kk rl gs t by (induction gs arbitrary: t) simp_all
    have e1: "each_rela (add_reloc ?fs (of_nat (length (text_bytes ?d))) TEXT_INDEX) rt table = Inr ?t1"
      by (rule relas_linked(1) [OF ok(1) refl refl b obj(1)])
    have e2: "each_rela (add_reloc ?fs (of_nat (length (data_bytes ?d))) DATA_INDEX) rd ?t1 = Inr ?t2"
      by (rule relas_linked(2) [OF ok(1) refl refl b(1) _ _ obj(2)]) (use b(2,3) in \<open>simp_all add: keep\<close>)
    obtain q5 where q5: "process_rela_section (Some (?H 2)) ?fs table (checked_fseek f q4) (of_nat p)
        (of_nat (length (text_bytes ?d))) TEXT_INDEX = Inr (?t1, checked_fseek f q5)"
      using object_relas(1) [OF h e1] unfolding e_def by blast
    obtain q6 where q6: "process_rela_section (Some (?H 5)) ?fs ?t1 (checked_fseek f q5) (of_nat p)
        (of_nat (length (data_bytes ?d))) DATA_INDEX = Inr (?t2, checked_fseek f q6)"
      using object_relas(2) [OF h e2] unfolding e_def by blast
    show ?thesis unfolding ps q4 using tk q5 q6 by (simp add: link_module_def Let_def)
  qed
qed

lemma process_object:
  assumes h: "holds_object f p m rt rd (es @ [file_entry sbs]) (object_names m sbs)" "fposition f = p"
    and obj: "collect (text_rela (symbol_heap m)) (fixups m) = Inr rt" "collect (data_rela (symbol_heap m)) (fixups m) = Inr rd"
      "symbols_of (symbol_heap m) (symbols m) = Inr sbs" "symtab_entries 1 sbs = Inr es"
    and ok: "fixups_indexed m" "\<forall>s\<in>set (object_names m sbs). CHR 0x00 \<notin> set s"
      "length (symbol_table st) + length sbs < 2 ^ 32"
  shows "rbind (process_elf_file f st) (\<lambda>(st, _). Inr st) = link_module m sbs st"
proof -
  obtain q where "read_headers f (of_nat p) =
      Inr (Some ((section_headers (object_elf m rt rd (es @ [file_entry sbs]) (object_names m sbs)), SHSTRTAB_CONTENTS), checked_fseek f q))"
    using read_headers_object [OF h] by blast
  then show ?thesis
    using process_sections_object [OF h(1) obj ok, of q] h(2) find_sections_object
    by (simp add: process_elf_file_def checked_ftell_def)
qed

text \<open>What the sizes and names of a module must satisfy for its object file.\<close>

definition linkable :: "asm_module \<Rightarrow> asm_symbol list \<Rightarrow> bool" where
  "linkable m sbs =
     (symbols_of (symbol_heap m) (symbols m) = Inr sbs \<and> fixups_indexed m \<and>
      (\<forall>s\<in>set (object_names m sbs). CHR 0x00 \<notin> set s) \<and>
      length (text_bytes m) < 2 ^ 32 \<and> length (data_bytes m) < 2 ^ 32 \<and> length sbs + 2 < 2 ^ 32)"

lemma object_links_at:
  assumes "write_elf_object_file True m = Inr obj" "linkable m sbs"
    and "length a + length obj < 2 ^ 32" "length (symbol_table st) + length sbs < 2 ^ 32"
    and "fbytes f = a @ obj @ b" "fposition f = length a"
  shows "rbind (process_elf_file f st) (\<lambda>(st, _). Inr st) = link_module m sbs st"
proof -
  note l = assms(2) [unfolded linkable_def]
  obtain rt rd es where o: "collect (text_rela (symbol_heap m)) (fixups m) = Inr rt"
    "collect (data_rela (symbol_heap m)) (fixups m) = Inr rd" "symtab_entries 1 sbs = Inr es"
    "obj = object_bytes m rt rd (es @ [file_entry sbs]) (object_names m sbs)"
    using write_object_bytes [OF assms(1)] l by blast
  have "holds_object f (length a) m rt rd (es @ [file_entry sbs]) (object_names m sbs)"
    using assms(3,5) o(4) length_object_bytes [of m rt rd "es @ [file_entry sbs]" "object_names m sbs"]
    by (auto simp: holds_object_def)
  then show ?thesis
    using process_object [OF _ assms(6) o(1,2) _ o(3) _ _ assms(4)] l by blast
qed

text \<open>Such a module is written without an error if its defined symbols are in a section.\<close>

lemma collect_succeeds: "\<forall>f\<in>set fs. \<exists>r. g f = Inr r \<Longrightarrow> \<exists>rs. collect g fs = Inr rs"
  by (induction fs) auto

lemma add_symbols_succeeds: "\<forall>sb\<in>set sbs. \<exists>c. symbol_section_index sb = Inr c \<Longrightarrow> \<exists>e'. add_symbols e sbs = Inr e'"
  by (induction sbs arbitrary: e) auto

lemma add_string_fields [simp]: "last_local_symbol_index (add_string e s) = last_local_symbol_index e"
  "elf_type (add_string e s) = elf_type e"
  by (simp_all add: add_string_def)

lemma fold_add_string_fields:
  "last_local_symbol_index (fold (\<lambda>sb e. add_string e (symbol_name sb)) sbs e) = last_local_symbol_index e"
  "elf_type (fold (\<lambda>sb e. add_string e (symbol_name sb)) sbs e) = elf_type e"
  by (induction sbs arbitrary: e) simp_all

lemma write_object_succeeds:
  assumes l: "linkable m sbs" and "\<forall>sb\<in>set sbs. symbol_defined sb \<longrightarrow> symbol_section sb \<noteq> UNKNOWN_SECTION"
  shows "\<exists>obj. write_elf_object_file True m = Inr obj"
proof -
  note l = l [unfolded linkable_def]
  have "\<forall>f\<in>set (fixups m). \<exists>r. text_rela (symbol_heap m) f = Inr r" "\<forall>f\<in>set (fixups m). \<exists>r. data_rela (symbol_heap m) f = Inr r"
    using l by (auto simp: fixups_indexed_def text_rela_def data_rela_def at_def)
  then obtain rt rd where "collect (text_rela (symbol_heap m)) (fixups m) = Inr rt" "collect (data_rela (symbol_heap m)) (fixups m) = Inr rd"
    using collect_succeeds by blast
  then have w: "write_contents (symbol_heap m) (elf_file_for ET_REL m) (fixups m) =
      Inr (emit (first_contents m rt rd) (placed_file ET_REL m rt rd))" (is "_ = Inr ?e0")
    using l by (intro write_contents_result) simp_all
  have "\<forall>sb\<in>set sbs. \<exists>c. symbol_section_index sb = Inr c"
    using assms(2) by (auto simp: symbol_section_index_def split: asm_symbol_section.split)
  then obtain e1 where e1: "add_symbols ?e0 sbs = Inr e1" using add_symbols_succeeds by blast
  then have f: "elf_type e1 = ET_REL" "curr_symbol_index e1 = 1 + of_nat (length sbs)"
    using add_symbols_object [of ?e0 sbs e1] by auto
  have "unat (1 + of_nat (length sbs) :: u32) = 1 + length sbs" using length_word [of "1 + length sbs"] l by simp
  then have "1 + of_nat (length sbs) \<noteq> (0 :: u32)" by (metis add_is_0 one_neq_zero unat_0)
  then show ?thesis
    using w e1 f l
    by (simp add: write_elf_object_file_def Let_def add_symbol_object finish_symtab_section_def fold_add_string_fields
        finish_strtab_section_def)
qed

text \<open>
  C2. An object file read back is the module it was written from: reading the bytes that
  \<^verbatim>\<open>write_elf_object_file\<close> writes, wherever they stand in a larger file, has the effect of linking
  the module in memory. The sections are appended, the symbols are added or resolved with the same
  errors for multiple definitions, and exactly the fixups that are not patched become relocations.
\<close>

theorem object_file_links:
  assumes "write_elf_object_file True m = Inr obj" "linkable m sbs"
    and "length before + length obj < 2 ^ 32" "length (symbol_table st) + length sbs < 2 ^ 32"
  shows "rbind (process_elf_file \<lparr>fbytes = before @ obj @ after, fposition = length before\<rparr> st) (\<lambda>(st, _). Inr st) =
    link_module m sbs st"
  using assms by (intro object_links_at) simp_all

definition main_symbol :: asm_symbol where
  "main_symbol = \<lparr>symbol_name = ''main'', symbol_section = TEXT_SECTION, symbol_defined = True,
     symbol_linkage = ASM_GLOBAL_LINKAGE, symtab_index = 1, symbol_offset = 0, symbol_size = 6, preds = []\<rparr>"

definition puts_symbol :: asm_symbol where
  "puts_symbol = \<lparr>symbol_name = ''puts'', symbol_section = UNKNOWN_SECTION, symbol_defined = False,
     symbol_linkage = ASM_GLOBAL_LINKAGE, symtab_index = 2, symbol_offset = 0, symbol_size = 0, preds = []\<rparr>"

definition call_module :: asm_module where
  "call_module = (init_asm_module ''a.c'')\<lparr>text_bytes := [0xE8, 0, 0, 0, 0, 0xC3], symbol_heap := [main_symbol, puts_symbol],
     symbols := [0, 1], fixups := [\<lparr>fixup_kind = FIXUP_RELATIVE, fixup_section = TEXT_SECTION, fixup_offset = 1,
       next_instr_offset = 5, size_bytes = 4, fixup_symbol = 1\<rparr>]\<rparr>"

lemma call_module_linkable: "linkable call_module [main_symbol, puts_symbol]"
  by (simp add: linkable_def call_module_def init_asm_module_def object_names_def fixups_indexed_def main_symbol_def
      puts_symbol_def)

lemma call_module_object: "\<exists>obj. write_elf_object_file True call_module = Inr obj \<and> length obj = 847"
proof -
  obtain obj where o: "write_elf_object_file True call_module = Inr obj"
    using write_object_succeeds [OF call_module_linkable] by (auto simp: main_symbol_def puts_symbol_def)
  obtain rt rd es where "collect (text_rela (symbol_heap call_module)) (fixups call_module) = Inr rt"
    "collect (data_rela (symbol_heap call_module)) (fixups call_module) = Inr rd"
    "symtab_entries 1 [main_symbol, puts_symbol] = Inr es"
    "obj = object_bytes call_module rt rd (es @ [file_entry [main_symbol, puts_symbol]]) (object_names call_module [main_symbol, puts_symbol])"
    using write_object_bytes [OF o, of "[main_symbol, puts_symbol]"] call_module_linkable unfolding linkable_def by blast
  then have "length obj = 847"
    using length_symtab_entries [of 1 "[main_symbol, puts_symbol]" es]
    by (auto simp: length_object_bytes object_size_def offs_defs object_names_def call_module_def init_asm_module_def
        text_rela_def data_rela_def at_def main_symbol_def puts_symbol_def)
  then show ?thesis using o by blast
qed

theorem object_file_links_witness:
  "\<exists>obj. write_elf_object_file True call_module = Inr obj \<and>
     rbind (process_elf_file \<lparr>fbytes = [1, 2] @ obj @ [3], fposition = length [1 :: u8, 2]\<rparr> link_init) (\<lambda>(st, _). Inr st) =
     link_module call_module [main_symbol, puts_symbol] link_init"
proof -
  obtain obj where "write_elf_object_file True call_module = Inr obj" "length obj = 847" using call_module_object by blast
  then show ?thesis using object_file_links [OF _ call_module_linkable, of obj "[1, 2]" link_init "[3]"]
    by (auto simp: link_init_def)
qed

end
