(* ===== verification/Naive_Exec.thy ===== *)
theory Naive_Exec
  imports Naive_Linker_Properties
begin

text \<open>
  The executables that \<^verbatim>\<open>link_elf_executable\<close> writes (\<^verbatim>\<open>src/src/backend/elf.c\<close>): what a loader finds in
  them. The segments hold the linked sections, every relocation of a defined symbol is applied, and a
  reference to a symbol that is defined nowhere is an error.
\<close>

section \<open>Writing inside of a file\<close>

lemma overwrite_inside:
  assumes "p + length xs \<le> length t"
  shows "overwrite (z @ t @ r) (length z + p) xs = z @ overwrite t p xs @ r"
  using assms by (simp add: overwrite_def)

lemma length_overwrite: "p + length xs \<le> length bs \<Longrightarrow> length (overwrite bs p xs) = length bs"
  by (simp add: overwrite_def)

lemma nth_overwrite:
  assumes "p + length xs \<le> length bs" "i < length bs"
  shows "overwrite bs p xs ! i = (if p \<le> i \<and> i < p + length xs then xs ! (i - p) else bs ! i)"
  using assms by (auto simp: overwrite_def nth_append)

section \<open>The specification\<close>

abbreviation exec_sections :: "asm_module \<Rightarrow> section_info list" where
  "exec_sections m \<equiv> placed_sections ET_EXEC m [] []"

definition address :: "asm_module \<Rightarrow> nat \<Rightarrow> u32" where
  "address m i = info_virtual_address (exec_sections m ! i)"

definition location :: "asm_module \<Rightarrow> link_symbol \<Rightarrow> u32" where
  "location m s = address m (ls_section_index s) + ls_section_offset s"

text \<open>The value of a relocation: S + A - P where it is relative to its place P, and S + A otherwise.\<close>

definition final_value :: "asm_module \<Rightarrow> u32 \<Rightarrow> relocation \<Rightarrow> u32" where
  "final_value m loc r =
     (if reloc_type r = R_X86_64_PC32
      then loc + reloc_addend r - (address m (reloc_section_index r) + reloc_section_offset r)
      else loc + reloc_addend r)"

definition contents :: "asm_module \<Rightarrow> nat \<Rightarrow> u8 list" where
  "contents m i = (if i = TEXT_INDEX then text_bytes m else data_bytes m)"

definition reloc_ok :: "asm_module \<Rightarrow> relocation \<Rightarrow> bool" where
  "reloc_ok m r = (reloc_type r \<in> {R_X86_64_PC32, R_X86_64_64, R_X86_64_32S, R_X86_64_32} \<and>
     reloc_section_index r \<in> {TEXT_INDEX, DATA_INDEX} \<and>
     unat (reloc_section_offset r) + 4 \<le> length (contents m (reloc_section_index r)))"

definition symbol_ok :: "asm_module \<Rightarrow> link_symbol \<Rightarrow> bool" where
  "symbol_ok m s = (CHR 0x00 \<notin> set (ls_name s) \<and> (\<forall>r\<in>set (ls_relocs s). reloc_ok m r) \<and>
     (ls_defined s \<longrightarrow> ls_section_index s \<in> {TEXT_INDEX, BSS_INDEX, DATA_INDEX}))"

definition exec_size :: "asm_module \<Rightarrow> link_symbol list \<Rightarrow> nat" where
  "exec_size m table = 808 + length (text_bytes m) + length (data_bytes m) + 66 + 24 * (length table + 1) +
     1 + names_size (map ls_name table)"

definition patch :: "asm_module \<Rightarrow> nat \<Rightarrow> u32 \<times> relocation \<Rightarrow> u8 list \<Rightarrow> u8 list" where
  "patch m i = (\<lambda>(loc, r) bs. if reloc_section_index r = i
     then overwrite bs (unat (reloc_section_offset r)) (le 4 (ucast (final_value m loc r))) else bs)"

definition refs :: "asm_module \<Rightarrow> link_symbol list \<Rightarrow> (u32 \<times> relocation) list" where
  "refs m table = concat (map (\<lambda>s. map (Pair (location m s)) (ls_relocs s)) (filter ls_defined table))"

definition relocated :: "asm_module \<Rightarrow> link_symbol list \<Rightarrow> nat \<Rightarrow> u8 list" where
  "relocated m table i = fold (patch m i) (refs m table) (contents m i)"

section \<open>Relocations applied\<close>

lemma index_neqs_back [simp]: "DATA_INDEX \<noteq> TEXT_INDEX" "TEXT_INDEX \<noteq> BSS_INDEX" "BSS_INDEX \<noteq> TEXT_INDEX"
  by (simp_all add: index_defs)

definition holds :: "elf_file \<Rightarrow> asm_module \<Rightarrow> u8 list \<Rightarrow> u8 list \<Rightarrow> u8 list \<Rightarrow> bool" where
  "holds e m t d s = (fbytes (output_file e) = replicate 808 0 @ t @ d @ s \<and> length t = length (text_bytes m) \<and>
     length d = length (data_bytes m) \<and> section_infos e = exec_sections m \<and> elf_type e = ET_EXEC)"

lemma exec_section_fields:
  "info_offset (exec_sections m ! TEXT_INDEX) = 808"
  "info_offset (exec_sections m ! DATA_INDEX) = 808 + of_nat (length (text_bytes m))"
  by (simp_all add: placed_sections_def index_defs section_at_defs first_object_offset)

lemma unat_add_small: "unat (x :: u32) + unat y < 2 ^ 32 \<Longrightarrow> unat (x + y) = unat x + unat y"
  by (simp add: unat_add_lem [THEN iffD1])

lemma length_patch: "reloc_ok m r \<Longrightarrow> length bs = length (contents m i) \<Longrightarrow> length (patch m i (loc, r) bs) = length bs"
  by (auto simp: patch_def reloc_ok_def length_overwrite)

lemma apply_reloc_patches:
  assumes h: "holds e m t d s" and ok: "reloc_ok m r" and sz: "exec_size m table < 2 ^ 32"
  shows "\<exists>e'. apply_reloc loc r e = Inr e' \<and>
    holds e' m (patch m TEXT_INDEX (loc, r) t) (patch m DATA_INDEX (loc, r) d) s \<and>
    e' = e\<lparr>output_file := output_file e'\<rparr>"
proof -
  let ?o = "unat (reloc_section_offset r)" and ?v = "le 4 (ucast (final_value m loc r))"
  let ?i = "reloc_section_index r"
  let ?p = "if ?i = TEXT_INDEX then 808 else 808 + length (text_bytes m)"
  have b: "?o + 4 \<le> length (contents m ?i)" "?i = TEXT_INDEX \<or> ?i = DATA_INDEX" using ok by (auto simp: reloc_ok_def)
  have p: "unat (info_offset (exec_sections m ! ?i)) = ?p"
    using b(2) sz length_word [of "808 + length (text_bytes m)"] by (auto simp: exec_section_fields exec_size_def)
  have "unat (reloc_section_offset r + info_offset (exec_sections m ! ?i)) = ?p + ?o"
    using b sz p by (subst unat_add_small) (auto simp: contents_def exec_size_def)
  then have "apply_reloc loc r e = Inr (emit ?v (seek (?p + ?o) e))"
    using ok h by (auto simp: apply_reloc_def reloc_value_def Let_def holds_def reloc_ok_def final_value_def address_def)
  moreover have "overwrite (replicate 808 0 @ t @ d @ s) (808 + ?o) ?v = replicate 808 0 @ overwrite t ?o ?v @ d @ s"
    if "?i = TEXT_INDEX"
    using overwrite_inside [of ?o ?v t "replicate 808 0" "d @ s"] b(1) h that by (simp add: holds_def contents_def)
  moreover have "overwrite (replicate 808 0 @ t @ d @ s) (808 + length (text_bytes m) + ?o) ?v =
      replicate 808 0 @ t @ overwrite d ?o ?v @ s" if "?i = DATA_INDEX"
    using overwrite_inside [of ?o ?v d "replicate 808 0 @ t" s] b(1) h that by (simp add: holds_def contents_def)
  ultimately show ?thesis using b h
    by (auto simp: holds_def patch_def length_overwrite contents_def emit_def seek_def checked_fwrite_def checked_fseek_def le_def)
qed

lemma apply_relocs_patches:
  assumes "holds e m t d s" "\<forall>r\<in>set rs. reloc_ok m r" "exec_size m table < 2 ^ 32"
  shows "\<exists>e'. apply_relocs loc rs e = Inr e' \<and>
    holds e' m (fold (patch m TEXT_INDEX) (map (Pair loc) rs) t) (fold (patch m DATA_INDEX) (map (Pair loc) rs) d) s \<and>
    e' = e\<lparr>output_file := output_file e'\<rparr>"
  using assms
proof (induction rs arbitrary: e t d)
  case (Cons r rs)
  obtain e1 where e1: "apply_reloc loc r e = Inr e1"
    "holds e1 m (patch m TEXT_INDEX (loc, r) t) (patch m DATA_INDEX (loc, r) d) s" "e1 = e\<lparr>output_file := output_file e1\<rparr>"
    using apply_reloc_patches [OF Cons.prems(1)] Cons.prems by fastforce
  obtain e2 where "apply_relocs loc rs e1 = Inr e2" "e2 = e1\<lparr>output_file := output_file e2\<rparr>"
    "holds e2 m (fold (patch m TEXT_INDEX) (map (Pair loc) rs) (patch m TEXT_INDEX (loc, r) t))
      (fold (patch m DATA_INDEX) (map (Pair loc) rs) (patch m DATA_INDEX (loc, r) d)) s"
    using Cons.IH [OF e1(2)] Cons.prems by auto
  then show ?case using e1 by (auto intro!: exI [of _ e2]) (metis elf_file.surjective elf_file.update_convs(1))
qed auto

section \<open>The symbol table\<close>

definition at_end :: "elf_file \<Rightarrow> bool" where
  "at_end e = (fposition (output_file e) = length (fbytes (output_file e)))"

lemma emit_at_end:
  assumes "holds e m t d s" "at_end e"
  shows "holds (emit xs e) m t d (s @ xs)" "at_end (emit xs e)"
  using assms by (auto simp: holds_def at_end_def emit_def checked_fwrite_def overwrite_def)

definition starts :: "link_symbol \<Rightarrow> bool" where
  "starts s = (ls_defined s \<and> ls_name s = ''_start'')"

definition entry_point :: "asm_module \<Rightarrow> link_symbol list \<Rightarrow> u32 \<Rightarrow> u32" where
  "entry_point m table x = fold (\<lambda>s x. if starts s then location m s else x) table x"

definition local_symbol :: "link_symbol \<Rightarrow> bool" where
  "local_symbol s = (ls_defined s \<and> ls_binding s = STB_LOCAL)"

definition unresolved :: "link_symbol \<Rightarrow> bool" where
  "unresolved s = (\<not> ls_defined s \<and> ls_relocs s \<noteq> [])"

lemma add_symbol_exec_eq:
  assumes "elf_type e = ET_EXEC" "CHR 0x00 \<notin> set name"
  shows "add_symbol e type binding sec name v sz = emit (encode_symbol (symtab_entry (next_string_index e) type binding sec v sz))
    (e\<lparr>entry_point_virtual_address := (if name = ''_start'' then v else entry_point_virtual_address e),
       last_local_symbol_index := (if binding = STB_LOCAL then curr_symbol_index e else last_local_symbol_index e),
       next_string_index := next_string_index e + of_nat (length name + 1), curr_symbol_index := curr_symbol_index e + 1\<rparr>)"
proof -
  have "string_eq name ''_start'' \<longleftrightarrow> name = ''_start''" by (rule string_eq_iff [OF assms(2)])
  then show ?thesis using assms(1)
    by (cases "binding = STB_LOCAL"; cases "name = ''_start''") (simp_all add: add_symbol_def Let_def symtab_entry_def)
qed

lemma add_symbol_exec:
  assumes "holds e m t d s" "at_end e" "CHR 0x00 \<notin> set name"
    and e': "e' = add_symbol e type binding sec name v sz"
  shows "\<exists>x. length x = 24 \<and> holds e' m t d (s @ x)" "at_end e'"
    and "entry_point_virtual_address e' = (if name = ''_start'' then v else entry_point_virtual_address e)"
    and "curr_symbol_index e' = curr_symbol_index e + 1"
    and "last_local_symbol_index e' = (if binding = STB_LOCAL then curr_symbol_index e else last_local_symbol_index e)"
proof -
  have "elf_type e = ET_EXEC" using assms(1) by (simp add: holds_def)
  note eq = add_symbol_exec_eq [OF this assms(3), of type binding sec v sz, folded e']
  let ?e = "e\<lparr>entry_point_virtual_address := (if name = ''_start'' then v else entry_point_virtual_address e),
       last_local_symbol_index := (if binding = STB_LOCAL then curr_symbol_index e else last_local_symbol_index e),
       next_string_index := next_string_index e + of_nat (length name + 1), curr_symbol_index := curr_symbol_index e + 1\<rparr>"
  have "holds ?e m t d s" "at_end ?e" using assms(1,2) by (simp_all add: holds_def at_end_def)
  from emit_at_end [OF this] show "\<exists>x. length x = 24 \<and> holds e' m t d (s @ x)" "at_end e'"
    unfolding eq by (blast intro: encode_lengths(4))+
qed (use assms in \<open>simp_all add: add_symbol_exec_eq holds_def\<close>)

lemma write_symbol_exec:
  assumes h: "holds e m t d s" "at_end e" and ok: "symbol_ok m y" "ls_defined y"
    and sz: "exec_size m table < 2 ^ 32" "808 + length t + length d + length s + 24 < 2 ^ 32"
  shows "\<exists>e' x. write_symbol y e = Inr e' \<and> length x = 24 \<and> at_end e' \<and>
    holds e' m (fold (patch m TEXT_INDEX) (refs m [y]) t) (fold (patch m DATA_INDEX) (refs m [y]) d) (s @ x) \<and>
    entry_point_virtual_address e' = (if starts y then location m y else entry_point_virtual_address e) \<and>
    curr_symbol_index e' = curr_symbol_index e + 1 \<and>
    last_local_symbol_index e' = (if local_symbol y then curr_symbol_index e else last_local_symbol_index e)"
proof -
  obtain ty where ty: "(if ls_section_index y = TEXT_INDEX then Inr STT_FUNC
      else if ls_section_index y = BSS_INDEX \<or> ls_section_index y = DATA_INDEX then Inr STT_OBJECT else exit_ice) = Inr ty"
    using ok by (auto simp: symbol_ok_def)
  have nz: "CHR 0x00 \<notin> set (ls_name y)" using ok(1) by (simp add: symbol_ok_def)
  have loc: "symbol_location e y = location m y" using h(1) by (simp add: symbol_location_def location_def address_def holds_def)
  let ?e = "add_symbol e ty (ls_binding y) (of_nat (ls_section_index y)) (ls_name y) (location m y) (ls_size y)"
  obtain x where x: "length x = 24" "holds ?e m t d (s @ x)" using add_symbol_exec(1) [OF h nz refl] by blast
  have ae: "at_end ?e" by (rule add_symbol_exec(2) [OF h nz refl])
  obtain e1 where e1: "apply_relocs (location m y) (ls_relocs y) ?e = Inr e1"
    "holds e1 m (fold (patch m TEXT_INDEX) (refs m [y]) t) (fold (patch m DATA_INDEX) (refs m [y]) d) (s @ x)"
    "e1 = ?e\<lparr>output_file := output_file e1\<rparr>"
    using apply_relocs_patches [OF x(2)] ok sz(1) by (fastforce simp: symbol_ok_def refs_def)
  have len: "length (fbytes (output_file ?e)) = 808 + length t + length d + length s + 24"
    using x by (simp add: holds_def)
  have "unat (tell ?e) = length (fbytes (output_file ?e))"
    using ae sz(2) length_word [of "length (fbytes (output_file ?e))"]
    by (simp only: tell_def checked_ftell_def at_end_def len)
  moreover have "length (fbytes (output_file e1)) = length (fbytes (output_file ?e))"
    using e1(2) x(2) by (simp add: holds_def)
  ultimately have "at_end (seek (unat (tell ?e)) e1)" by (simp add: at_end_def seek_def)
  moreover have "write_symbol y e = Inr (seek (unat (tell ?e)) e1)"
    using ok(2) e1(1) by (simp add: write_symbol_def Let_def loc ty)
  moreover have "entry_point_virtual_address e1 = entry_point_virtual_address ?e" "curr_symbol_index e1 = curr_symbol_index ?e"
    "last_local_symbol_index e1 = last_local_symbol_index ?e" by (subst e1(3); simp)+
  ultimately show ?thesis
    using x(1) e1(2) ok(2) add_symbol_exec(3-5) [OF h nz refl]
    by (auto simp: holds_def seek_def starts_def local_symbol_def intro!: exI [of _ x])
qed

lemma refs_Cons: "refs m (y # ys) = refs m [y] @ refs m ys"
  by (simp add: refs_def)

lemma write_symbols_exec:
  assumes "holds e m t d s" "at_end e" "\<forall>y\<in>set ys. symbol_ok m y \<and> \<not> unresolved y"
    and "exec_size m table < 2 ^ 32" "808 + length t + length d + length s + 24 * length ys < 2 ^ 32"
    and "curr_symbol_index e = of_nat k" "0 < k" "k + length ys < 2 ^ 32"
  shows "\<exists>e' x. write_symbols ys e = Inr e' \<and> at_end e' \<and>
    holds e' m (fold (patch m TEXT_INDEX) (refs m ys) t) (fold (patch m DATA_INDEX) (refs m ys) d) (s @ x) \<and>
    entry_point_virtual_address e' = entry_point m ys (entry_point_virtual_address e) \<and>
    (last_local_symbol_index e' = 0 \<longleftrightarrow> last_local_symbol_index e = 0 \<and> \<not> (\<exists>y\<in>set ys. local_symbol y))"
  using assms
proof (induction ys arbitrary: e t d s k)
  case Nil
  then show ?case by (auto simp: refs_def entry_point_def intro!: exI [of _ "[]"])
next
  case (Cons y ys)
  show ?case
  proof (cases "ls_defined y")
    case False
    then have "write_symbols (y # ys) e = write_symbols ys e" "refs m (y # ys) = refs m ys"
      "entry_point m (y # ys) = entry_point m ys" "\<not> local_symbol y"
      using Cons.prems(3) by (auto simp: write_symbol_def unresolved_def refs_def entry_point_def starts_def local_symbol_def)
    then show ?thesis using Cons.IH [OF Cons.prems(1,2) _ Cons.prems(4) _ Cons.prems(6,7)] Cons.prems by simp
  next
    case True
    obtain e1 x where e1: "write_symbol y e = Inr e1" "length x = 24" "at_end e1"
      "holds e1 m (fold (patch m TEXT_INDEX) (refs m [y]) t) (fold (patch m DATA_INDEX) (refs m [y]) d) (s @ x)"
      "entry_point_virtual_address e1 = (if starts y then location m y else entry_point_virtual_address e)"
      "curr_symbol_index e1 = curr_symbol_index e + 1"
      "last_local_symbol_index e1 = (if local_symbol y then curr_symbol_index e else last_local_symbol_index e)"
      using write_symbol_exec [OF Cons.prems(1,2) _ True Cons.prems(4)] Cons.prems(3,5) by auto
    have lens: "length (fold (patch m TEXT_INDEX) (refs m [y]) t) = length t" "length (fold (patch m DATA_INDEX) (refs m [y]) d) = length d"
      using e1(4) Cons.prems(1) by (simp_all add: holds_def)
    have "(of_nat k :: u32) \<noteq> 0" using length_word [of k] Cons.prems(7,8) by (metis add_lessD1 unat_0 less_numeral_extra(3))
    then have ll: "last_local_symbol_index e1 = 0 \<longleftrightarrow> last_local_symbol_index e = 0 \<and> \<not> local_symbol y"
      using e1(7) Cons.prems(6) by auto
    have "\<exists>e' x'. write_symbols ys e1 = Inr e' \<and> at_end e' \<and>
      holds e' m (fold (patch m TEXT_INDEX) (refs m ys) (fold (patch m TEXT_INDEX) (refs m [y]) t))
        (fold (patch m DATA_INDEX) (refs m ys) (fold (patch m DATA_INDEX) (refs m [y]) d)) ((s @ x) @ x') \<and>
      entry_point_virtual_address e' = entry_point m ys (entry_point_virtual_address e1) \<and>
      (last_local_symbol_index e' = 0 \<longleftrightarrow> last_local_symbol_index e1 = 0 \<and> \<not> (\<exists>y\<in>set ys. local_symbol y))"
      by (rule Cons.IH [OF e1(4,3) _ Cons.prems(4), where k = "Suc k"]) (use Cons.prems e1 lens in simp_all)
    then obtain e2 x2 where e2: "write_symbols ys e1 = Inr e2" "at_end e2"
      "holds e2 m (fold (patch m TEXT_INDEX) (refs m [y] @ refs m ys) t) (fold (patch m DATA_INDEX) (refs m [y] @ refs m ys) d)
        (s @ (x @ x2))"
      "entry_point_virtual_address e2 = entry_point m ys (entry_point_virtual_address e1)"
      "last_local_symbol_index e2 = 0 \<longleftrightarrow> last_local_symbol_index e1 = 0 \<and> \<not> (\<exists>y\<in>set ys. local_symbol y)" by auto
    have r: "refs m (y # ys) = refs m [y] @ refs m ys" by (rule refs_Cons)
    have "entry_point_virtual_address e2 = entry_point m (y # ys) (entry_point_virtual_address e)"
      using e2(4) e1(5) by (simp add: entry_point_def)
    then show ?thesis unfolding r using e1(1) e2 ll by (intro exI [of _ e2] exI [of _ "x @ x2"]) simp
  qed
qed

lemma write_symbols_unresolved:
  assumes "holds e m t d s" "at_end e" "\<forall>y\<in>set ys. symbol_ok m y" "\<exists>y\<in>set ys. unresolved y"
    and "exec_size m table < 2 ^ 32" "808 + length t + length d + length s + 24 * length ys < 2 ^ 32"
  shows "write_symbols ys e = linker_error"
  using assms
proof (induction ys arbitrary: e t d s)
  case (Cons y ys)
  show ?case
  proof (cases "ls_defined y")
    case False
    then show ?thesis using Cons.IH [OF Cons.prems(1,2) _ _ Cons.prems(5)] Cons.prems
      by (auto simp: write_symbol_def unresolved_def)
  next
    case True
    obtain e1 x where e1: "write_symbol y e = Inr e1" "length x = 24" "at_end e1"
      "holds e1 m (fold (patch m TEXT_INDEX) (refs m [y]) t) (fold (patch m DATA_INDEX) (refs m [y]) d) (s @ x)"
      using write_symbol_exec [OF Cons.prems(1,2) _ True Cons.prems(5)] Cons.prems(3,6) by auto
    moreover have "length (fold (patch m TEXT_INDEX) (refs m [y]) t) = length t" "length (fold (patch m DATA_INDEX) (refs m [y]) d) = length d"
      using e1(4) Cons.prems(1) by (simp_all add: holds_def)
    ultimately show ?thesis using Cons.IH [OF e1(4,3) _ _ Cons.prems(5)] Cons.prems True by (auto simp: unresolved_def)
  qed
qed simp

section \<open>What a loader finds\<close>

definition decode_program_header :: "u8 list \<Rightarrow> elf_program_header" where
  "decode_program_header bs =
     \<lparr>ph_type = ucast (field bs 0 4), ph_flags = ucast (field bs 4 4), segment_location = field bs 8 8,
      ph_virtual_address = field bs 16 8, ph_physical_address = field bs 24 8, segment_size_in_file = field bs 32 8,
      segment_size_in_process = field bs 40 8, ph_alignment = field bs 48 8\<rparr>"

lemma decode_encode_program_header: "decode_program_header (encode_program_header h @ bs) = h"
  by (simp add: decode_program_header_def encode_program_header_def field_skip field_here)

text \<open>
  The segments of an executable as the System V ABI has them loaded: for each entry of the program
  header table the address and the bytes from the file, with zeros up to the size in memory.
\<close>

definition segment :: "u8 list \<Rightarrow> elf_program_header \<Rightarrow> u64 \<times> u8 list" where
  "segment exe h = (ph_virtual_address h,
     take (unat (segment_size_in_file h)) (drop (unat (segment_location h)) exe) @
     replicate (unat (segment_size_in_process h) - unat (segment_size_in_file h)) 0)"

definition load :: "u8 list \<Rightarrow> (u64 \<times> u8 list) list" where
  "load exe = (let h = decode_elf_header exe in
     map (\<lambda>i. segment exe (decode_program_header (drop (unat (pht_location h) + 56 * i) exe))) [0..<unat (pht_entries h)])"

lemma overwrite_part: "length x = length b \<Longrightarrow> overwrite (a @ b @ c) (length a) x = a @ x @ c"
  by (simp add: overwrite_def)

lemma front_split: "replicate 808 (0 :: u8) = replicate 64 0 @ replicate 576 0 @ replicate 168 0"
  by (simp flip: replicate_add)

lemma headers_over:
  assumes "fbytes (output_file e) = replicate 808 0 @ xs" "length h = 64" "length hs = 576" "length ph = 168"
  shows "fbytes (output_file (emit hs (seek 64 (emit h (seek 0 (emit ph (seek 640 e))))))) = h @ hs @ ph @ xs"
proof -
  have "overwrite (replicate 808 0 @ xs) 640 ph = replicate 64 0 @ replicate 576 0 @ ph @ xs"
    using overwrite_part [of ph "replicate 168 0" "replicate 64 0 @ replicate 576 0" xs] assms unfolding front_split by simp
  moreover have "overwrite (replicate 64 0 @ replicate 576 0 @ ph @ xs) 0 h = h @ replicate 576 0 @ ph @ xs"
    using overwrite_part [of h "replicate 64 0" "[]"] assms by simp
  moreover have "overwrite (h @ replicate 576 0 @ ph @ xs) 64 hs = h @ hs @ ph @ xs"
    using overwrite_part [of hs "replicate 576 0" h "ph @ xs"] assms by simp
  moreover have "h \<noteq> []" "hs \<noteq> []" "ph \<noteq> []" using assms by auto
  ultimately show ?thesis
    using assms(1) by (simp add: emit_def seek_def checked_fwrite_def checked_fseek_def)
qed

lemma finish_exec:
  assumes "elf_type e = ET_EXEC" "entry_point_virtual_address e \<noteq> -1" "last_local_symbol_index e \<noteq> 0"
    and "fbytes (output_file e) = replicate 808 0 @ xs" "length (section_infos e) = 9"
  shows "\<exists>e' f. finish_strtab_section e = Inr e' \<and> elf_type f = ET_EXEC \<and>
    entry_point_virtual_address f = entry_point_virtual_address e \<and> (\<forall>i. i \<noteq> STRTAB_INDEX \<longrightarrow> info f i = info e i) \<and>
    fbytes (output_file e') = encode_elf_header (file_header f) @ concat (map encode_section_header (section_headers f)) @
      concat (map encode_program_header (program_headers f)) @ xs"
proof -
  let ?f = "upd_info STRTAB_INDEX (\<lambda>s. s\<lparr>info_size := tell e - info_offset (info e STRTAB_INDEX)\<rparr>) e"
  let ?h = "encode_elf_header (file_header ?f)" and ?hs = "concat (map encode_section_header (section_headers ?f))"
    and ?ph = "concat (map encode_program_header (program_headers ?f))"
  have len: "length ?h = 64" "length ?hs = 576" "length ?ph = 168"
    using encode_lengths(1) [OF ident_length] length_section_headers by (simp_all add: program_headers_def)
  have ph: "program_headers (seek p (emit bs x)) = program_headers x" for p bs x by (simp add: program_headers_def)
  have fin: "finish_strtab_section e = Inr (emit ?hs (seek 64 (emit ?h (seek 0 (emit ?ph (seek 640 ?f))))))"
    using assms(1-3) by (simp add: finish_strtab_section_def Let_def emit_nonempty_infos NUM_SECTIONS_def)
  have "fbytes (output_file (emit ?hs (seek 64 (emit ?h (seek 0 (emit ?ph (seek 640 ?f))))))) = ?h @ ?hs @ ?ph @ xs"
    using assms(4) len by (intro headers_over) simp_all
  then show ?thesis using fin assms(1,5) by (intro exI [of _ ?f] exI conjI) (assumption | simp)+
qed

text \<open>Loading a file with such headers.\<close>

lemma load_headers:
  fixes f :: elf_file and xs :: "u8 list"
  assumes "elf_type f = ET_EXEC"
  defines "exe \<equiv> encode_elf_header (file_header f) @ concat (map encode_section_header (section_headers f)) @
      concat (map encode_program_header (program_headers f)) @ xs"
  shows "load exe = map (segment exe) (program_headers f)"
    "header_entry_point (decode_elf_header exe) = scast (entry_point_virtual_address f)"
proof -
  let ?h = "encode_elf_header (file_header f)" and ?hs = "concat (map encode_section_header (section_headers f))"
  have len: "length ?h = 64" "length ?hs = 576"
    using encode_lengths(1) [OF ident_length] length_section_headers by simp_all
  have d: "decode_elf_header exe = file_header f" unfolding exe_def by (rule decode_encode_elf_header [OF ident_length])
  show "header_entry_point (decode_elf_header exe) = scast (entry_point_virtual_address f)"
    unfolding d using assms(1) by (simp add: file_header_def)
  obtain a b c where p: "program_headers f = [a, b, c]" by (simp add: program_headers_def)
  have u: "unat (pht_location (file_header f)) = 640" "unat (pht_entries (file_header f)) = 3"
    using assms(1) by (simp_all add: file_header_def NUM_SECTIONS_def)
  have "drop 640 exe = encode_program_header a @ encode_program_header b @ encode_program_header c @ xs"
    "drop 696 exe = encode_program_header b @ encode_program_header c @ xs" "drop 752 exe = encode_program_header c @ xs"
    using len by (simp_all add: exe_def p)
  moreover have "[0..<3] = [0, 1, 2]" by (simp add: upt_rec)
  ultimately show "load exe = map (segment exe) (program_headers f)"
    unfolding load_def d Let_def u by (simp add: p decode_encode_program_header)
qed

lemma exec_program_headers:
  assumes "\<And>i. i \<noteq> STRTAB_INDEX \<Longrightarrow> i \<noteq> SYMTAB_INDEX \<Longrightarrow> info f i = exec_sections m ! i"
    and "length t = length (text_bytes m)" "length d = length (data_bytes m)"
    and "length front = 808" "808 + length t + length d < 2 ^ 32"
  shows "map (segment (front @ t @ d @ s)) (program_headers f) =
    [(ucast (address m TEXT_INDEX), t), (ucast (address m BSS_INDEX), replicate (unat (bss_size m)) 0),
     (ucast (address m DATA_INDEX), d)]"
proof -
  have i: "info f TEXT_INDEX = exec_sections m ! TEXT_INDEX" "info f BSS_INDEX = exec_sections m ! BSS_INDEX"
    "info f DATA_INDEX = exec_sections m ! DATA_INDEX"
    by (rule assms(1); simp add: index_defs)+
  have sizes: "info_size (exec_sections m ! TEXT_INDEX) = of_nat (length t)" "info_size (exec_sections m ! BSS_INDEX) = bss_size m"
    "info_size (exec_sections m ! DATA_INDEX) = of_nat (length d)"
    using assms(2,3) by (simp_all add: placed_sections_def index_defs)
  have u: "unat (ucast (of_nat n :: u32) :: u64) = n" if "n < 2 ^ 32" for n using that by (rule word_size_back)
  have o: "unat (ucast (808 + of_nat (length t) :: u32) :: u64) = 808 + length t"
    using word_size_back [of "808 + length t"] assms(5) by simp
  have bss: "unat (ucast (bss_size m) :: u64) = unat (bss_size m)" using word_size_back [of "unat (bss_size m)"] unsigned_less [of "bss_size m", where 'a = nat] by simp
  show ?thesis
    using assms(2-5) u [of "length t"] u [of "length d"] o bss
    by (simp add: program_headers_def load_segment_def segment_def i sizes exec_section_fields address_def)
qed

lemma relocated_length:
  assumes "\<forall>s\<in>set table. symbol_ok m s"
  shows "length (relocated m table i) = length (contents m i)"
proof -
  have "\<forall>(loc, r)\<in>set (refs m table). reloc_ok m r" using assms by (auto simp: refs_def symbol_ok_def)
  then have "length (fold (patch m i) ps bs) = length (contents m i)"
    if "set ps \<subseteq> set (refs m table)" "length bs = length (contents m i)" for ps bs
    using that by (induction ps arbitrary: bs) (fastforce simp: length_patch)+
  then show ?thesis by (simp add: relocated_def)
qed

lemma write_contents_exec:
  assumes "length (text_bytes m) < 2 ^ 32" "length (data_bytes m) < 2 ^ 32"
  shows "\<exists>e. write_contents [] (elf_file_for ET_EXEC m) [] = Inr e \<and> at_end e \<and>
    holds e m (text_bytes m) (data_bytes m) (SHSTRTAB_CONTENTS @ replicate 24 0) \<and>
    entry_point_virtual_address e = 0 \<and> curr_symbol_index e = of_nat 1 \<and> last_local_symbol_index e = 0"
proof -
  let ?e = "emit (first_contents m [] []) (placed_file ET_EXEC m [] [])"
  have w: "write_contents [] (elf_file_for ET_EXEC m) [] = Inr ?e"
    using assms by (intro write_contents_result) simp_all
  moreover have "first_contents m [] [] \<noteq> []" by (simp add: first_contents_def)
  then have "output_file ?e = \<lparr>fbytes = replicate 808 0 @ first_contents m [] [], fposition = 808 + length (first_contents m [] [])\<rparr>"
    by (simp add: placed_file_def unat_first_offset emit_def seek_def checked_fwrite_def checked_fseek_def init_elf_file_def
        open_file_def overwrite_def)
  ultimately show ?thesis
    by (auto simp: at_end_def holds_def first_contents_def placed_file_def init_elf_file_def)
qed

definition link_ok :: "link_state \<Rightarrow> bool" where
  "link_ok st = ((\<forall>s\<in>set (symbol_table st). symbol_ok (linked st) s) \<and> exec_size (linked st) (symbol_table st) < 2 ^ 32)"

lemma link_ok_sizes:
  assumes "link_ok st"
  shows "length (text_bytes (linked st)) < 2 ^ 32" "length (data_bytes (linked st)) < 2 ^ 32"
    "808 + length (text_bytes (linked st)) + length (data_bytes (linked st)) + length (SHSTRTAB_CONTENTS @ replicate 24 0) +
      24 * length (symbol_table st) < 2 ^ 32" "1 + length (symbol_table st) < 2 ^ 32"
  using assms by (simp_all add: link_ok_def exec_size_def length_shstrtab)

lemma executable_bytes:
  assumes ok: "link_ok st" and "\<forall>s\<in>set (symbol_table st). \<not> unresolved s" "\<exists>s\<in>set (symbol_table st). local_symbol s"
    and "entry_point (linked st) (symbol_table st) 0 \<noteq> -1"
  shows "\<exists>exe. write_executable st = Inr exe \<and>
    load exe = [(ucast (address (linked st) TEXT_INDEX), relocated (linked st) (symbol_table st) TEXT_INDEX),
      (ucast (address (linked st) BSS_INDEX), replicate (unat (bss_size (linked st))) 0),
      (ucast (address (linked st) DATA_INDEX), relocated (linked st) (symbol_table st) DATA_INDEX)] \<and>
    header_entry_point (decode_elf_header exe) = scast (entry_point (linked st) (symbol_table st) 0)"
proof -
  let ?m = "linked st" and ?ys = "symbol_table st"
  let ?t = "relocated ?m ?ys TEXT_INDEX" and ?d = "relocated ?m ?ys DATA_INDEX"
  obtain e where e: "write_contents [] (elf_file_for ET_EXEC ?m) [] = Inr e" "at_end e"
    "holds e ?m (text_bytes ?m) (data_bytes ?m) (SHSTRTAB_CONTENTS @ replicate 24 0)"
    "entry_point_virtual_address e = 0" "curr_symbol_index e = of_nat 1" "last_local_symbol_index e = 0"
    using write_contents_exec link_ok_sizes(1,2) [OF ok] by blast
  obtain e1 x where e1: "write_symbols ?ys e = Inr e1" "at_end e1" "holds e1 ?m ?t ?d ((SHSTRTAB_CONTENTS @ replicate 24 0) @ x)"
    "entry_point_virtual_address e1 = entry_point ?m ?ys 0" "last_local_symbol_index e1 \<noteq> 0"
    using write_symbols_exec [OF e(3,2) _ _ link_ok_sizes(3) [OF ok] e(5) _ link_ok_sizes(4) [OF ok], of ?ys] assms e
    by (auto simp: link_ok_def relocated_def contents_def)
  define s where "s = (SHSTRTAB_CONTENTS @ replicate 24 0) @ x @ [0] @ names_bytes (map ls_name ?ys)"
  let ?e2 = "fold (\<lambda>s e. add_string e (ls_name s)) ?ys (finish_symtab_section e1)"
  obtain e0 where e0: "finish_symtab_section e1 = emit [0] e0" "output_file e0 = output_file e1" "elf_type e0 = ET_EXEC"
    "length (section_infos e0) = 9" "entry_point_virtual_address e0 = entry_point_virtual_address e1"
    "last_local_symbol_index e0 = last_local_symbol_index e1"
    "\<And>i. i \<noteq> STRTAB_INDEX \<Longrightarrow> i \<noteq> SYMTAB_INDEX \<Longrightarrow> info e0 i = exec_sections ?m ! i"
    using e1(3) by (auto simp: finish_symtab_section_def Let_def holds_def)
  have "\<forall>s\<in>set (map ls_name ?ys). CHR 0x00 \<notin> set s" using ok by (auto simp: link_ok_def symbol_ok_def)
  then have e2: "?e2 = emit ([0] @ names_bytes (map ls_name ?ys)) e0"
    using fold_add_string [of "map ls_name ?ys" "emit [0] e0"] by (simp add: e0(1) fold_map comp_def)
  have fb: "fbytes (output_file ?e2) = replicate 808 0 @ ?t @ ?d @ s"
    using e1(2,3) e0(2) unfolding e2
    by (simp add: s_def holds_def at_end_def emit_def checked_fwrite_def overwrite_def)
  obtain e3 f where f: "finish_strtab_section ?e2 = Inr e3" "elf_type f = ET_EXEC"
    "entry_point_virtual_address f = entry_point ?m ?ys 0" "\<forall>i. i \<noteq> STRTAB_INDEX \<longrightarrow> info f i = info ?e2 i"
    "fbytes (output_file e3) = encode_elf_header (file_header f) @ concat (map encode_section_header (section_headers f)) @
      concat (map encode_program_header (program_headers f)) @ ?t @ ?d @ s"
    using finish_exec [OF _ _ _ fb] e0 e1(4,5) assms(4) unfolding e2 by auto
  let ?front = "encode_elf_header (file_header f) @ concat (map encode_section_header (section_headers f)) @
      concat (map encode_program_header (program_headers f))"
  have front: "length ?front = 808"
    using encode_lengths(1) [OF ident_length] length_section_headers by (simp add: program_headers_def)
  have "map (segment (?front @ ?t @ ?d @ s)) (program_headers f) =
    [(ucast (address ?m TEXT_INDEX), ?t), (ucast (address ?m BSS_INDEX), replicate (unat (bss_size ?m)) 0),
     (ucast (address ?m DATA_INDEX), ?d)]"
    using relocated_length [of ?ys ?m] ok link_ok_sizes(3) [OF ok] f(4) e0(7) unfolding e2
    by (intro exec_program_headers front) (auto simp: link_ok_def contents_def)
  moreover have "write_executable st = Inr (fbytes (output_file e3))"
    using e(1) e1(1) f(1) by (simp add: write_executable_def)
  ultimately show ?thesis using load_headers [OF f(2), of "?t @ ?d @ s"] f(3,5) by simp
qed

section \<open>Relocations that do not overlap\<close>

definition apart :: "relocation \<Rightarrow> relocation \<Rightarrow> bool" where
  "apart r q = (reloc_section_index r \<noteq> reloc_section_index q \<or>
     unat (reloc_section_offset r) + 4 \<le> unat (reloc_section_offset q) \<or>
     unat (reloc_section_offset q) + 4 \<le> unat (reloc_section_offset r))"

definition covers :: "nat \<Rightarrow> nat \<Rightarrow> relocation \<Rightarrow> bool" where
  "covers i j r = (reloc_section_index r = i \<and> unat (reloc_section_offset r) \<le> j \<and> j < unat (reloc_section_offset r) + 4)"

lemma fold_patch_others:
  assumes "\<forall>(loc, r)\<in>set ps. reloc_ok m r \<and> \<not> covers i j r" "length bs = length (contents m i)" "j < length bs"
  shows "fold (patch m i) ps bs ! j = bs ! j"
  using assms
proof (induction ps arbitrary: bs)
  case (Cons p ps)
  obtain loc r where p: "p = (loc, r)" by (cases p)
  have "patch m i p bs ! j = bs ! j"
    using Cons.prems p by (auto simp: patch_def reloc_ok_def covers_def nth_overwrite)
  moreover have "length (patch m i p bs) = length bs" using Cons.prems p by (simp add: length_patch)
  ultimately show ?case using Cons.IH [of "patch m i p bs"] Cons.prems by simp
qed simp

lemma fold_patch_places:
  assumes "\<forall>(loc, r)\<in>set ps. reloc_ok m r" "sorted_wrt apart (map snd ps)" "length bs = length (contents m i)"
    and "(loc, r) \<in> set ps" "reloc_section_index r = i"
  shows "take 4 (drop (unat (reloc_section_offset r)) (fold (patch m i) ps bs)) = le 4 (ucast (final_value m loc r))"
  using assms
proof (induction ps arbitrary: bs)
  case (Cons p ps)
  have len: "length (patch m i p bs) = length bs" using Cons.prems by (cases p) (simp add: length_patch)
  show ?case
  proof (cases "(loc, r) \<in> set ps")
    case True
    then show ?thesis using Cons.IH [of "patch m i p bs"] Cons.prems len by simp
  next
    case False
    let ?o = "unat (reloc_section_offset r)" and ?v = "le 4 (ucast (final_value m loc r))"
    have p: "p = (loc, r)" and b: "?o + 4 \<le> length bs" using False Cons.prems by (auto simp: reloc_ok_def)
    have "fold (patch m i) ps (patch m i p bs) ! (?o + k) = ?v ! k" if "k < 4" for k
    proof -
      have "\<forall>(loc', q)\<in>set ps. reloc_ok m q \<and> \<not> covers i (?o + k) q"
        using Cons.prems(1,2,5) p that by (fastforce simp: apart_def covers_def)
      then have "fold (patch m i) ps (patch m i p bs) ! (?o + k) = patch m i p bs ! (?o + k)"
        using Cons.prems(3) len b that by (intro fold_patch_others) simp_all
      also have "\<dots> = ?v ! k" using p b Cons.prems(5) that by (simp add: patch_def nth_overwrite)
      finally show ?thesis .
    qed
    moreover have "length (fold (patch m i) ps (patch m i p bs)) = length bs"
    proof -
      have "length (fold (patch m i) qs cs) = length (contents m i)" if "set qs \<subseteq> set ps" "length cs = length (contents m i)" for qs cs
        using that Cons.prems(1) by (induction qs arbitrary: cs) (fastforce simp: length_patch)+
      then show ?thesis using len Cons.prems(3) by simp
    qed
    ultimately show ?thesis using b by (intro nth_equalityI) simp_all
  qed
qed simp

text \<open>
  What the loaded bytes of a section are: the four bytes of every relocation hold the value of the
  relocation and every other byte is as in the linked section.
\<close>

definition section_holds :: "link_state \<Rightarrow> nat \<Rightarrow> u8 list \<Rightarrow> bool" where
  "section_holds st i bs =
     (length bs = length (contents (linked st) i) \<and>
      (\<forall>s\<in>set (symbol_table st). \<forall>r\<in>set (ls_relocs s). reloc_section_index r = i \<longrightarrow>
         take 4 (drop (unat (reloc_section_offset r)) bs) = le 4 (ucast (final_value (linked st) (location (linked st) s) r))) \<and>
      (\<forall>j<length bs. (\<forall>s\<in>set (symbol_table st). \<forall>r\<in>set (ls_relocs s). \<not> covers i j r) \<longrightarrow> bs ! j = contents (linked st) i ! j))"

definition loads_as :: "u8 list \<Rightarrow> link_state \<Rightarrow> link_symbol \<Rightarrow> bool" where
  "loads_as exe st start =
     (map fst (load exe) = map (\<lambda>i. ucast (address (linked st) i)) [TEXT_INDEX, BSS_INDEX, DATA_INDEX] \<and>
      section_holds st TEXT_INDEX (snd (load exe ! 0)) \<and>
      snd (load exe ! 1) = replicate (unat (bss_size (linked st))) 0 \<and>
      section_holds st DATA_INDEX (snd (load exe ! 2)) \<and>
      header_entry_point (decode_elf_header exe) = scast (location (linked st) start))"

lemma executable_as:
  assumes "link_ok st" "\<forall>s\<in>set (symbol_table st). \<not> unresolved s" "\<exists>s\<in>set (symbol_table st). local_symbol s"
    and "filter starts (symbol_table st) = [start]" "location (linked st) start \<noteq> -1"
    and "sorted_wrt apart (concat (map ls_relocs (filter ls_defined (symbol_table st))))"
  shows "\<exists>exe. write_executable st = Inr exe \<and> loads_as exe st start"
proof -
  let ?m = "linked st" and ?ys = "symbol_table st"
  let ?t = "relocated ?m ?ys TEXT_INDEX" and ?d = "relocated ?m ?ys DATA_INDEX"
  have "fold (\<lambda>s x. if starts s then location ?m s else x) ys x = fold (\<lambda>s x. location ?m s) (filter starts ys) x" for ys x
    by (induction ys arbitrary: x) simp_all
  then have entry: "entry_point ?m ?ys 0 = location ?m start" using assms(4) by (simp add: entry_point_def)
  have ok: "\<forall>(loc, r)\<in>set (refs ?m ?ys). reloc_ok ?m r" using assms(1) by (auto simp: refs_def link_ok_def symbol_ok_def)
  have "map snd (refs ?m ?ys) = concat (map ls_relocs (filter ls_defined ?ys))" by (simp add: refs_def map_concat comp_def)
  then have ap: "sorted_wrt apart (map snd (refs ?m ?ys))" using assms(6) by simp
  have mem: "(location ?m s, r) \<in> set (refs ?m ?ys)" if "s \<in> set ?ys" "r \<in> set (ls_relocs s)" for s r
  proof -
    have "ls_defined s" using assms(2) that by (auto simp: unresolved_def)
    then show ?thesis using that unfolding refs_def by auto
  qed
  have "take 4 (drop (unat (reloc_section_offset r)) (relocated ?m ?ys i)) = le 4 (ucast (final_value ?m (location ?m s) r))"
    if "s \<in> set ?ys" "r \<in> set (ls_relocs s)" "reloc_section_index r = i" for s r i
    using fold_patch_places [OF ok ap _ mem [OF that(1,2)]] that(3) by (simp add: relocated_def)
  moreover have "relocated ?m ?ys i ! j = contents ?m i ! j"
    if "j < length (contents ?m i)" "\<forall>s\<in>set ?ys. \<forall>r\<in>set (ls_relocs s). \<not> covers i j r" for i j
    unfolding relocated_def by (rule fold_patch_others) (use ok that in \<open>auto simp: refs_def\<close>)
  moreover have "length (relocated ?m ?ys i) = length (contents ?m i)" for i
    using assms(1) by (intro relocated_length) (simp add: link_ok_def)
  moreover obtain exe where "write_executable st = Inr exe"
    "load exe = [(ucast (address ?m TEXT_INDEX), ?t), (ucast (address ?m BSS_INDEX), replicate (unat (bss_size ?m)) 0),
      (ucast (address ?m DATA_INDEX), ?d)]"
    "header_entry_point (decode_elf_header exe) = scast (location ?m start)"
    using executable_bytes [OF assms(1-3)] assms(5) unfolding entry by blast
  ultimately show ?thesis by (intro exI [of _ exe]) (simp add: contents_def loads_as_def section_holds_def)
qed

text \<open>
  C6. An executable loads as the linked program. If every symbol that is referred to is defined and
  one symbol is local, \<^verbatim>\<open>link_elf_executable\<close> writes a file from whose program headers a loader gets
  three segments: the text, the zeros of the uninitialised data, and the data. In them the four bytes
  of every relocation of a symbol hold S + A - P or S + A, where S is the address at which the
  symbol's definition is loaded, A the addend and P the address of the place itself; every other byte
  is as in the linked sections. The entry point is the address of \<^verbatim>\<open>_start\<close>.
\<close>

theorem executable_loads:
  assumes "link_ok st" "\<forall>s\<in>set (symbol_table st). \<not> unresolved s" "\<exists>s\<in>set (symbol_table st). local_symbol s"
    and "filter starts (symbol_table st) = [start]" "location (linked st) start \<noteq> -1"
    and "sorted_wrt apart (concat (map ls_relocs (filter ls_defined (symbol_table st))))"
  shows "\<exists>exe. write_executable st = Inr exe \<and> loads_as exe st start"
  using assms by (rule executable_as)

definition start_symbol :: link_symbol where
  "start_symbol = \<lparr>ls_defined = True, ls_name = ''_start'', ls_relocs = [], ls_binding = STB_GLOBAL,
     ls_section_index = TEXT_INDEX, ls_section_offset = 0, ls_size = 5\<rparr>"

definition callee_symbol :: link_symbol where
  "callee_symbol = \<lparr>ls_defined = True, ls_name = ''f'',
     ls_relocs = [\<lparr>reloc_type = R_X86_64_PC32, reloc_section_index = TEXT_INDEX, reloc_section_offset = 1, reloc_addend = -4\<rparr>],
     ls_binding = STB_LOCAL, ls_section_index = TEXT_INDEX, ls_section_offset = 5, ls_size = 1\<rparr>"

definition call_program :: link_state where
  "call_program = \<lparr>linked = (init_asm_module [])\<lparr>text_bytes := [0xE8, 0, 0, 0, 0, 0xC3]\<rparr>,
     symbol_table = [start_symbol, callee_symbol]\<rparr>"

lemma call_program_ok: "link_ok call_program"
  by (simp add: link_ok_def call_program_def symbol_ok_def start_symbol_def callee_symbol_def reloc_ok_def contents_def
      exec_size_def init_asm_module_def)

theorem executable_loads_witness:
  "\<exists>exe. write_executable call_program = Inr exe \<and> loads_as exe call_program start_symbol \<and>
    header_entry_point (decode_elf_header exe) = 0x8000328 \<and> take 4 (drop 1 (snd (load exe ! 0))) = [0, 0, 0, 0]"
proof -
  have table: "symbol_table call_program = [start_symbol, callee_symbol]" by (simp add: call_program_def)
  have ty: "address (linked call_program) TEXT_INDEX = 0x8000328" by code_simp
  have h: "location (linked call_program) start_symbol = 0x8000328"
    by (simp add: location_def ty start_symbol_def)
  have v: "final_value (linked call_program) (location (linked call_program) callee_symbol) (hd (ls_relocs callee_symbol)) = 0"
    by (simp add: final_value_def location_def callee_symbol_def ty)
  have r: "hd (ls_relocs callee_symbol) \<in> set (ls_relocs callee_symbol)" "callee_symbol \<in> set (symbol_table call_program)"
    "reloc_section_index (hd (ls_relocs callee_symbol)) = TEXT_INDEX" "reloc_section_offset (hd (ls_relocs callee_symbol)) = 1"
    by (simp_all add: table callee_symbol_def)
  have "\<forall>s\<in>set (symbol_table call_program). \<not> unresolved s" "\<exists>s\<in>set (symbol_table call_program). local_symbol s"
    "filter starts (symbol_table call_program) = [start_symbol]" "location (linked call_program) start_symbol \<noteq> -1"
    "sorted_wrt apart (concat (map ls_relocs (filter ls_defined (symbol_table call_program))))"
    unfolding table h
    by (simp_all add: unresolved_def local_symbol_def starts_def start_symbol_def callee_symbol_def)
  from executable_loads [OF call_program_ok this] obtain exe where x:
    "write_executable call_program = Inr exe" "loads_as exe call_program start_symbol" by blast
  then have "take 4 (drop (unat (reloc_section_offset (hd (ls_relocs callee_symbol)))) (snd (load exe ! 0))) =
      le 4 (ucast (final_value (linked call_program) (location (linked call_program) callee_symbol) (hd (ls_relocs callee_symbol))))"
    using r(1-3) unfolding loads_as_def section_holds_def by blast
  moreover have "le 4 (ucast (0 :: u32)) = [0, 0, 0, 0]" by code_simp
  moreover have "header_entry_point (decode_elf_header exe) = 0x8000328" using x(2) h by (simp add: loads_as_def)
  ultimately show ?thesis using x unfolding r(4) v by auto
qed

text \<open>
  A symbol that is referred to and defined nowhere is an error of the linker, and an executable with
  no local symbol stops at the assertion of \<^verbatim>\<open>finish_strtab_section\<close>.
\<close>

lemma executable_unresolved:
  assumes "link_ok st" "\<exists>s\<in>set (symbol_table st). unresolved s"
  shows "write_executable st = linker_error"
proof -
  obtain e where e: "write_contents [] (elf_file_for ET_EXEC (linked st)) [] = Inr e" "at_end e"
    "holds e (linked st) (text_bytes (linked st)) (data_bytes (linked st)) (SHSTRTAB_CONTENTS @ replicate 24 0)"
    using write_contents_exec link_ok_sizes(1,2) [OF assms(1)] by blast
  have "write_symbols (symbol_table st) e = linker_error"
    using write_symbols_unresolved [OF e(3,2) _ assms(2) _ link_ok_sizes(3) [OF assms(1)]] assms(1) by (auto simp: link_ok_def)
  then show ?thesis using e(1) by (simp add: write_executable_def)
qed

text \<open>Where the segments are: the data comes 16 MiB after the uninitialised data, whatever the size of that is.\<close>

lemma exec_addresses:
  assumes "length (text_bytes m) < 0xFFFC00"
  shows "unat (address m TEXT_INDEX) = 0x8000328" "unat (address m BSS_INDEX) = 0x9000328 + length (text_bytes m)"
    "unat (address m DATA_INDEX) = 0xA000328 + length (text_bytes m)"
proof -
  let ?n = "length (text_bytes m)"
  have d: "unat (data_at ET_EXEC m [] :: u32) = 808 + ?n"
    using length_word [of "808 + ?n"] assms by (simp add: section_at_defs first_object_offset)
  show "unat (address m TEXT_INDEX) = 0x8000328"
    by (simp add: address_def placed_sections_def index_defs text_address_def first_object_offset)
  have "align_to (text_address ET_EXEC) 0x1000000 = 0x9000000"
    by (simp add: text_address_def first_object_offset align_to_def Let_def)
  then have b: "unat (bss_address ET_EXEC m []) = 0x9000328 + ?n"
    using d assms by (simp add: bss_address_def unat_add_small)
  then show "unat (address m BSS_INDEX) = 0x9000328 + ?n" by (simp add: address_def placed_sections_def index_defs)
  have "unat (align_to (bss_address ET_EXEC m []) (2 ^ 24)) = 0xA000000"
  proof -
    have "(0x9000328 + ?n + (2 ^ 24 - 1)) div 2 ^ 24 = (10 :: nat)"
      using assms by (intro div_nat_eqI) simp_all
    then show ?thesis using b assms by (subst align_to_unat) simp_all
  qed
  then have "unat (data_address ET_EXEC m []) = 0xA000328 + ?n"
    using d assms by (simp add: data_address_def unat_add_small)
  then show "unat (address m DATA_INDEX) = 0xA000328 + ?n" by (simp add: address_def placed_sections_def index_defs)
qed



end
