(* ===== verification/Naive_Ar.thy ===== *)
theory Naive_Ar
  imports Naive_Linker_Properties
begin

text \<open>
  The archiver (\<^verbatim>\<open>src/src/bin/nar.c\<close>), and that linking an archive of object files links its
  members in order.
\<close>

section \<open>The archiver\<close>

definition put :: "string \<Rightarrow> nat \<Rightarrow> string \<Rightarrow> string" where
  "put hdr off s = take off hdr @ s @ drop (off + length s) hdr"

text \<open>
  \<^verbatim>\<open>snprintf\<close> into a field of \<open>sz\<close> characters, with one more for the zero, and the zero replaced by
  a space where the whole text would have ended. The member is in a structure of 60 characters;
  past its end is outside of the object.
\<close>

definition print_field :: "string \<Rightarrow> nat \<Rightarrow> nat \<Rightarrow> string \<Rightarrow> string run" where
  "print_field hdr off sz s =
     (if off + length s \<ge> 60 then undefined_behaviour
      else Inr ((put hdr off (take sz s @ [CHR 0x00]))[off + length s := CHR '' '']))"

definition blank_header :: string where
  "blank_header = replicate 60 (CHR '' '')"

definition ar_member_header :: "string \<Rightarrow> nat \<Rightarrow> string run" where
  "ar_member_header name_text file_size =
     rbind (print_field blank_header 0 16 name_text) (\<lambda>h.
       let h = h[16 := CHR ''0'', 28 := CHR ''0'', 34 := CHR ''0'', 40 := CHR ''6'', 41 := CHR ''4'', 42 := CHR ''4'']
       in rbind (print_field h 48 10 (digits 10 file_size)) (\<lambda>h. Inr (h[58 := CHR 0x60, 59 := CHR 0x0A])))"

text \<open>The loop that copies the input by blocks of 8192 bytes.\<close>

function copy_blocks :: "u8 list \<Rightarrow> c_file \<Rightarrow> c_file" where
  "copy_blocks bs f = (if bs = [] then f else copy_blocks (drop 8192 bs) (checked_fwrite f (take 8192 bs)))"
  by pat_completeness auto
termination by (relation "measure (\<lambda>(bs, f). length bs)") auto

declare copy_blocks.simps [simp del]

definition align_even :: "c_file \<Rightarrow> c_file" where
  "align_even f = (if checked_ftell f mod 2 = 1 then checked_fseek f (checked_ftell f + 1) else f)"

definition member_text :: "string \<Rightarrow> string \<Rightarrow> string \<times> string" where
  "member_text too_long input_filename =
     (if length input_filename > 16
      then (''/'' @ fmt_u (of_nat (length too_long) :: u32), too_long @ input_filename @ [CHR 0x0A])
      else (input_filename @ ''/'', too_long))"

definition add_member :: "string \<Rightarrow> u8 list \<Rightarrow> c_file \<times> string \<Rightarrow> (c_file \<times> string) run" where
  "add_member input_filename bs = (\<lambda>(f, too_long).
     let f = align_even f;
         (name_text, too_long) = member_text too_long input_filename
     in rbind (ar_member_header name_text (length bs)) (\<lambda>h.
          Inr (copy_blocks bs (checked_fwrite f (string_bytes h)), too_long)))"

fun add_members :: "(string \<Rightarrow> u8 list option) \<Rightarrow> string list \<Rightarrow> c_file \<times> string \<Rightarrow> (c_file \<times> string) run" where
  "add_members files [] s = Inr s"
| "add_members files (name # names) s =
     (case files name of
        None \<Rightarrow> io_error
      | Some bs \<Rightarrow> rbind (add_member name bs s) (\<lambda>s. add_members files names s))"

definition names_header :: "nat \<Rightarrow> string run" where
  "names_header n =
     rbind (print_field (blank_header[0 := CHR ''/'', 1 := CHR ''/'']) 48 10 (fmt_u (of_nat n :: u32)))
       (\<lambda>h. Inr (h[58 := CHR 0x60, 59 := CHR 0x0A]))"

text \<open>The program: its arguments, and the bytes of the archive it leaves.\<close>

definition nar :: "bool \<Rightarrow> (string \<Rightarrow> u8 list option) \<Rightarrow> string list \<Rightarrow> u8 list run" where
  "nar opened files argv =
     (case argv of
        _ # mode # _ # inputs \<Rightarrow>
          if mode \<noteq> ''-cr'' then exit_unimplemented
          else if \<not> opened then io_error
          else
            rbind (add_members files inputs (checked_fwrite (open_file []) (string_bytes AR_GLOBAL_HEADER), [])) (\<lambda>(f, too_long).
              if too_long = [] then Inr (fbytes f)
              else rbind (names_header (length too_long)) (\<lambda>h.
                Inr (fbytes (checked_fwrite (checked_fwrite (align_even f) (string_bytes h)) (string_bytes too_long)))))
      | _ \<Rightarrow> Inl (Exit EXIT_CODE_BAD_CLI))"

section \<open>Headers read back\<close>

lemma copy_blocks_writes: "copy_blocks bs f = checked_fwrite f bs"
proof (induction bs f rule: copy_blocks.induct)
  case (1 bs f)
  then show ?case by (subst copy_blocks.simps) (simp add: fwrite_fwrite, simp add: checked_fwrite_def)
qed

definition padded :: "nat \<Rightarrow> string \<Rightarrow> string" where
  "padded n s = take n s @ replicate (n - length s) (CHR '' '')"

lemma length_padded [simp]: "length (padded n s) = n"
  by (simp add: padded_def)

lemma put_before: "off + length s \<le> length a \<Longrightarrow> put (a @ b) off s = put a off s @ b"
  by (simp add: put_def)

text \<open>A text that is shorter than its field, as long, or one longer.\<close>

lemma print_field_cases:
  assumes "length a = off" "off + sz + 1 < 60"
  shows "length s < sz \<Longrightarrow> print_field (a @ replicate sz (CHR '' '') @ b) off sz s = Inr (a @ padded sz s @ b)"
    and "length s = sz \<Longrightarrow> print_field (a @ replicate sz (CHR '' '') @ c # b) off sz s = Inr (a @ padded sz s @ CHR '' '' # b)"
    and "length s = sz + 1 \<Longrightarrow> print_field (a @ replicate sz (CHR '' '') @ c # d # b) off sz s =
      Inr (a @ padded sz s @ CHR 0x00 # CHR '' '' # b)"
proof -
  show "print_field (a @ replicate sz (CHR '' '') @ b) off sz s = Inr (a @ padded sz s @ b)" if "length s < sz"
  proof -
    have r: "replicate sz (CHR '' '') = replicate (length s) (CHR '' '') @ CHR '' '' # replicate (sz - length s - 1) (CHR '' '')"
      using that by (simp flip: replicate_Suc replicate_add)
    have q: "CHR '' '' # replicate (sz - Suc (length s)) (CHR '' '') = replicate (sz - length s) (CHR '' '')"
      using that by (simp add: Suc_diff_Suc flip: replicate_Suc)
    show ?thesis using assms that unfolding print_field_def put_def padded_def
      by (subst (1 2) r) (simp add: list_update_append q)
  qed
  show "print_field (a @ replicate sz (CHR '' '') @ c # b) off sz s = Inr (a @ padded sz s @ CHR '' '' # b)" if "length s = sz"
    using assms that by (simp add: print_field_def put_def padded_def list_update_append)
  show "print_field (a @ replicate sz (CHR '' '') @ c # d # b) off sz s = Inr (a @ padded sz s @ CHR 0x00 # CHR '' '' # b)"
    if "length s = sz + 1"
    using assms that by (simp add: print_field_def put_def padded_def list_update_append min_def)
qed

lemma blank_parts: "blank_header = [] @ replicate 16 (CHR '' '') @ CHR '' '' # CHR '' '' # replicate 42 (CHR '' '')"
  by (simp add: blank_header_def flip: replicate_Suc replicate_add)

lemma print_name:
  assumes "length nt \<le> 17"
  shows "\<exists>c. print_field blank_header 0 16 nt = Inr (padded 16 nt @ c # replicate 43 (CHR '' ''))"
proof -
  have r: "CHR '' '' # replicate 42 (CHR '' '') = replicate 43 (CHR '' '')" by (simp flip: replicate_Suc)
  consider "length nt < 16" | "length nt = 16" | "length nt = 16 + 1" using assms by linarith
  then show ?thesis
  proof cases
    case 1
    then show ?thesis using print_field_cases(1) [of "[]" 0 16 nt "CHR '' '' # replicate 43 (CHR '' '')"]
      unfolding blank_parts r by auto
  next
    case 2
    then show ?thesis using print_field_cases(2) [of "[]" 0 16 nt "CHR '' ''" "replicate 43 (CHR '' '')"]
      unfolding blank_parts r by auto
  next
    case 3
    then show ?thesis using print_field_cases(3) [of "[]" 0 16 nt "CHR '' ''" "CHR '' ''" "replicate 42 (CHR '' '')"]
      unfolding blank_parts r by auto
  qed
qed

lemma pads: "padded 12 ''0'' = ''0           ''" "padded 6 ''0'' = ''0     ''" "padded 8 ''644'' = ''644     ''"
  by (simp_all add: padded_def eval_nat_numeral)

definition member_header :: "string \<Rightarrow> string \<Rightarrow> string" where
  "member_header nt sz = padded 16 nt @ padded 12 ''0'' @ padded 6 ''0'' @ padded 6 ''0'' @ padded 8 ''644'' @ padded 10 sz @
     [CHR 0x60, CHR 0x0A]"

lemma ar_member_header_shape:
  assumes "length nt \<le> 17" "length (digits 10 n) \<le> 10"
  shows "ar_member_header nt n = Inr (member_header nt (digits 10 n))"
proof -
  obtain c where c: "print_field blank_header 0 16 nt = Inr (padded 16 nt @ c # replicate 43 (CHR '' ''))"
    using print_name [OF assms(1)] by blast
  let ?front = "padded 16 nt @ padded 12 ''0'' @ padded 6 ''0'' @ padded 6 ''0'' @ padded 8 ''644''"
  have f: "(padded 16 nt @ c # replicate 43 (CHR '' ''))[16 := CHR ''0'', 28 := CHR ''0'', 34 := CHR ''0'', 40 := CHR ''6'',
      41 := CHR ''4'', 42 := CHR ''4''] = ?front @ replicate 10 (CHR '' '') @ CHR '' '' # [CHR '' '']"
    unfolding pads by (simp add: list_update_append eval_nat_numeral)
  have "\<exists>d e. print_field (?front @ replicate 10 (CHR '' '') @ CHR '' '' # [CHR '' '']) 48 10 (digits 10 n) =
      Inr (?front @ padded 10 (digits 10 n) @ [d, e])"
  proof (cases "length (digits 10 n) < 10")
    case True
    then show ?thesis using print_field_cases(1) [of ?front 48 10 "digits 10 n"] by auto
  next
    case False
    then have "length (digits 10 n) = 10" using assms(2) by simp
    then show ?thesis using print_field_cases(2) [of ?front 48 10 "digits 10 n"] by auto
  qed
  then show ?thesis
    using c f by (auto simp: ar_member_header_def Let_def member_header_def list_update_append)
qed

lemma member_header_length [simp]: "length (member_header nt sz) = 60"
  by (simp add: member_header_def)

lemma decode_member_header:
  "ar_name (decode_ar_header (string_bytes (member_header nt sz))) = padded 16 nt"
  "size_bytes_decimal (decode_ar_header (string_bytes (member_header nt sz))) = padded 10 sz"
  "ar_magic (decode_ar_header (string_bytes (member_header nt sz))) = [CHR 0x60, CHR 0x0A]"
  by (simp_all add: decode_ar_header_def Let_def member_header_def string_bytes_def bytes_string_def comp_def)

lemma atol_loop_digits:
  assumes "\<forall>c\<in>set ds. decimal c" "rest = [] \<or> \<not> decimal (hd rest)"
  shows "atol_loop (int x) (ds @ rest) = int (foldl (\<lambda>acc c. acc * 10 + digit_val c) x ds)"
  using assms
proof (induction ds arbitrary: x)
  case Nil
  then show ?case by (cases rest) (auto simp: decimal_def)
next
  case (Cons c ds)
  have c: "48 \<le> (of_char c :: nat)" "(of_char c :: nat) \<le> 57" "digit_val c = of_char c - 48"
    using Cons.prems by (auto simp: decimal_def digit_val_def)
  moreover have i: "(of_char c :: int) = int (of_char c)" by (simp add: of_nat_of_char)
  ultimately have eq: "int x * 10 + of_char c - 48 = int (x * 10 + digit_val c)" by linarith
  have "atol_loop (int x) ((c # ds) @ rest) = atol_loop (int x * 10 + of_char c - 48) (ds @ rest)"
    using c by simp
  also have "\<dots> = int (foldl (\<lambda>acc c. acc * 10 + digit_val c) (x * 10 + digit_val c) ds)"
    unfolding eq using Cons.prems by (intro Cons.IH) auto
  finally show ?case by (simp only: foldl_Cons)
qed

lemma atol_size:
  assumes "length (digits 10 n) \<le> 10"
  shows "atol (padded 10 (digits 10 n)) = int n"
proof -
  have "padded 10 (digits 10 n) = digits 10 n @ replicate (10 - length (digits 10 n)) (CHR '' '')"
    using assms by (simp add: padded_def)
  moreover have blank: "replicate k (CHR '' '') = [] \<or> \<not> decimal (hd (replicate k (CHR '' '')))" for k
    by (cases k) (simp_all add: decimal_def)
  have "atol_loop (int 0) (digits 10 n @ replicate (10 - length (digits 10 n)) (CHR '' '')) =
      int (foldl (\<lambda>acc c. acc * 10 + digit_val c) 0 (digits 10 n))"
    using digits_decimal by (intro atol_loop_digits [OF _ blank]) blast
  ultimately show ?thesis using digits_value_digits [of 10 n] by (simp add: atol_def digits_value_def)
qed

lemma digits_length: "n < 10 ^ k \<Longrightarrow> 0 < k \<Longrightarrow> length (digits 10 n) \<le> k"
proof (induction k arbitrary: n)
  case (Suc k)
  show ?case
  proof (cases "n < 10")
    case True
    then show ?thesis by (subst digits.simps) simp
  next
    case False
    then have "k \<noteq> 0" using Suc.prems by (cases k) auto
    moreover have "n div 10 < 10 ^ k" using Suc.prems by (simp add: less_mult_imp_div_less)
    ultimately show ?thesis using Suc.IH [of "n div 10"] False by (subst digits.simps) simp
  qed
qed simp

section \<open>Names\<close>

definition special_name :: "string \<Rightarrow> bool" where
  "special_name nt = (member_name (padded 16 nt) = ''/'' \<or> member_name (padded 16 nt) = ''//'')"

definition plain_name :: "string \<Rightarrow> bool" where
  "plain_name s = (s \<noteq> [] \<and> s \<noteq> ''/'' \<and> CHR '' '' \<notin> set s \<and> CHR 0x00 \<notin> set s)"

lemma dropWhile_blank: "dropWhile (\<lambda>c. c = CHR '' '') (replicate n (CHR '' '') @ s) = dropWhile (\<lambda>c. c = CHR '' '') s"
  by (induction n) simp_all

lemma member_name_plain:
  assumes "nt \<noteq> []" "CHR '' '' \<notin> set nt" "CHR 0x00 \<notin> set nt"
  shows "member_name (padded 16 nt) = take 16 nt"
proof -
  let ?t = "take 16 nt"
  have ne: "?t \<noteq> []" and nb: "CHR '' '' \<notin> set ?t" and nz: "CHR 0x00 \<notin> set ?t"
    using assms set_take_subset [of 16 nt] by auto
  have "hd (rev ?t) \<noteq> CHR '' ''" using ne nb by (metis hd_in_set rev_is_Nil_conv set_rev)
  then have "dropWhile (\<lambda>c. c = CHR '' '') (rev ?t) = rev ?t" using ne by (cases "rev ?t") auto
  then have "rev (dropWhile (\<lambda>c. c = CHR '' '') (rev (padded 16 nt))) = ?t"
    by (simp add: padded_def dropWhile_blank)
  moreover have "takeWhile (\<lambda>c. c \<noteq> CHR 0x00) ?t = ?t" using nz by (simp add: takeWhile_eq_all_conv) (metis)
  ultimately show ?thesis using ne by (simp add: member_name_def Let_def)
qed

lemma fmt_u_chars: "c \<in> set (fmt_u w) \<Longrightarrow> decimal c"
  using digits_decimal by (auto simp: fmt_u_def)

lemma member_text_plain:
  assumes "plain_name s" "member_text too_long s = (nt, lg)"
  shows "\<not> special_name nt" "length nt \<le> 17"
proof -
  let ?d = "fmt_u (of_nat (length too_long) :: u32)"
  have d: "\<forall>c\<in>set ?d. decimal c" "?d \<noteq> []" using fmt_u_chars by (auto simp: fmt_u_def)
  have "unat (of_nat (length too_long) :: u32) < 10 ^ 10"
    using unsigned_less [of "of_nat (length too_long) :: u32", where 'a = nat] by simp
  then have dl: "length ?d \<le> 10" using digits_length [of _ 10] by (simp add: fmt_u_def)
  have nt: "nt = (if length s > 16 then ''/'' @ ?d else s @ ''/'')" using assms(2) by (simp add: member_text_def split: if_splits)
  have ok: "nt \<noteq> []" "CHR '' '' \<notin> set nt" "CHR 0x00 \<notin> set nt"
    using assms(1) d(1) unfolding nt plain_name_def by (auto simp: decimal_def)
  show "length nt \<le> 17" using dl unfolding nt by simp
  have "take 16 nt \<noteq> ''/'' \<and> take 16 nt \<noteq> ''//''"
  proof (cases "length s > 16")
    case True
    then show ?thesis using d unfolding nt by (cases ?d) (auto simp: decimal_def)
  next
    case False
    then show ?thesis using assms(1) unfolding nt plain_name_def
      by (cases "length s = 16") (auto simp: append_eq_Cons_conv)
  qed
  then show "\<not> special_name nt" unfolding special_name_def member_name_plain [OF ok] by simp
qed

section \<open>The bytes of an archive\<close>

definition pad :: "nat \<Rightarrow> u8 list" where
  "pad p = replicate (p mod 2) 0"

definition member_bytes :: "nat \<Rightarrow> string \<Rightarrow> u8 list \<Rightarrow> u8 list" where
  "member_bytes p nt bs = pad p @ string_bytes (member_header nt (digits 10 (length bs))) @ bs"

fun members_bytes :: "nat \<Rightarrow> string \<Rightarrow> (string \<times> u8 list) list \<Rightarrow> u8 list" where
  "members_bytes p lg [] = []"
| "members_bytes p lg ((name, bs) # ms) =
     (let x = member_bytes p (fst (member_text lg name)) bs
      in x @ members_bytes (p + length x) (snd (member_text lg name)) ms)"

definition long_names :: "string \<Rightarrow> string list \<Rightarrow> string" where
  "long_names lg names = foldl (\<lambda>lg name. snd (member_text lg name)) lg names"

definition trailer_header :: "string \<Rightarrow> string" where
  "trailer_header sz = padded 16 ''//'' @ replicate 32 (CHR '' '') @ padded 10 sz @ [CHR 0x60, CHR 0x0A]"

definition trailer_bytes :: "nat \<Rightarrow> string \<Rightarrow> u8 list" where
  "trailer_bytes p lg =
     (if lg = [] then [] else pad p @ string_bytes (trailer_header (fmt_u (of_nat (length lg) :: u32))) @ string_bytes lg)"

definition archive_bytes :: "(string \<times> u8 list) list \<Rightarrow> u8 list" where
  "archive_bytes ms =
     (let g = string_bytes AR_GLOBAL_HEADER; x = members_bytes (length g) [] ms
      in g @ x @ trailer_bytes (length g + length x) (long_names [] (map fst ms)))"

definition appended :: "c_file \<Rightarrow> u8 list \<Rightarrow> c_file" where
  "appended f xs = \<lparr>fbytes = fbytes f @ xs, fposition = length (fbytes f) + length xs\<rparr>"

lemma appended_simps [simp]: "fbytes (appended f xs) = fbytes f @ xs"
  "fposition (appended f xs) = length (fbytes f) + length xs" "appended (appended f xs) ys = appended f (xs @ ys)"
  by (simp_all add: appended_def)

lemma fwrite_end: "fposition f = length (fbytes f) \<Longrightarrow> checked_fwrite f xs = appended f xs"
  by (cases f) (simp add: checked_fwrite_def appended_def overwrite_def)

lemma fwrite_aligned:
  assumes "fposition f = length (fbytes f)" "xs \<noteq> []"
  shows "checked_fwrite (align_even f) xs = appended f (pad (length (fbytes f)) @ xs)"
  using assms
  by (cases f; cases "length (fbytes f) mod 2 = 1")
     (auto simp: align_even_def checked_ftell_def checked_fseek_def checked_fwrite_def appended_def overwrite_def pad_def)

lemma string_bytes_empty [simp]: "string_bytes s = [] \<longleftrightarrow> s = []"
  by (simp add: string_bytes_def)

lemma add_member_bytes:
  assumes "fposition f = length (fbytes f)" "plain_name name" "length bs < 10 ^ 10"
  shows "add_member name bs (f, lg) =
    Inr (appended f (member_bytes (length (fbytes f)) (fst (member_text lg name)) bs), snd (member_text lg name))"
proof -
  obtain nt lg' where t: "member_text lg name = (nt, lg')" by fastforce
  have h: "ar_member_header nt (length bs) = Inr (member_header nt (digits 10 (length bs)))"
    using member_text_plain(2) [OF assms(2) t] digits_length [OF assms(3)] by (intro ar_member_header_shape) simp_all
  have "member_header nt (digits 10 (length bs)) \<noteq> []" by (metis member_header_length list.size(3) zero_neq_numeral)
  then show ?thesis
    using assms(1) h t by (simp add: add_member_def copy_blocks_writes fwrite_aligned fwrite_end member_bytes_def)
qed

lemma add_members_bytes:
  assumes "fposition f = length (fbytes f)"
    and "\<forall>(name, bs)\<in>set ms. plain_name name \<and> files name = Some bs \<and> length bs < 10 ^ 10"
  shows "add_members files (map fst ms) (f, lg) =
    Inr (appended f (members_bytes (length (fbytes f)) lg ms), long_names lg (map fst ms))"
  using assms
proof (induction ms arbitrary: f lg)
  case Nil
  then show ?case by (cases f) (simp add: appended_def long_names_def)
next
  case (Cons p ms)
  obtain name bs where p: "p = (name, bs)" by fastforce
  then show ?case
    using Cons.prems Cons.IH [of "appended f (member_bytes (length (fbytes f)) (fst (member_text lg name)) bs)"]
    by (simp add: add_member_bytes Let_def long_names_def)
qed

lemma names_header_shape: "names_header n = Inr (trailer_header (fmt_u (of_nat n :: u32)))"
proof -
  let ?d = "fmt_u (of_nat n :: u32)" and ?front = "padded 16 ''//'' @ replicate 32 (CHR '' '')"
  have "unat (of_nat n :: u32) < 10 ^ 10" using unsigned_less [of "of_nat n :: u32", where 'a = nat] by simp
  then have dl: "length ?d \<le> 10" using digits_length [of _ 10] by (simp add: fmt_u_def)
  have f: "blank_header[0 := CHR ''/'', 1 := CHR ''/''] = ?front @ replicate 10 (CHR '' '') @ CHR '' '' # [CHR '' '']"
    by (simp add: blank_header_def padded_def eval_nat_numeral)
  have "\<exists>d e. print_field (?front @ replicate 10 (CHR '' '') @ CHR '' '' # [CHR '' '']) 48 10 ?d =
      Inr (?front @ padded 10 ?d @ [d, e])"
  proof (cases "length ?d < 10")
    case True
    then show ?thesis using print_field_cases(1) [of ?front 48 10 ?d] by auto
  next
    case False
    then have "length ?d = 10" using dl by simp
    then show ?thesis using print_field_cases(2) [of ?front 48 10 ?d] by auto
  qed
  then show ?thesis using f by (auto simp: names_header_def trailer_header_def list_update_append)
qed

lemma nar_bytes:
  assumes "\<forall>(name, bs)\<in>set ms. plain_name name \<and> files name = Some bs \<and> length bs < 10 ^ 10"
  shows "nar True files (prog # ''-cr'' # out # map fst ms) = Inr (archive_bytes ms)"
proof -
  have g: "checked_fwrite (open_file []) (string_bytes AR_GLOBAL_HEADER) =
      \<lparr>fbytes = string_bytes AR_GLOBAL_HEADER, fposition = length AR_GLOBAL_HEADER\<rparr>" (is "_ = ?f")
    by (simp add: fwrite_end open_file_def appended_def)
  have "trailer_header s \<noteq> []" for s by (simp add: trailer_header_def)
  moreover have "add_members files (map fst ms) (?f, []) =
      Inr (appended ?f (members_bytes (length AR_GLOBAL_HEADER) [] ms), long_names [] (map fst ms))"
    using add_members_bytes [OF _ assms, of ?f "[]"] by simp
  ultimately show ?thesis
    by (simp add: nar_def g names_header_shape fwrite_aligned fwrite_end archive_bytes_def Let_def trailer_bytes_def)
qed

section \<open>Linking an archive\<close>

lemma decode_trailer_header:
  "ar_name (decode_ar_header (string_bytes (trailer_header sz))) = padded 16 ''//''"
  "size_bytes_decimal (decode_ar_header (string_bytes (trailer_header sz))) = padded 10 sz"
  "ar_magic (decode_ar_header (string_bytes (trailer_header sz))) = [CHR 0x60, CHR 0x0A]"
  by (simp_all add: decode_ar_header_def Let_def trailer_header_def string_bytes_def bytes_string_def comp_def)

lemma link_archive_end: "length (fbytes f) \<le> fposition f \<Longrightarrow> link_archive (Suc fuel) f st = Inr st"
  by (simp add: fread_item_def checked_ftell_def checked_fseek_def Let_def)

lemma link_archive_header:
  assumes "fbytes f = a @ pad (length a) @ string_bytes h @ b" "fposition f = length a" "length h = 60"
    and "ar_magic (decode_ar_header (string_bytes h)) = [CHR 0x60, CHR 0x0A]"
    and "atol (size_bytes_decimal (decode_ar_header (string_bytes h))) = int n"
  defines "p \<equiv> length (a @ pad (length a) @ string_bytes h)"
  shows "link_archive (Suc fuel) f st =
    (if member_name (ar_name (decode_ar_header (string_bytes h))) \<in> {''/'', ''//''}
     then link_archive fuel (checked_fseek f (p + n)) st
     else rbind (process_elf_file (checked_fseek f p) st) (\<lambda>(st, _). link_archive fuel (checked_fseek f (p + n)) st))"
proof -
  let ?q = "length (a @ pad (length a))"
  have q: "(if checked_ftell f mod 2 = 1 then checked_fseek f (checked_ftell f + 1) else f) = checked_fseek f ?q"
    using assms(2) by (cases f) (simp add: checked_ftell_def checked_fseek_def pad_def mod2_eq_if)
  have "fread_item (checked_fseek f ?q) 60 = Some (string_bytes h, checked_fseek f p)"
    using assms(1,3) by (simp add: fread_item_def checked_fseek_def p_def)
  then show ?thesis unfolding link_archive.simps Let_def q using assms(4,5) by (simp add: checked_ftell_def checked_fseek_def)
qed

type_synonym member = "string \<times> asm_module \<times> asm_symbol list \<times> u8 list"

fun member_file :: "member \<Rightarrow> string \<times> u8 list" where
  "member_file (name, m, sbs, obj) = (name, obj)"

fun link_modules :: "member list \<Rightarrow> link_state \<Rightarrow> link_state run" where
  "link_modules [] st = Inr st"
| "link_modules ((name, m, sbs, obj) # mods) st = rbind (link_module m sbs st) (\<lambda>st. link_modules mods st)"

fun member_ok :: "member \<Rightarrow> bool" where
  "member_ok (name, m, sbs, obj) = (plain_name name \<and> linkable m sbs \<and> write_elf_object_file True m = Inr obj)"

fun member_symbols :: "member \<Rightarrow> nat" where
  "member_symbols (name, m, sbs, obj) = length sbs"

lemma length_fold_attach [simp]: "length (fold (attach heap ks reloc) fs table) = length table"
  by (induction fs arbitrary: table) simp_all

lemma link_module_growth: "link_module m sbs st = Inr st' \<Longrightarrow> length (symbol_table st') \<le> length (symbol_table st) + length sbs"
  using link_asm_symbols_bounds by (fastforce simp: link_module_def Let_def)

lemma link_archive_member:
  assumes f: "fbytes f = a @ member_bytes (length a) (fst (member_text lg name)) obj @ b" "fposition f = length a"
    and ok: "member_ok (name, m, sbs, obj)"
    and l: "length (fbytes f) < 2 ^ 32" "length (symbol_table st) + length sbs < 2 ^ 32"
  shows "link_archive (Suc fuel) f st = rbind (link_module m sbs st) (link_archive fuel
    (checked_fseek f (length (a @ member_bytes (length a) (fst (member_text lg name)) obj))))"
proof -
  obtain nt lg' where t: "member_text lg name = (nt, lg')" by fastforce
  let ?h = "member_header nt (digits 10 (length obj))"
  let ?p = "length (a @ pad (length a) @ string_bytes ?h)"
  have fb: "fbytes f = a @ pad (length a) @ string_bytes ?h @ obj @ b" using f(1) t by (simp add: member_bytes_def)
  have "length (digits 10 (length obj)) \<le> 10" using l(1) f(1) by (intro digits_length) (simp_all add: member_bytes_def)
  then have "link_archive (Suc fuel) f st =
      rbind (process_elf_file (checked_fseek f ?p) st) (\<lambda>(st, _). link_archive fuel (checked_fseek f (?p + length obj)) st)"
    using link_archive_header [OF fb f(2), of "length obj" fuel st] member_text_plain(1) [OF _ t] ok
    by (simp add: decode_member_header atol_size special_name_def)
  also have "\<dots> = rbind (rbind (process_elf_file (checked_fseek f ?p) st) (\<lambda>(st, _). Inr st))
      (link_archive fuel (checked_fseek f (?p + length obj)))"
    by (cases "process_elf_file (checked_fseek f ?p) st") auto
  also have "rbind (process_elf_file (checked_fseek f ?p) st) (\<lambda>(st, _). Inr st) = link_module m sbs st"
    using ok l fb by (intro object_links_at [where a = "a @ pad (length a) @ string_bytes ?h" and b = b]) simp_all
  finally show ?thesis using t by (simp add: member_bytes_def add.assoc)
qed

lemma link_archive_trailer:
  assumes "fbytes f = a @ trailer_bytes (length a) lg" "fposition f = length a" "length (fbytes f) < 2 ^ 32"
  shows "link_archive (Suc (Suc fuel)) f st = Inr st"
proof (cases "lg = []")
  case True
  then show ?thesis using assms by (intro link_archive_end) (simp add: trailer_bytes_def)
next
  case False
  let ?n = "fmt_u (of_nat (length lg) :: u32)"
  have fb: "fbytes f = a @ pad (length a) @ string_bytes (trailer_header ?n) @ string_bytes lg"
    using assms(1) False by (simp add: trailer_bytes_def)
  have "length lg < 2 ^ 32" using assms(3) fb by simp
  then have n: "?n = digits 10 (length lg)" "length (digits 10 (length lg)) \<le> 10"
    using length_word [of "length lg"] by (simp_all add: fmt_u_def digits_length)
  have "member_name (padded 16 ''//'') = ''//''" using member_name_plain [of "''//''"] by simp
  moreover have "length (trailer_header ?n) = 60" by (simp add: trailer_header_def)
  moreover have "fposition (checked_fseek f (length (a @ pad (length a) @ string_bytes (trailer_header ?n)) + length lg)) \<ge> length (fbytes f)"
    using fb by simp
  ultimately show ?thesis
    using link_archive_header [OF fb assms(2), of "length lg" "Suc fuel" st] n
    by (simp add: decode_trailer_header atol_size link_archive_end del: link_archive.simps)
qed

lemma link_members:
  assumes "fbytes f = a @ members_bytes (length a) lg (map member_file mods) @ trailer_bytes
      (length a + length (members_bytes (length a) lg (map member_file mods))) (long_names lg (map fst (map member_file mods)))"
    and "fposition f = length a" "\<forall>x\<in>set mods. member_ok x" "length (fbytes f) < 2 ^ 32"
    and "length (symbol_table st) + sum_list (map member_symbols mods) < 2 ^ 32" "length mods + 2 \<le> fuel"
  shows "link_archive fuel f st = link_modules mods st"
  using assms
proof (induction mods arbitrary: a lg f st fuel)
  case Nil
  then obtain k where "fuel = Suc (Suc k)" by (metis add_2_eq_Suc' le_Suc_ex add_Suc list.size(3) add_0)
  then show ?case using Nil link_archive_trailer [of f a lg k st] by (simp add: long_names_def)
next
  case (Cons x mods)
  obtain name m sbs obj where x: "x = (name, m, sbs, obj)" by (cases x)
  obtain k where k: "fuel = Suc k" "length mods + 2 \<le> k" using Cons.prems(6) by (cases fuel) auto
  let ?a = "a @ member_bytes (length a) (fst (member_text lg name)) obj" and ?lg = "snd (member_text lg name)"
  let ?ms = "members_bytes (length ?a) ?lg (map member_file mods)"
  have fb: "fbytes f = ?a @ ?ms @ trailer_bytes (length ?a + length ?ms) (long_names ?lg (map fst (map member_file mods)))"
    using Cons.prems(1) x by (simp add: Let_def long_names_def add.assoc)
  have "link_archive fuel f st = rbind (link_module m sbs st) (link_archive k (checked_fseek f (length ?a)))"
    unfolding k(1) using fb Cons.prems x by (intro link_archive_member) simp_all
  also have "\<dots> = rbind (link_module m sbs st) (link_modules mods)"
  proof (cases "link_module m sbs st")
    case (Inr st')
    have "length (symbol_table st') + sum_list (map member_symbols mods) < 2 ^ 32"
      using link_module_growth [OF Inr] Cons.prems(5) x by simp
    then have "link_archive k (checked_fseek f (length ?a)) st' = link_modules mods st'"
      using Cons.prems k fb by (intro Cons.IH [where a = ?a and lg = ?lg]) simp_all
    then show ?thesis using Inr by simp
  qed simp
  finally show ?case using x by simp
qed

fun member_cost :: "string \<times> u8 list \<Rightarrow> nat" where
  "member_cost (name, bs) = 62 + length name + length bs"

lemma pad_length: "length (pad p) \<le> 1"
  by (simp add: pad_def)

lemma member_bytes_length: "length (member_bytes p nt bs) = length (pad p) + 60 + length bs"
  by (simp add: member_bytes_def)

lemma members_bytes_length:
  "length (members_bytes p lg ms) + length (long_names lg (map fst ms)) \<le> length lg + sum_list (map member_cost ms)"
proof (induction ms arbitrary: p lg)
  case (Cons x ms)
  obtain name bs where x: "x = (name, bs)" by (cases x)
  let ?x = "member_bytes p (fst (member_text lg name)) bs"
  have "length ?x \<le> 61 + length bs" using pad_length [of p] by (simp add: member_bytes_length)
  moreover have "length (snd (member_text lg name)) \<le> length lg + length name + 1" by (simp add: member_text_def)
  ultimately show ?case using Cons.IH [of "p + length ?x" "snd (member_text lg name)"] x
    by (simp add: Let_def long_names_def)
qed (simp add: long_names_def)

lemma members_bytes_count: "length ms \<le> length (members_bytes p lg ms)"
proof (induction ms arbitrary: p lg)
  case (Cons x ms)
  obtain name bs where x: "x = (name, bs)" by (cases x)
  let ?x = "member_bytes p (fst (member_text lg name)) bs"
  show ?case using Cons.IH [of "p + length ?x" "snd (member_text lg name)"] x by (simp add: Let_def member_bytes_length)
qed simp

lemma length_global [simp]: "length AR_GLOBAL_HEADER = 8"
  by (simp add: AR_GLOBAL_HEADER_def)

lemma archive_bytes_length: "length (archive_bytes ms) \<le> 69 + sum_list (map member_cost ms)"
proof -
  have "length (trailer_bytes p lg) \<le> 61 + length lg" for p lg
    using pad_length [of p] by (simp add: trailer_bytes_def trailer_header_def)
  from this [of "8 + length (members_bytes 8 [] ms)" "long_names [] (map fst ms)"] show ?thesis
    using members_bytes_length [of 8 "[]" ms] by (simp add: archive_bytes_def Let_def)
qed

lemma archive_type: "file_type (open_file (archive_bytes ms)) = AR_FILE_TYPE"
  by (simp add: file_type_def file_type_of_bytes_def open_file_def archive_bytes_def Let_def)
     (simp add: string_bytes_def bytes_string_def AR_GLOBAL_HEADER_def ELF_MAGIC_def eval_nat_numeral)

lemma link_archive_bytes:
  assumes "\<forall>x\<in>set mods. member_ok x" "69 + sum_list (map (member_cost \<circ> member_file) mods) < 2 ^ 32"
    and "length (symbol_table st) + sum_list (map member_symbols mods) < 2 ^ 32"
  shows "link_input (archive_bytes (map member_file mods)) st = link_modules mods st"
proof -
  let ?ar = "archive_bytes (map member_file mods)" and ?g = "string_bytes AR_GLOBAL_HEADER"
  let ?f = "checked_fseek (open_file ?ar) (length AR_GLOBAL_HEADER)"
  have "length ?ar < 2 ^ 32" using archive_bytes_length [of "map member_file mods"] assms(2) by (simp add: comp_def)
  moreover have "length mods + 2 \<le> Suc (length ?ar)"
    using members_bytes_count [of "map member_file mods" 8 "[]"] by (simp add: archive_bytes_def Let_def)
  ultimately have "link_archive (Suc (length ?ar)) ?f st = link_modules mods st"
    using assms by (intro link_members [where a = ?g and lg = "[]"]) (simp_all add: open_file_def archive_bytes_def Let_def)
  then show ?thesis by (simp add: link_input_def archive_type del: link_archive.simps)
qed

text \<open>
  C5. Archiving is transparent to the linker. For object files that \<^verbatim>\<open>write_elf_object_file\<close> wrote,
  with names that have no space or zero byte and are not the name of a table, \<^verbatim>\<open>nar -cr\<close> writes an
  archive, and linking that archive links the modules the members were written from, in the order of
  the arguments and with the same errors. Names longer than the field of a header go to the table at
  the end, which the linker skips; members of an odd size are padded.
\<close>

theorem archive_links:
  assumes "\<forall>(name, m, sbs, obj)\<in>set mods. plain_name name \<and> files name = Some obj \<and>
      linkable m sbs \<and> write_elf_object_file True m = Inr obj"
    and "69 + sum_list (map (member_cost \<circ> member_file) mods) < 2 ^ 32"
    and "length (symbol_table st) + sum_list (map member_symbols mods) < 2 ^ 32"
  shows "\<exists>ar. nar True files (prog # ''-cr'' # out # map fst mods) = Inr ar \<and> link_input ar st = link_modules mods st"
proof -
  have ok: "\<forall>x\<in>set mods. member_ok x" using assms(1) by auto
  have "member_cost (member_file x) < 2 ^ 32" if "x \<in> set mods" for x
    using member_le_sum_list [of "member_cost (member_file x)" "map (member_cost \<circ> member_file) mods"] assms(2) that by simp
  then have "\<forall>(name, bs)\<in>set (map member_file mods). plain_name name \<and> files name = Some bs \<and> length bs < 10 ^ 10"
    using assms(1) by fastforce
  moreover have "map fst mods = map fst (map member_file mods)" by auto
  ultimately have "nar True files (prog # ''-cr'' # out # map fst mods) = Inr (archive_bytes (map member_file mods))"
    by (simp only: nar_bytes)
  then show ?thesis using link_archive_bytes [OF ok assms(2,3)] by blast
qed

theorem archive_links_witness:
  "\<exists>obj ar. write_elf_object_file True call_module = Inr obj \<and>
     nar True (\<lambda>_. Some obj) [''nar'', ''-cr'', ''libc.a'', ''a.o'', ''a_name_that_is_too_long.o''] = Inr ar \<and>
     link_input ar link_init =
       rbind (link_module call_module [main_symbol, puts_symbol] link_init) (link_module call_module [main_symbol, puts_symbol])"
proof -
  obtain obj where o: "write_elf_object_file True call_module = Inr obj" "length obj = 847" using call_module_object by blast
  let ?mods = "[(''a.o'', call_module, [main_symbol, puts_symbol], obj),
    (''a_name_that_is_too_long.o'', call_module, [main_symbol, puts_symbol], obj)]"
  have "\<exists>ar. nar True (\<lambda>_. Some obj) (''nar'' # ''-cr'' # ''libc.a'' # map fst ?mods) = Inr ar \<and>
      link_input ar link_init = link_modules ?mods link_init"
    using o call_module_linkable by (intro archive_links) (simp_all add: plain_name_def link_init_def)
  moreover have "rbind x (link_modules []) = x" for x :: "link_state run" by (cases x) simp_all
  then have "link_modules ?mods link_init = rbind (link_module call_module [main_symbol, puts_symbol] link_init)
      (link_module call_module [main_symbol, puts_symbol])"
    by (cases "link_module call_module [main_symbol, puts_symbol] link_init") simp_all
  ultimately show ?thesis using o(1) by auto
qed

end
