(* ===== verification/Naive_Program.thy ===== *)
theory Naive_Program
  imports Naive_Exec Naive_Ar "HOL-Library.Multiset"
begin

text \<open>
  Whole programs: what linking a sequence of assembled modules keeps of the linker's module and
  symbol table, and that the executable of a list of object files is the executable of the modules
  they were written from.
\<close>

section \<open>Lists that are pairwise related\<close>

lemma sorted_wrt_perm:
  assumes "symp R" "mset xs = mset ys" "sorted_wrt R xs"
  shows "sorted_wrt R ys"
  using assms(2,3)
proof (induction ys arbitrary: xs)
  case (Cons y ys)
  then have "y \<in> set xs" by (metis list.set_intros(1) set_mset_mset)
  then obtain a b where xs: "xs = a @ y # b" by (meson split_list)
  then have ab: "mset (a @ b) = mset ys" using Cons.prems(1) by simp
  have "sorted_wrt R (a @ b)" "\<forall>z\<in>set (a @ b). R y z"
    using Cons.prems(2) assms(1) unfolding xs by (auto simp: sorted_wrt_append dest: sympD)
  then show ?case using Cons.IH [OF ab] mset_eq_setD [OF ab] by simp
qed simp

lemma apart_symp: "symp apart"
  by (auto simp: symp_def apart_def)

section \<open>Modules that can be linked\<close>

definition section_fixup :: "asm_symbol_section \<Rightarrow> u8 list \<Rightarrow> fixup \<Rightarrow> bool" where
  "section_fixup sec bs f = (fixup_section f = sec \<longrightarrow> unat (fixup_offset f) + 4 \<le> length bs)"

definition fixups_inside :: "asm_module \<Rightarrow> bool" where
  "fixups_inside m = (\<forall>f\<in>set (fixups m). section_fixup TEXT_SECTION (text_bytes m) f \<and> section_fixup DATA_SECTION (data_bytes m) f)"

definition fixup_apart :: "fixup \<Rightarrow> fixup \<Rightarrow> bool" where
  "fixup_apart f g = (fixup_section f \<noteq> fixup_section g \<or> unat (fixup_offset f) + 4 \<le> unat (fixup_offset g) \<or>
     unat (fixup_offset g) + 4 \<le> unat (fixup_offset f))"

definition module_ok :: "asm_module \<Rightarrow> asm_symbol list \<Rightarrow> bool" where
  "module_ok m sbs = (linkable m sbs \<and> fixups_inside m \<and> sorted_wrt fixup_apart (fixups m))"

definition relocs :: "link_symbol list \<Rightarrow> relocation list" where
  "relocs table = concat (map ls_relocs table)"

section \<open>Symbols\<close>

lemma contents_append: "contents (append_sections d t dt b) i = contents d i @ (if i = TEXT_INDEX then t else dt)"
  by (simp add: contents_def append_sections_def)

lemma symbol_ok_append: "symbol_ok d s \<Longrightarrow> symbol_ok (append_sections d t dt b) s"
  by (auto simp: symbol_ok_def reloc_ok_def contents_append)

lemma relocs_update:
  assumes "i < length table"
  shows "mset (relocs (table[i := s])) + mset (ls_relocs (table ! i)) = mset (relocs table) + mset (ls_relocs s)"
proof -
  have "mset (relocs table) = mset (relocs (take i table)) + mset (ls_relocs (table ! i)) + mset (relocs (drop (Suc i) table))"
    by (subst id_take_nth_drop [OF assms]) (simp add: relocs_def)
  then show ?thesis using assms by (simp add: upd_conv_take_nth_drop relocs_def)
qed

lemma update_ok:
  assumes "\<forall>s\<in>set table. symbol_ok d s" "symbol_ok d s"
  shows "\<forall>s\<in>set (table[i := s]). symbol_ok d s"
  using assms set_update_subset_insert [of table i s] by blast

lemma link_asm_symbol_ok:
  assumes "link_asm_symbol d sb table = Inr (table', k)" "\<forall>s\<in>set table. symbol_ok d s" "CHR 0x00 \<notin> set (symbol_name sb)"
  shows "(\<forall>s\<in>set table'. symbol_ok d s) \<and> mset (relocs table') = mset (relocs table)"
proof (cases "symbol_defined sb")
  case False
  then show ?thesis using assms
    by (auto simp: link_asm_symbol_def link_undefined_def symbol_ok_def relocs_def fresh_symbol_def split: option.splits)
next
  case True
  then obtain p where p: "module_place d (symbol_section sb) = Inr p" using assms(1) by (auto simp: link_asm_symbol_def)
  then have idx: "place_section p \<in> {TEXT_INDEX, BSS_INDEX, DATA_INDEX}"
    by (auto simp: module_place_def split: asm_symbol_section.splits)
  show ?thesis
  proof (cases "find_symbol table (symbol_binding sb) (symbol_name sb)")
    case None
    then show ?thesis using assms True p idx
      by (auto simp: link_asm_symbol_def module_symbol_def symbol_ok_def relocs_def fresh_symbol_def)
  next
    case (Some i)
    have i: "i < length table" by (rule find_symbol_bound [OF Some])
    then have t: "table' = table[i := module_symbol sb p (table ! i)]" using assms(1) True p Some
      by (auto simp: link_asm_symbol_def split: if_splits)
    have "symbol_ok d (table ! i)" using assms(2) i by simp
    then have "symbol_ok d (module_symbol sb p (table ! i))" using assms(3) idx by (simp add: symbol_ok_def module_symbol_def)
    then have "\<forall>s\<in>set table'. symbol_ok d s" unfolding t by (rule update_ok [OF assms(2)])
    moreover have "mset (relocs table') = mset (relocs table)"
      using relocs_update [OF i, of "module_symbol sb p (table ! i)"] unfolding t by (simp add: module_symbol_def)
    ultimately show ?thesis by simp
  qed
qed

lemma link_asm_symbols_ok:
  assumes "link_asm_symbols d sbs table = Inr (table', ks)" "\<forall>s\<in>set table. symbol_ok d s"
    and "\<forall>sb\<in>set sbs. CHR 0x00 \<notin> set (symbol_name sb)"
  shows "(\<forall>s\<in>set table'. symbol_ok d s) \<and> mset (relocs table') = mset (relocs table)"
  using assms
proof (induction sbs arbitrary: table ks)
  case (Cons sb sbs)
  obtain t1 k ks' where "link_asm_symbol d sb table = Inr (t1, k)" "link_asm_symbols d sbs t1 = Inr (table', ks')"
    using Cons.prems(1) by auto
  moreover from this(1) have "(\<forall>s\<in>set t1. symbol_ok d s) \<and> mset (relocs t1) = mset (relocs table)"
    by (rule link_asm_symbol_ok) (use Cons.prems in simp_all)
  ultimately show ?case using Cons.IH [of t1 ks'] Cons.prems(3) by simp
qed simp

section \<open>Relocations\<close>

lemma attach_ok:
  assumes "\<forall>s\<in>set table. symbol_ok d s" "reloc_ok d (reloc f)"
    and "ks ! (unat (symtab_index (heap ! fixup_symbol f)) - 1) < length table"
  shows "(\<forall>s\<in>set (attach heap ks reloc f table). symbol_ok d s) \<and>
    mset (relocs (attach heap ks reloc f table)) = mset (relocs table) + {#reloc f#}"
proof -
  let ?k = "ks ! (unat (symtab_index (heap ! fixup_symbol f)) - 1)"
  let ?s = "(table ! ?k)\<lparr>ls_relocs := ls_relocs (table ! ?k) @ [reloc f]\<rparr>"
  have "symbol_ok d (table ! ?k)" using assms(1,3) by simp
  then have "symbol_ok d ?s" using assms(2) by (simp add: symbol_ok_def)
  then have "\<forall>s\<in>set (table[?k := ?s]). symbol_ok d s" by (rule update_ok [OF assms(1)])
  moreover have "mset (relocs (table[?k := ?s])) = mset (relocs table) + {#reloc f#}"
    using relocs_update [OF assms(3), of ?s] by simp
  ultimately show ?thesis by (simp add: attach_def Let_def)
qed

lemma fold_attach_ok:
  assumes "\<forall>s\<in>set table. symbol_ok d s" "\<forall>f\<in>set fs. reloc_ok d (reloc f)"
    and "\<forall>f\<in>set fs. ks ! (unat (symtab_index (heap ! fixup_symbol f)) - 1) < length table"
  shows "(\<forall>s\<in>set (fold (attach heap ks reloc) fs table). symbol_ok d s) \<and>
    mset (relocs (fold (attach heap ks reloc) fs table)) = mset (relocs table) + mset (map reloc fs)"
  using assms
proof (induction fs arbitrary: table)
  case (Cons f fs)
  have "(\<forall>s\<in>set (attach heap ks reloc f table). symbol_ok d s) \<and>
      mset (relocs (attach heap ks reloc f table)) = mset (relocs table) + {#reloc f#}"
    by (rule attach_ok) (use Cons.prems in simp_all)
  then show ?case using Cons.IH [of "attach heap ks reloc f table"] Cons.prems by simp
qed simp

lemma text_relocation_fields [simp]:
  "reloc_section_index (text_relocation b f) = TEXT_INDEX" "reloc_section_offset (text_relocation b f) = b + fixup_offset f"
  "reloc_type (text_relocation b f) \<in> {R_X86_64_PC32, R_X86_64_64}"
  by (simp_all add: text_relocation_def split: fixup_type.split)

lemma data_relocation_fields [simp]:
  "reloc_section_index (data_relocation b f) = DATA_INDEX" "reloc_section_offset (data_relocation b f) = b + fixup_offset f"
  "reloc_type (data_relocation b f) = R_X86_64_64"
  by (simp_all add: data_relocation_def)

lemma fixup_place:
  assumes "unat (fixup_offset f) + 4 \<le> n" "l + n < 2 ^ 32"
  shows "unat (of_nat l + fixup_offset f :: u32) = l + unat (fixup_offset f)"
  using assms length_word [of l] by (subst unat_add_small) simp_all

text \<open>The relocations a module adds.\<close>

definition new_relocs :: "asm_module \<Rightarrow> asm_module \<Rightarrow> relocation list" where
  "new_relocs d m =
     map (text_relocation (of_nat (length (text_bytes d)))) (filter (left_in_text (symbol_heap m)) (fixups m)) @
     map (data_relocation (of_nat (length (data_bytes d)))) (filter (\<lambda>f. fixup_section f = DATA_SECTION) (fixups m))"

abbreviation joined :: "asm_module \<Rightarrow> asm_module \<Rightarrow> asm_module" where
  "joined d m \<equiv> append_sections d (text_bytes m) (data_bytes m) (bss_size m)"

lemma new_relocs_cases:
  assumes "r \<in> set (new_relocs d m)"
  obtains f where "f \<in> set (fixups m)" "fixup_section f = TEXT_SECTION" "r = text_relocation (of_nat (length (text_bytes d))) f"
  | f where "f \<in> set (fixups m)" "fixup_section f = DATA_SECTION" "r = data_relocation (of_nat (length (data_bytes d))) f"
  using assms by (auto simp: new_relocs_def left_in_text_def)

lemma new_reloc_place:
  assumes "fixups_inside m" "length (text_bytes (joined d m)) < 2 ^ 32" "length (data_bytes (joined d m)) < 2 ^ 32"
    and "r \<in> set (new_relocs d m)"
  shows "reloc_ok (joined d m) r" "length (contents d (reloc_section_index r)) \<le> unat (reloc_section_offset r)"
  using assms(4)
proof (atomize(full), cases rule: new_relocs_cases)
  case (1 f)
  then have "unat (fixup_offset f) + 4 \<le> length (text_bytes m)" using assms(1) by (auto simp: fixups_inside_def section_fixup_def)
  then show "reloc_ok (joined d m) r \<and> length (contents d (reloc_section_index r)) \<le> unat (reloc_section_offset r)"
    using fixup_place [of f "length (text_bytes m)" "length (text_bytes d)"] assms(2) 1 text_relocation_fields(3) [of _ f]
    by (auto simp: reloc_ok_def contents_append contents_def append_sections_def)
next
  case (2 f)
  then have "unat (fixup_offset f) + 4 \<le> length (data_bytes m)" using assms(1) by (auto simp: fixups_inside_def section_fixup_def)
  then show "reloc_ok (joined d m) r \<and> length (contents d (reloc_section_index r)) \<le> unat (reloc_section_offset r)"
    using fixup_place [of f "length (data_bytes m)" "length (data_bytes d)"] assms(3) 2
    by (auto simp: reloc_ok_def contents_append contents_def append_sections_def)
qed

lemma new_relocs_apart:
  assumes "fixups_inside m" "sorted_wrt fixup_apart (fixups m)"
    and "length (text_bytes (joined d m)) < 2 ^ 32" "length (data_bytes (joined d m)) < 2 ^ 32"
  shows "sorted_wrt apart (new_relocs d m)"
proof -
  have place: "unat (of_nat (length (text_bytes d)) + fixup_offset f :: u32) = length (text_bytes d) + unat (fixup_offset f)"
    if "f \<in> set (fixups m)" "fixup_section f = TEXT_SECTION" for f
    using fixup_place [of f "length (text_bytes m)" "length (text_bytes d)"] assms(1,3) that
    by (auto simp: fixups_inside_def section_fixup_def append_sections_def)
  have place': "unat (of_nat (length (data_bytes d)) + fixup_offset f :: u32) = length (data_bytes d) + unat (fixup_offset f)"
    if "f \<in> set (fixups m)" "fixup_section f = DATA_SECTION" for f
    using fixup_place [of f "length (data_bytes m)" "length (data_bytes d)"] assms(1,4) that
    by (auto simp: fixups_inside_def section_fixup_def append_sections_def)
  have f: "sorted_wrt fixup_apart (filter P (fixups m))" for P using assms(2) by (rule sorted_wrt_filter)
  have "sorted_wrt apart (map (text_relocation (of_nat (length (text_bytes d)))) (filter (left_in_text (symbol_heap m)) (fixups m)))"
    unfolding sorted_wrt_map using f
    by (rule sorted_wrt_mono_rel [rotated]) (auto simp: apart_def fixup_apart_def left_in_text_def place)
  moreover have "sorted_wrt apart (map (data_relocation (of_nat (length (data_bytes d)))) (filter (\<lambda>f. fixup_section f = DATA_SECTION) (fixups m)))"
    unfolding sorted_wrt_map using f
    by (rule sorted_wrt_mono_rel [rotated]) (auto simp: apart_def fixup_apart_def place')
  ultimately show ?thesis by (auto simp: new_relocs_def sorted_wrt_append apart_def)
qed

section \<open>Linking keeps the table\<close>

definition program_ok :: "link_state \<Rightarrow> bool" where
  "program_ok st = ((\<forall>s\<in>set (symbol_table st). symbol_ok (linked st) s) \<and> sorted_wrt apart (relocs (symbol_table st)))"

lemma link_module_ok:
  assumes m: "module_ok m sbs" and st: "program_ok st" and l: "link_module m sbs st = Inr st'"
    and sz: "length (text_bytes (joined (linked st) m)) < 2 ^ 32" "length (data_bytes (joined (linked st) m)) < 2 ^ 32"
  shows "program_ok st' \<and> linked st' = joined (linked st) m"
proof -
  let ?d = "linked st" and ?d' = "joined (linked st) m" and ?heap = "symbol_heap m"
  note mo = m [unfolded module_ok_def linkable_def]
  let ?T = "text_relocation (of_nat (length (text_bytes ?d)))" and ?D = "data_relocation (of_nat (length (data_bytes ?d)))"
  let ?ft = "filter (left_in_text ?heap) (fixups m)" and ?fd = "filter (\<lambda>f. fixup_section f = DATA_SECTION) (fixups m)"
  obtain table ks where t: "link_asm_symbols ?d sbs (symbol_table st) = Inr (table, ks)"
    "st' = \<lparr>linked = ?d', symbol_table = fold (attach ?heap ks ?D) ?fd (fold (attach ?heap ks ?T) ?ft table)\<rparr>"
    using l by (auto simp: link_module_def Let_def)
  have names: "\<forall>sb\<in>set sbs. CHR 0x00 \<notin> set (symbol_name sb)" using mo by (simp add: object_names_def)
  have old: "(\<forall>s\<in>set table. symbol_ok ?d s) \<and> mset (relocs table) = mset (relocs (symbol_table st))"
    using st by (intro link_asm_symbols_ok [OF t(1) _ names]) (simp add: program_ok_def)
  then have ok1: "\<forall>s\<in>set table. symbol_ok ?d' s" by (simp add: symbol_ok_append)
  have new: "\<forall>f\<in>set ?ft. reloc_ok ?d' (?T f)" "\<forall>f\<in>set ?fd. reloc_ok ?d' (?D f)"
    using new_reloc_place(1) [OF _ sz] mo by (auto simp: new_relocs_def)
  have "length ks = length sbs" "\<forall>k\<in>set ks. k < length table" using link_asm_symbols_bounds [OF t(1)] by simp_all
  then have ix: "\<forall>f\<in>set (fixups m). ks ! (unat (symtab_index (?heap ! fixup_symbol f)) - 1) < length table"
    using mo symbols_of_length by (fastforce simp: fixups_indexed_def)
  have ft: "(\<forall>s\<in>set (fold (attach ?heap ks ?T) ?ft table). symbol_ok ?d' s) \<and>
      mset (relocs (fold (attach ?heap ks ?T) ?ft table)) = mset (relocs table) + mset (map ?T ?ft)"
    using ix by (intro fold_attach_ok ok1 new) simp
  have fd: "(\<forall>s\<in>set (symbol_table st'). symbol_ok ?d' s) \<and>
      mset (relocs (symbol_table st')) = mset (relocs (fold (attach ?heap ks ?T) ?ft table)) + mset (map ?D ?fd)"
    unfolding t(2) link_state.simps using ix ft by (intro fold_attach_ok new) simp_all
  have "mset (relocs (symbol_table st) @ new_relocs ?d m) = mset (relocs (symbol_table st'))"
    using old ft fd by (simp add: new_relocs_def)
  moreover have "sorted_wrt apart (relocs (symbol_table st) @ new_relocs ?d m)"
  proof -
    have "apart r q" if "r \<in> set (relocs (symbol_table st))" "q \<in> set (new_relocs ?d m)" for r q
    proof -
      have "reloc_ok ?d r" using st that(1) by (auto simp: program_ok_def relocs_def symbol_ok_def)
      then show ?thesis using new_reloc_place(2) [OF _ sz that(2)] mo by (auto simp: apart_def reloc_ok_def)
    qed
    then show ?thesis using st new_relocs_apart [OF _ _ sz] mo by (auto simp: program_ok_def sorted_wrt_append)
  qed
  ultimately have "sorted_wrt apart (relocs (symbol_table st'))" by (rule sorted_wrt_perm [OF apart_symp])
  then show ?thesis using fd t(2) by (simp add: program_ok_def)
qed

lemma link_modules_grow:
  assumes "link_modules mods st = Inr st'"
  shows "length (text_bytes (linked st)) \<le> length (text_bytes (linked st')) \<and>
    length (data_bytes (linked st)) \<le> length (data_bytes (linked st'))"
  using assms
proof (induction mods arbitrary: st)
  case (Cons x mods)
  obtain name m sbs obj where x: "x = (name, m, sbs, obj)" by (cases x)
  then obtain st1 where st1: "link_module m sbs st = Inr st1" "link_modules mods st1 = Inr st'" using Cons.prems by auto
  then have "linked st1 = joined (linked st) m" by (auto simp: link_module_def Let_def)
  then show ?case using Cons.IH [OF st1(2)] by (simp add: append_sections_def)
qed simp

fun member_module_ok :: "member \<Rightarrow> bool" where
  "member_module_ok (name, m, sbs, obj) = module_ok m sbs"

lemma link_modules_ok:
  assumes "\<forall>x\<in>set mods. member_module_ok x" "program_ok st" "link_modules mods st = Inr st'"
    and "length (text_bytes (linked st')) < 2 ^ 32" "length (data_bytes (linked st')) < 2 ^ 32"
  shows "program_ok st'"
  using assms
proof (induction mods arbitrary: st)
  case (Cons x mods)
  obtain name m sbs obj where x: "x = (name, m, sbs, obj)" by (cases x)
  then obtain st1 where st1: "link_module m sbs st = Inr st1" "link_modules mods st1 = Inr st'" using Cons.prems by auto
  then have "linked st1 = joined (linked st) m" by (auto simp: link_module_def Let_def)
  then have "program_ok st1"
    using link_module_ok [OF _ Cons.prems(2) st1(1)] Cons.prems(1,4,5) x link_modules_grow [OF st1(2)] by auto
  then show ?case using Cons.IH [OF _ _ st1(2)] Cons.prems by simp
qed simp

lemma sorted_concat_filter:
  "sorted_wrt R (concat (map g xs)) \<Longrightarrow> sorted_wrt R (concat (map g (filter P xs)))"
  by (induction xs) (auto simp: sorted_wrt_append)

lemma linked_program:
  assumes "\<forall>x\<in>set mods. member_module_ok x" "link_modules mods link_init = Inr st"
    and "exec_size (linked st) (symbol_table st) < 2 ^ 32"
  shows "link_ok st" "sorted_wrt apart (concat (map ls_relocs (filter ls_defined (symbol_table st))))"
proof -
  have "program_ok link_init" by (simp add: program_ok_def link_init_def relocs_def)
  then have "program_ok st" using link_modules_ok [OF assms(1) _ assms(2)] assms(3) by (simp add: exec_size_def)
  then show "link_ok st" "sorted_wrt apart (concat (map ls_relocs (filter ls_defined (symbol_table st))))"
    using assms(3) by (auto simp: program_ok_def link_ok_def relocs_def intro: sorted_concat_filter)
qed

section \<open>Programs from object files\<close>

lemma object_type:
  assumes "write_elf_object_file True m = Inr obj" "linkable m sbs"
  shows "file_type (open_file obj) = ELF_FILE_TYPE"
proof -
  note l = assms(2) [unfolded linkable_def]
  obtain rt rd es where "obj = object_bytes m rt rd es (object_names m sbs)" using write_object_bytes [OF assms(1)] l by blast
  then obtain rest where obj: "obj = string_bytes ELF_MAGIC @ [2, 1, 1, 0] @ rest"
    by (auto simp: object_bytes_def Let_def encode_elf_header_def file_header_def eval_nat_numeral)
  have "length (string_bytes ELF_MAGIC) = 4" by (simp add: ELF_MAGIC_def)
  then show ?thesis unfolding obj file_type_def open_file_def file_type_of_bytes_def by (simp add: object_magic)
qed

lemma link_input_object:
  assumes "write_elf_object_file True m = Inr obj" "linkable m sbs" "length obj < 2 ^ 32"
    and "length (symbol_table st) + length sbs < 2 ^ 32"
  shows "link_input obj st = link_module m sbs st"
  using object_links_at [OF assms(1,2) _ assms(4), of "[]" "open_file obj" "[]"] assms(3) object_type [OF assms(1,2)]
  by (simp add: link_input_def open_file_def)

fun object_member :: "(string \<Rightarrow> u8 list option) \<Rightarrow> member \<Rightarrow> bool" where
  "object_member files (name, m, sbs, obj) = (files name = Some obj \<and> module_ok m sbs \<and>
     write_elf_object_file True m = Inr obj \<and> length obj < 2 ^ 32)"

lemma link_inputs_objects:
  assumes "\<forall>x\<in>set mods. object_member files x" "length (symbol_table st) + sum_list (map member_symbols mods) < 2 ^ 32"
  shows "link_inputs files (map fst mods) st = link_modules mods st"
  using assms
proof (induction mods arbitrary: st)
  case (Cons x mods)
  obtain name m sbs obj where x: "x = (name, m, sbs, obj)" by (cases x)
  then have "link_input obj st = link_module m sbs st"
    using Cons.prems by (intro link_input_object) (simp_all add: module_ok_def)
  then show ?case
    using Cons.prems x Cons.IH link_module_growth [of m sbs st] by (cases "link_module m sbs st") (fastforce simp: add_less_mono)+
qed simp

lemma collect_length: "collect g fs = Inr rs \<Longrightarrow> length rs \<le> length fs"
  by (induction fs arbitrary: rs) (fastforce split: option.splits)+

lemma object_length:
  assumes "write_elf_object_file True m = Inr obj" "linkable m sbs"
  shows "length obj \<le> 640 + length (text_bytes m) + length (data_bytes m) + 48 * length (fixups m) + 66 +
    24 * (length sbs + 2) + 1 + names_size (object_names m sbs)"
proof -
  note l = assms(2) [unfolded linkable_def]
  obtain rt rd es where o: "collect (text_rela (symbol_heap m)) (fixups m) = Inr rt"
    "collect (data_rela (symbol_heap m)) (fixups m) = Inr rd" "symtab_entries 1 sbs = Inr es"
    "obj = object_bytes m rt rd (es @ [file_entry sbs]) (object_names m sbs)"
    using write_object_bytes [OF assms(1)] l by blast
  show ?thesis using collect_length [OF o(1)] collect_length [OF o(2)] length_symtab_entries [OF o(3)] unfolding o(4)
    by (simp add: length_object_bytes object_size_def offs_defs)
qed

section \<open>An example\<close>

text \<open>A module whose \<^verbatim>\<open>_start\<close> calls a function of another module, and that module.\<close>

definition global_symbol :: "string \<Rightarrow> bool \<Rightarrow> u32 \<Rightarrow> asm_symbol" where
  "global_symbol name defined i = \<lparr>symbol_name = name, symbol_section = (if defined then TEXT_SECTION else UNKNOWN_SECTION),
     symbol_defined = defined, symbol_linkage = ASM_GLOBAL_LINKAGE, symtab_index = i, symbol_offset = 0, symbol_size = 0, preds = []\<rparr>"

definition start_symbols :: "asm_symbol list" where
  "start_symbols = [global_symbol ''_start'' True 1, global_symbol ''f'' False 2,
     (global_symbol ''l'' True 3)\<lparr>symbol_linkage := ASM_LOCAL_LINKAGE, symbol_offset := 5\<rparr>]"

definition start_module :: asm_module where
  "start_module = (init_asm_module ''a.c'')\<lparr>text_bytes := [0xE8, 0, 0, 0, 0, 0xC3], symbol_heap := start_symbols,
     symbols := [0, 1, 2], fixups := [\<lparr>fixup_kind = FIXUP_RELATIVE, fixup_section = TEXT_SECTION, fixup_offset = 1,
       next_instr_offset = 5, size_bytes = 4, fixup_symbol = 1\<rparr>]\<rparr>"

definition callee_module :: asm_module where
  "callee_module = (init_asm_module ''b.c'')\<lparr>text_bytes := [0xC3], symbol_heap := [global_symbol ''f'' True 1], symbols := [0]\<rparr>"

lemmas example_defs = start_module_def callee_module_def start_symbols_def global_symbol_def init_asm_module_def

lemma example_ok: "module_ok start_module start_symbols" "module_ok callee_module [global_symbol ''f'' True 1]"
  by (simp_all add: module_ok_def linkable_def example_defs object_names_def fixups_indexed_def fixups_inside_def section_fixup_def)

lemma example_objects:
  "\<exists>obj. write_elf_object_file True start_module = Inr obj \<and> length obj < 2 ^ 32"
  "\<exists>obj. write_elf_object_file True callee_module = Inr obj \<and> length obj < 2 ^ 32"
proof -
  note l = example_ok [unfolded module_ok_def, THEN conjunct1]
  obtain a where "write_elf_object_file True start_module = Inr a"
    using write_object_succeeds [OF l(1)] by (auto simp: start_symbols_def global_symbol_def)
  with object_length [OF this l(1)] show "\<exists>obj. write_elf_object_file True start_module = Inr obj \<and> length obj < 2 ^ 32"
    by (auto simp: example_defs object_names_def)
  obtain b where "write_elf_object_file True callee_module = Inr b"
    using write_object_succeeds [OF l(2)] by (auto simp: global_symbol_def)
  with object_length [OF this l(2)] show "\<exists>obj. write_elf_object_file True callee_module = Inr obj \<and> length obj < 2 ^ 32"
    by (auto simp: example_defs object_names_def)
qed

definition example_program :: link_state where
  "example_program = \<lparr>linked = (init_asm_module [])\<lparr>text_bytes := [0xE8, 0, 0, 0, 0, 0xC3, 0xC3]\<rparr>,
     symbol_table = [start_symbol\<lparr>ls_size := 0\<rparr>,
       \<lparr>ls_defined = True, ls_name = ''f'', ls_relocs = [\<lparr>reloc_type = R_X86_64_PC32, reloc_section_index = TEXT_INDEX,
          reloc_section_offset = 1, reloc_addend = -4\<rparr>], ls_binding = STB_GLOBAL, ls_section_index = TEXT_INDEX,
        ls_section_offset = 6, ls_size = 0\<rparr>,
       \<lparr>ls_defined = True, ls_name = ''l'', ls_relocs = [], ls_binding = STB_LOCAL, ls_section_index = TEXT_INDEX,
        ls_section_offset = 5, ls_size = 0\<rparr>]\<rparr>"

lemma example_linked:
  "rbind (link_module start_module start_symbols link_init) (link_module callee_module [global_symbol ''f'' True 1]) =
    Inr example_program"
  by code_simp

lemma link_two_modules:
  "link_modules [(n, m, s, a), (n', m', s', a')] st = rbind (link_module m s st) (link_module m' s')"
proof -
  have "rbind x (link_modules []) = x" for x by (cases x) simp_all
  then have "link_modules [(n', m', s', a')] = link_module m' s'" by (intro ext) simp
  then show ?thesis by simp
qed

end
