(* ===== verification/Spec2Isabelle.thy ===== *)
theory Spec2Isabelle
  imports Naive_Prelude Naive_Maths Naive_Bit_Set Libc_Mem Libc_Qsort Libc_Alloc Naive_Strings
    Naive_IR_Steps Naive_CType_Properties Naive_Convert Naive_Asm_Properties Naive_RegAlloc_Properties
    Naive_Liveness Naive_Lex_Roundtrip Naive_Program
begin

text \<open>
  A verification of \<^bold>\<open>naive\<close>, a C toolchain: the compiler \<^verbatim>\<open>ncc\<close>, the assembler \<^verbatim>\<open>nas\<close>, the archiver
  \<^verbatim>\<open>nar\<close> and a C library to link with.

  \<^bold>\<open>The program.\<close> \<^verbatim>\<open>ncc\<close> preprocesses a source file, lexes it (\<^verbatim>\<open>src/src/syntax/lex.c\<close> on the character
  reader of \<^verbatim>\<open>reader.c\<close>), parses the tokens, generates an intermediate representation
  (\<^verbatim>\<open>src/src/ir_gen/\<close> with the C types of \<^verbatim>\<open>c_type.c\<close> and the conversions of \<^verbatim>\<open>convert.c\<close>, through the
  builder of \<^verbatim>\<open>src/src/ir.c\<close>), selects x86-64 instructions, allocates registers
  (\<^verbatim>\<open>src/src/backend/reg_alloc.c\<close>), encodes the instructions (\<^verbatim>\<open>asm.c\<close>), writes ELF object files and
  links them (\<^verbatim>\<open>elf.c\<close>). The library under \<^verbatim>\<open>src/libc/\<close> has its own allocator, sorting and string
  functions.

  \<^bold>\<open>How it is modelled.\<close> Every function is a HOL function. A structure is a record, a tagged union a
  datatype with the tags of the source as constructors, an integer a word of its width. Objects
  that the program shares by pointer (IR instructions and blocks, C types, assembler symbols) live
  in a list of the state and a pointer is an index into it. A function that may fail returns a
  \<open>run\<close> (\<open>Naive_Prelude\<close>): \<open>Inl (Exit code)\<close> where the program ends with an exit code,
  \<open>Inl Undefined\<close> where C leaves the behaviour open, \<open>Inl No_Return\<close> where a loop does not end. Loops
  are recursive functions; a bound on the rounds is given only where the source has none of its own,
  and is shown to be enough: \<open>lex_aux\<close> has one round more than the text has characters, which
  \<open>lex_returns\<close> proves sufficient; \<open>c_type_eq\<close> has as many as there are types (\<open>c_type_eq_trees\<close>);
  the liveness analysis is a partial function that \<open>compute_live_ranges_covers\<close> proves to return;
  the loop over an archive goes forward by at least a header in each round.

  \<^bold>\<open>The theories.\<close>
  \<^item> \<open>Naive_Prelude\<close>: word types, exit codes, the result types, generic lemmas.
  \<^item> \<open>Naive_Maths\<close>, \<open>Naive_Bit_Set\<close>, \<open>Naive_Strings\<close> (\<^verbatim>\<open>maths.h\<close>, \<^verbatim>\<open>bit_set.[ch]\<close>, \<^verbatim>\<open>strings.[ch]\<close>): bit
    scans, alignment, bit sets as sets of indices, counted strings and printed integers.
  \<^item> \<open>Libc_Mem\<close>, \<open>Libc_Qsort\<close>, \<open>Libc_Alloc\<close> (\<^verbatim>\<open>src/libc/\<close>): byte memory with \<^verbatim>\<open>memcpy\<close>, \<^verbatim>\<open>memmove\<close>,
    \<^verbatim>\<open>memset\<close> and the string functions; \<^verbatim>\<open>qsort\<close>; the heap with its free list, whose blocks are shown
    to be disjoint, and what goes wrong after \<^verbatim>\<open>mmap\<close> fails.
  \<^item> \<open>Naive_IR_Types\<close>, \<open>Naive_IR\<close>, \<open>Naive_IR_Steps\<close> (\<^verbatim>\<open>ir.h\<close>, \<^verbatim>\<open>ir.c\<close>): types with their layout and their
    printed form, modules, the builder and constant folding; the builder as a step relation whose
    reachable states have unique instruction numbers.
  \<^item> \<open>Naive_AST\<close>, \<open>Naive_CType\<close>, \<open>Naive_CType_Properties\<close> (\<^verbatim>\<open>lex.h\<close>, \<^verbatim>\<open>ast.h\<close>, \<^verbatim>\<open>c_type.c\<close>, parts of
    \<^verbatim>\<open>decl.c\<close>): tokens, specifiers, C types, their equality, the types of literals, the layout of
    structures, unions and arrays.
  \<^item> \<open>Naive_Convert\<close> (\<^verbatim>\<open>convert.c\<close>, \<^verbatim>\<open>context.c\<close>): conversions between types and block scopes.
  \<^item> \<open>Naive_Asm\<close>, \<open>Naive_Asm_Properties\<close> (\<^verbatim>\<open>asm.h\<close>, \<^verbatim>\<open>asm.c\<close>): operands, the encoding of an instruction with a
    decoder that reads it back, labels and fixups. The locale \<open>instr_assembler\<close> is what the assembly
    of a module needs of the encoder that the build generates from \<^verbatim>\<open>x64.enc\<close>; it is interpreted on
    encoders that pick an encoding and call \<open>encode_instr\<close>.
  \<^item> \<open>Naive_RegAlloc\<close>, \<open>Naive_RegAlloc_Properties\<close>, \<open>Naive_Liveness\<close> (\<^verbatim>\<open>reg_alloc.c\<close>): live ranges, linear
    scan, spilling and rewriting. The locale \<open>comparison\<close> of \<open>Libc_Qsort\<close> is interpreted on the order of
    live ranges, so that the scan starts from sorted ranges.
  \<^item> \<open>Naive_Reader\<close>, \<open>Naive_Lex\<close>, \<open>Naive_Lex_Properties\<close>, \<open>Naive_Lex_Roundtrip\<close> (\<^verbatim>\<open>reader.[ch]\<close>, \<^verbatim>\<open>lex.c\<close>):
    the reader with its source locations, the lexer, that it returns, and that it reads printed
    tokens back.
  \<^item> \<open>Naive_File\<close>, \<open>Naive_Elf\<close>, \<open>Naive_Elf_Properties\<close> (\<^verbatim>\<open>file.[ch]\<close>, \<^verbatim>\<open>elf.c\<close>): files, the structures of ELF as
    bytes, the writing of object files and executables.
  \<^item> \<open>Naive_Linker\<close>, \<open>Naive_Linker_Properties\<close> (\<^verbatim>\<open>elf.c\<close>): the reading of object files and archives, symbol
    resolution and relocation. \<open>link_module\<close> is the specification: what linking a module in memory
    means; reading its object file refines it.
  \<^item> \<open>Naive_Ar\<close> (\<^verbatim>\<open>nar.c\<close>): the archiver; linking an archive it wrote links the members in order.
  \<^item> \<open>Naive_Exec\<close>, \<open>Naive_Program\<close> (\<^verbatim>\<open>elf.c\<close>): what a loader finds in an executable, with every relocation
    applied, and that linking well-formed modules keeps the table in the state this needs.
    \<open>program_loads\<close> below puts the parts together, from object files to the loaded program.

  \<^bold>\<open>Parameters.\<close> Code that is not part of the sources is an argument: the pages \<^verbatim>\<open>mmap\<close> returns, the
  generated instruction encoder, double arithmetic on bit patterns (\<open>float_ops\<close>), the bytes of files
  and whether they can be opened.

  \<^bold>\<open>Bounds.\<close> Arrays are shorter than \<open>2 ^ 32\<close> elements where a theorem says so, since the program counts
  them in 32 bits; where a count can wrap in a way that matters the wrap is in the model.

  \<^bold>\<open>Not modelled.\<close> The parser is generated from \<^verbatim>\<open>parse.peg\<close> by the build, so only its helpers are
  sources; \<^verbatim>\<open>preprocess.c\<close>, the generation of expressions, initializers and statements
  (\<^verbatim>\<open>expr.c\<close>, \<^verbatim>\<open>initializer.c\<close>, \<^verbatim>\<open>statement.c\<close>, \<^verbatim>\<open>ir_gen.c\<close>) and instruction selection (\<^verbatim>\<open>asm_gen.c\<close>) work on
  the tree that parser builds and are left for later; \<^verbatim>\<open>ast.c\<close> and \<^verbatim>\<open>diagnostics.c\<close> print; the drivers
  \<^verbatim>\<open>ncc.c\<close> and \<^verbatim>\<open>nas.c\<close> handle command lines and files; the remaining functions of the C library wrap
  system calls.
\<close>

section \<open>From object files to a loaded program\<close>

text \<open>
  C1. Linking the object files of well-formed modules gives a program. Let the files be written by
  \<^verbatim>\<open>write_elf_object_file\<close> from modules whose fixups are inside of their sections and do not overlap,
  and let linking the modules in memory succeed with all referenced symbols defined. Then
  \<^verbatim>\<open>link_elf_executable\<close> on the files writes an executable, and what a loader finds in it is the linked
  program: the sections at their addresses, in them the address of or the distance to the right symbol
  at the place of every fixup that was left to the linker, nothing else changed, and the entry point
  at \<^verbatim>\<open>_start\<close>.
\<close>

theorem program_loads:
  assumes "\<forall>x\<in>set mods. object_member files x" "sum_list (map member_symbols mods) < 2 ^ 32"
    and "link_modules mods link_init = Inr st" "exec_size (linked st) (symbol_table st) < 2 ^ 32"
    and "\<forall>s\<in>set (symbol_table st). \<not> unresolved s" "\<exists>s\<in>set (symbol_table st). local_symbol s"
    and "filter starts (symbol_table st) = [start]" "location (linked st) start \<noteq> -1"
  shows "\<exists>exe. link_elf_executable True files (map fst mods) = Inr exe \<and> loads_as exe st start"
proof -
  have "\<forall>x\<in>set mods. member_module_ok x" using assms(1) by auto
  note ok = linked_program [OF this assms(3,4)]
  have "link_inputs files (map fst mods) link_init = Inr st"
    using link_inputs_objects [OF assms(1), of link_init] assms(2,3) by (simp add: link_init_def)
  then show ?thesis using executable_as [OF ok(1) assms(5-8) ok(2)] by (simp add: link_elf_executable_def)
qed

theorem program_loads_witness:
  "\<exists>a b exe. write_elf_object_file True start_module = Inr a \<and> write_elf_object_file True callee_module = Inr b \<and>
     link_elf_executable True (\<lambda>name. if name = ''a.o'' then Some a else Some b) [''a.o'', ''b.o''] = Inr exe \<and>
     loads_as exe example_program (hd (symbol_table example_program))"
proof -
  obtain a b where o: "write_elf_object_file True start_module = Inr a" "length a < 2 ^ 32"
    "write_elf_object_file True callee_module = Inr b" "length b < 2 ^ 32" using example_objects by blast
  let ?mods = "[(''a.o'', start_module, start_symbols, a), (''b.o'', callee_module, [global_symbol ''f'' True 1], b)]"
  have l: "link_modules ?mods link_init = Inr example_program" unfolding link_two_modules by (rule example_linked)
  have loc: "location (linked example_program) (hd (symbol_table example_program)) = 0x8000328" by code_simp
  have "\<exists>exe. link_elf_executable True (\<lambda>name. if name = ''a.o'' then Some a else Some b) (map fst ?mods) = Inr exe \<and>
      loads_as exe example_program (hd (symbol_table example_program))"
    by (rule program_loads [OF _ _ l])
       (use o example_ok loc in \<open>simp_all add: start_symbols_def example_program_def exec_size_def init_asm_module_def unresolved_def
          local_symbol_def starts_def start_symbol_def\<close>)
  then show ?thesis using o by auto
qed

end
